(* ===== verification/Prelude.thy ===== *)
theory Prelude
  imports Main
begin

text \<open>
  Shared vocabulary of the development: machine integers written out over \<open>int\<close>, the
  outcome type of code that may terminate the process, the state-passing programs the
  components are written in, and the proof rules for them.

  A program of type \<open>('s, 'a) prog\<close> takes the process state and returns an outcome and the
  new state. The outcome says how control left the code: \<open>Return\<close> is an ordinary return,
  \<open>Exit\<close> is \<^verbatim>\<open>libc::_exit\<close> or \<^verbatim>\<open>libc::exit\<close>, \<open>Killed\<close> is death by a signal whose
  default action terminates, and \<open>Longjmp\<close> is a \<^verbatim>\<open>siglongjmp\<close> that left the code.
\<close>

section \<open>Collections\<close>

named_theorems prog_simps \<open>unfolding of programs\<close>
named_theorems hoare \<open>rules for triples over programs\<close>
named_theorems run \<open>definitions to unfold when a closed run is evaluated\<close>

section \<open>Machine integers\<close>

text \<open>
  \<^verbatim>\<open>c_int\<close>, \<^verbatim>\<open>c_uint\<close>, \<^verbatim>\<open>c_long\<close> and \<^verbatim>\<open>c_ulong\<close> values are integers; a cast or an
  arithmetic step that can leave the range is written with the wrap-around of the release
  profile (\<open>i32\<close>, \<open>u32\<close>, \<open>i64\<close>, \<open>u64\<close>).
\<close>

definition i32 :: "int \<Rightarrow> int" where
  "i32 x = (x + 2 ^ 31) mod 2 ^ 32 - 2 ^ 31"

definition u32 :: "int \<Rightarrow> int" where
  "u32 x = x mod 2 ^ 32"

definition u64 :: "int \<Rightarrow> int" where
  "u64 x = x mod 2 ^ 64"

definition i64 :: "int \<Rightarrow> int" where
  "i64 x = (x + 2 ^ 63) mod 2 ^ 64 - 2 ^ 63"

definition in_i32 :: "int \<Rightarrow> bool" where
  "in_i32 x \<longleftrightarrow> - (2 ^ 31) \<le> x \<and> x < 2 ^ 31"

lemma in_i32_i32 [simp]: "in_i32 (i32 x)"
proof -
  have "0 \<le> (x + 2 ^ 31) mod 2 ^ 32" and "(x + 2 ^ 31) mod 2 ^ 32 < (2 ^ 32 :: int)"
    by simp_all
  then show ?thesis by (simp add: i32_def in_i32_def)
qed

lemma i32_id [simp]: "in_i32 x \<Longrightarrow> i32 x = x"
  by (simp add: i32_def in_i32_def mod_pos_pos_trivial)

lemma i32_bounds: "- (2 ^ 31) \<le> i32 x" "i32 x < 2 ^ 31"
  using in_i32_i32 [of x] by (simp_all add: in_i32_def)

lemma i64_id: "- (2 ^ 63) \<le> x \<Longrightarrow> x < 2 ^ 63 \<Longrightarrow> i64 x = x"
  by (simp add: i64_def mod_pos_pos_trivial)

lemma u32_id: "0 \<le> x \<Longrightarrow> x < 2 ^ 32 \<Longrightarrow> u32 x = x"
  by (simp add: u32_def mod_pos_pos_trivial)

lemma u32_nonneg [simp]: "0 \<le> u32 x"
  by (simp add: u32_def)

lemma u32_bound: "u32 x < 2 ^ 32"
  by (simp add: u32_def)

text \<open>Division of \<^verbatim>\<open>c_int\<close> values truncates towards zero.\<close>

definition tdiv :: "int \<Rightarrow> int \<Rightarrow> int" where
  "tdiv a b = sgn a * sgn b * (\<bar>a\<bar> div \<bar>b\<bar>)"

lemma tdiv_nonneg: "0 \<le> a \<Longrightarrow> 0 < b \<Longrightarrow> tdiv a b = a div b"
  by (cases "a = 0") (simp_all add: tdiv_def)

lemma tdiv_neg: "a < 0 \<Longrightarrow> 0 < b \<Longrightarrow> tdiv a b = - ((- a) div b)"
  by (simp add: tdiv_def)

section \<open>Outcomes and programs\<close>

datatype 'a flow = Return 'a | Exit int | Killed int | Longjmp int

type_synonym ('s, 'a) prog = "'s \<Rightarrow> 'a flow \<times> 's"

definition return_p :: "'a \<Rightarrow> ('s, 'a) prog" where
  [prog_simps]: "return_p a s = (Return a, s)"

definition exit_p :: "int \<Rightarrow> ('s, 'a) prog" where
  [prog_simps]: "exit_p c s = (Exit c, s)"

definition modify_p :: "('s \<Rightarrow> 's) \<Rightarrow> ('s, unit) prog" where
  [prog_simps]: "modify_p f s = (Return (), f s)"

definition bind_p :: "('s, 'a) prog \<Rightarrow> ('a \<Rightarrow> ('s, 'b) prog) \<Rightarrow> ('s, 'b) prog" where
  "bind_p m f s =
     (case m s of
        (Return a, s') \<Rightarrow> f a s'
      | (Exit c, s') \<Rightarrow> (Exit c, s')
      | (Killed g, s') \<Rightarrow> (Killed g, s')
      | (Longjmp g, s') \<Rightarrow> (Longjmp g, s'))"

definition then_p :: "('s, unit) prog \<Rightarrow> ('s, 'b) prog \<Rightarrow> ('s, 'b) prog" where
  "then_p m k = bind_p m (\<lambda>_. k)"

declare bind_p_def [run] then_p_def [run] return_p_def [run] exit_p_def [run] modify_p_def [run]
  Let_def [run]

lemma bind_p_simps [simp]:
  "m s = (Return a, s') \<Longrightarrow> bind_p m f s = f a s'"
  "m s = (Exit c, s') \<Longrightarrow> bind_p m f s = (Exit c, s')"
  "m s = (Killed g, s') \<Longrightarrow> bind_p m f s = (Killed g, s')"
  "m s = (Longjmp g, s') \<Longrightarrow> bind_p m f s = (Longjmp g, s')"
  by (simp_all add: bind_p_def)

lemma then_p_simps [simp]:
  "m s = (Return u, s') \<Longrightarrow> then_p m k s = k s'"
  "m s = (Exit c, s') \<Longrightarrow> then_p m k s = (Exit c, s')"
  "m s = (Killed g, s') \<Longrightarrow> then_p m k s = (Killed g, s')"
  "m s = (Longjmp g, s') \<Longrightarrow> then_p m k s = (Longjmp g, s')"
  by (simp_all add: then_p_def)

lemma then_modify_p [simp]: "then_p (modify_p f) k s = k (f s)"
  by (simp add: modify_p_def)

lemma bind_return_p [simp]: "bind_p (return_p a) f s = f a s"
  by (simp add: return_p_def)

section \<open>Triples\<close>

text \<open>
  \<open>triple P m Q E\<close>: from a state with \<open>P\<close>, an ordinary return \<open>a\<close> of \<open>m\<close> leaves a state with
  \<open>Q a\<close>, and any other outcome \<open>r\<close> leaves a state with \<open>E r\<close> (the outcome carries no value, so
  it is read at type \<open>unit flow\<close>).
\<close>

definition void :: "'a flow \<Rightarrow> unit flow" where
  "void r = (case r of Return _ \<Rightarrow> Return () | Exit c \<Rightarrow> Exit c | Killed g \<Rightarrow> Killed g | Longjmp g \<Rightarrow> Longjmp g)"

lemma void_simps [simp]:
  "void (Return a) = Return ()" "void (Exit c) = Exit c"
  "void (Killed g) = Killed g" "void (Longjmp g) = Longjmp g"
  by (simp_all add: void_def)

definition triple ::
  "('s \<Rightarrow> bool) \<Rightarrow> ('s, 'a) prog \<Rightarrow> ('a \<Rightarrow> 's \<Rightarrow> bool) \<Rightarrow> (unit flow \<Rightarrow> 's \<Rightarrow> bool) \<Rightarrow> bool" where
  "triple P m Q E \<longleftrightarrow>
     (\<forall>s r s'. P s \<longrightarrow> m s = (r, s') \<longrightarrow> (case r of Return a \<Rightarrow> Q a s' | _ \<Rightarrow> E (void r) s'))"

lemma tripleI:
  assumes "\<And>s r s'. P s \<Longrightarrow> m s = (r, s') \<Longrightarrow> (case r of Return a \<Rightarrow> Q a s' | _ \<Rightarrow> E (void r) s')"
  shows "triple P m Q E"
  using assms by (simp add: triple_def)

lemma tripleD:
  "triple P m Q E \<Longrightarrow> P s \<Longrightarrow> m s = (r, s') \<Longrightarrow> (case r of Return a \<Rightarrow> Q a s' | _ \<Rightarrow> E (void r) s')"
  by (simp add: triple_def)

lemma triple_Return: "triple P m Q E \<Longrightarrow> P s \<Longrightarrow> m s = (Return a, s') \<Longrightarrow> Q a s'"
  by (fastforce simp: triple_def)

lemma triple_abrupt:
  "triple P m Q E \<Longrightarrow> P s \<Longrightarrow> m s = (r, s') \<Longrightarrow> (\<And>a. r \<noteq> Return a) \<Longrightarrow> E (void r) s'"
  by (cases r) (fastforce simp: triple_def)+

lemma triple_return [hoare]: "(\<And>s. P s \<Longrightarrow> Q a s) \<Longrightarrow> triple P (return_p a) Q E"
  by (simp add: triple_def return_p_def)

lemma triple_exit [hoare]: "(\<And>s. P s \<Longrightarrow> E (Exit c) s) \<Longrightarrow> triple P (exit_p c) Q E"
  by (simp add: triple_def exit_p_def)

lemma triple_modify [hoare]: "(\<And>s. P s \<Longrightarrow> Q () (f s)) \<Longrightarrow> triple P (modify_p f) Q E"
  by (simp add: triple_def modify_p_def)

lemma triple_bind [hoare]:
  assumes "triple P m R E" and "\<And>a. triple (R a) (f a) Q E"
  shows "triple P (bind_p m f) Q E"
proof (rule tripleI)
  fix s r s'
  assume P: "P s" and run: "bind_p m f s = (r, s')"
  obtain r1 s1 where m: "m s = (r1, s1)" by fastforce
  show "case r of Return a \<Rightarrow> Q a s' | _ \<Rightarrow> E (void r) s'"
  proof (cases r1)
    case (Return a)
    with assms(1) P m have "R a s1" by (auto dest: triple_Return)
    moreover from Return m run have "f a s1 = (r, s')" by simp
    ultimately show ?thesis using assms(2) [of a] by (auto simp: triple_def)
  qed (use assms(1) P m run in \<open>fastforce simp: triple_def\<close>)+
qed

lemma triple_then [hoare]:
  "triple P m (\<lambda>_. R) E \<Longrightarrow> triple R k Q E \<Longrightarrow> triple P (then_p m k) Q E"
  unfolding then_p_def by (rule triple_bind)

lemma triple_state:
  assumes "\<And>s. P s \<Longrightarrow> triple (\<lambda>t. t = s) (f s) Q E"
  shows "triple P (\<lambda>s. f s s) Q E"
  using assms by (fastforce simp: triple_def)

lemma triple_comp:
  "triple P' m Q E \<Longrightarrow> (\<And>s. P s \<Longrightarrow> P' (f s)) \<Longrightarrow> triple P (\<lambda>s. m (f s)) Q E"
  by (auto simp: triple_def)

lemma triple_weaken:
  assumes "triple P' m Q' E'" and "\<And>s. P s \<Longrightarrow> P' s"
    and "\<And>a s. Q' a s \<Longrightarrow> Q a s" and "\<And>r s. E' r s \<Longrightarrow> E r s"
  shows "triple P m Q E"
proof (rule tripleI)
  fix s r s'
  assume "P s" and run: "m s = (r, s')"
  then have "P' s" using assms(2) by simp
  with run assms(1) have "case r of Return a \<Rightarrow> Q' a s' | _ \<Rightarrow> E' (void r) s'"
    by (simp add: triple_def)
  then show "case r of Return a \<Rightarrow> Q a s' | _ \<Rightarrow> E (void r) s'"
    using assms(3,4) by (cases r) auto
qed

text \<open>The same statement about one run, for code that looks at its state before it acts.\<close>

definition ok :: "('a \<Rightarrow> 's \<Rightarrow> bool) \<Rightarrow> (unit flow \<Rightarrow> 's \<Rightarrow> bool) \<Rightarrow> 'a flow \<times> 's \<Rightarrow> bool" where
  "ok Q E p \<longleftrightarrow> (case p of (r, s) \<Rightarrow> (case r of Return a \<Rightarrow> Q a s | _ \<Rightarrow> E (void r) s))"

lemma ok_simps [simp]:
  "ok Q E (Return a, s) = Q a s" "ok Q E (Exit c, s) = E (Exit c) s"
  "ok Q E (Killed g, s) = E (Killed g) s" "ok Q E (Longjmp g, s) = E (Longjmp g) s"
  by (simp_all add: ok_def)

lemma ok_return [simp]: "ok Q E (return_p a s) = Q a s"
  by (simp add: return_p_def)

lemma ok_exit [simp]: "ok Q E (exit_p c s) = E (Exit c) s"
  by (simp add: exit_p_def)

lemma triple_ok: "triple P m Q E \<longleftrightarrow> (\<forall>s. P s \<longrightarrow> ok Q E (m s))"
  by (fastforce simp: triple_def ok_def split: prod.splits)

lemma ok_triple: "triple P m Q E \<Longrightarrow> P s \<Longrightarrow> ok Q E (m s)"
  by (simp add: triple_ok)

lemma ok_bind:
  assumes "ok R E (m s)" and "\<And>a t. R a t \<Longrightarrow> ok Q E (f a t)"
  shows "ok Q E (bind_p m f s)"
proof -
  obtain r t where m: "m s = (r, t)" by fastforce
  with assms show ?thesis by (cases r) auto
qed

lemma ok_then: "ok (\<lambda>_. R) E (m s) \<Longrightarrow> (\<And>t. R t \<Longrightarrow> ok Q E (k t)) \<Longrightarrow> ok Q E (then_p m k s)"
  unfolding then_p_def by (rule ok_bind)

lemma ok_mono:
  "ok Q E p \<Longrightarrow> (\<And>a s. Q a s \<Longrightarrow> Q' a s) \<Longrightarrow> (\<And>r s. E r s \<Longrightarrow> E' r s) \<Longrightarrow> ok Q' E' p"
  by (cases p; cases "fst p") auto

lemma ok_conj: "ok Q E p \<Longrightarrow> ok Q' E' p \<Longrightarrow> ok (\<lambda>a s. Q a s \<and> Q' a s) (\<lambda>r s. E r s \<and> E' r s) p"
  by (cases p; cases "fst p") auto

lemma ok_Return: "ok Q E p \<Longrightarrow> p = (Return a, s) \<Longrightarrow> Q a s"
  by simp

text \<open>A predicate is stable under a program when no outcome of the program breaks it.\<close>

definition stable :: "('s \<Rightarrow> bool) \<Rightarrow> ('s, 'a) prog \<Rightarrow> bool" where
  "stable I m \<longleftrightarrow> (\<forall>s. I s \<longrightarrow> I (snd (m s)))"

lemma stableD: "stable I m \<Longrightarrow> I s \<Longrightarrow> m s = (r, s') \<Longrightarrow> I s'"
  by (metis snd_conv stable_def)

lemma stable_return [hoare]: "stable I (return_p a)"
  by (simp add: stable_def return_p_def)

lemma stable_exit [hoare]: "stable I (exit_p c)"
  by (simp add: stable_def exit_p_def)

lemma stable_modify [hoare]: "(\<And>s. I s \<Longrightarrow> I (f s)) \<Longrightarrow> stable I (modify_p f)"
  by (simp add: stable_def modify_p_def)

lemma stable_bind [hoare]:
  "stable I m \<Longrightarrow> (\<And>a. stable I (f a)) \<Longrightarrow> stable I (bind_p m f)"
  by (fastforce simp: stable_def bind_p_def split: prod.split flow.split)

lemma stable_then [hoare]: "stable I m \<Longrightarrow> stable I k \<Longrightarrow> stable I (then_p m k)"
  unfolding then_p_def by (rule stable_bind)

lemma stable_if [hoare]: "stable I m \<Longrightarrow> stable I k \<Longrightarrow> stable I (if b then m else k)"
  by simp

lemma stable_comp: "stable I m \<Longrightarrow> (\<And>s. I s \<Longrightarrow> I (f s)) \<Longrightarrow> stable I (\<lambda>s. m (f s))"
  by (auto simp: stable_def)

lemma stable_state: "(\<And>s. stable I (f s)) \<Longrightarrow> stable I (\<lambda>s. f s s)"
  by (simp add: stable_def)

end
