(* ===== verification/F64.thy ===== *)
theory F64
  imports Prelude "HOL-Library.Log_Nat"
begin

text \<open>
  The \<^verbatim>\<open>c_double\<close> values of the source: finite IEEE binary64 numbers as rationals, with
  rounding to nearest, ties to even, after every operation. The values the program computes
  lie far from the subnormal and overflow ranges, so the exponent is unbounded here. Casts
  follow Rust: an integer rounds to the nearest double, a double truncates and saturates.
\<close>

section \<open>Rounding\<close>

definition round_half_even :: "rat \<Rightarrow> int" where
  "round_half_even x =
     (let f = \<lfloor>x\<rfloor>; d = x - of_int f in
      if d < 1/2 then f else if 1/2 < d then f + 1 else if even f then f else f + 1)"

definition f64_exponent :: "rat \<Rightarrow> int" where
  "f64_exponent x = (if 1 \<le> x then bitlen \<lfloor>x\<rfloor> - 1 else - bitlen (\<lceil>1 / x\<rceil> - 1))"

definition f64_pos :: "rat \<Rightarrow> rat" where
  "f64_pos x = (let u = 2 powi (f64_exponent x - 52) in of_int (round_half_even (x / u)) * u)"

definition f64 :: "rat \<Rightarrow> rat" where
  "f64 x = (if x = 0 then 0 else if 0 < x then f64_pos x else - f64_pos (- x))"

definition f64_of_int :: "int \<Rightarrow> rat" where
  "f64_of_int n = f64 (of_int n)"

definition f64_trunc :: "rat \<Rightarrow> int" where
  "f64_trunc x = (if 0 \<le> x then \<lfloor>x\<rfloor> else \<lceil>x\<rceil>)"

definition f64_to_i32 :: "rat \<Rightarrow> int" where
  "f64_to_i32 x = max (- (2 ^ 31)) (min (2 ^ 31 - 1) (f64_trunc x))"

definition f64_add :: "rat \<Rightarrow> rat \<Rightarrow> rat" where "f64_add a b = f64 (a + b)"
definition f64_sub :: "rat \<Rightarrow> rat \<Rightarrow> rat" where "f64_sub a b = f64 (a - b)"
definition f64_mul :: "rat \<Rightarrow> rat \<Rightarrow> rat" where "f64_mul a b = f64 (a * b)"
definition f64_div :: "rat \<Rightarrow> rat \<Rightarrow> rat" where "f64_div a b = f64 (a / b)"

text \<open>\<^verbatim>\<open>difftime\<close>: the difference of two \<^verbatim>\<open>time_t\<close> values as a double.\<close>

definition difftime :: "int \<Rightarrow> int \<Rightarrow> rat" where
  "difftime t1 t0 = f64_of_int (t1 - t0)"

section \<open>The rounding interface\<close>

text \<open>
  What the components rely on: rounding is monotone and leaves the integers up to \<open>2 ^ 53\<close>
  in size unchanged. Comparisons against such an integer survive rounding.
\<close>

locale rounding =
  fixes rnd :: "rat \<Rightarrow> rat"
  assumes rnd_mono: "x \<le> y \<Longrightarrow> rnd x \<le> rnd y"
    and rnd_exact: "\<bar>n\<bar> \<le> 2 ^ 53 \<Longrightarrow> rnd (of_int n) = of_int n"
begin

lemma rnd_le_int: "\<bar>n\<bar> \<le> 2 ^ 53 \<Longrightarrow> x \<le> of_int n \<Longrightarrow> rnd x \<le> of_int n"
  using rnd_mono [of x "of_int n"] by (simp add: rnd_exact)

lemma int_le_rnd: "\<bar>n\<bar> \<le> 2 ^ 53 \<Longrightarrow> of_int n \<le> x \<Longrightarrow> of_int n \<le> rnd x"
  using rnd_mono [of "of_int n" x] by (simp add: rnd_exact)

lemma rnd_zero: "rnd 0 = 0"
  using rnd_exact [of 0] by simp

lemma rnd_nonneg: "0 \<le> x \<Longrightarrow> 0 \<le> rnd x"
  using rnd_mono [of 0 x] by (simp add: rnd_zero)

lemma rnd_nonpos: "x \<le> 0 \<Longrightarrow> rnd x \<le> 0"
  using rnd_mono [of x 0] by (simp add: rnd_zero)

lemma rnd_int_order: "m \<le> n \<Longrightarrow> rnd (of_int m) \<le> rnd (of_int n)"
  by (rule rnd_mono) simp

lemma rnd_int_ge_iff:
  assumes "\<bar>k\<bar> < 2 ^ 53"
  shows "of_int k \<le> rnd (of_int n) \<longleftrightarrow> k \<le> n"
proof
  assume le: "of_int k \<le> rnd (of_int n)"
  show "k \<le> n"
  proof (rule ccontr)
    assume "\<not> k \<le> n"
    then have "rnd (of_int n) \<le> rnd (of_int (k - 1))" by (intro rnd_int_order) simp
    also have "rnd (of_int (k - 1)) = of_int (k - 1)"
      by (rule rnd_exact) (use assms in linarith)
    finally show False using le by simp
  qed
next
  assume "k \<le> n"
  then show "of_int k \<le> rnd (of_int n)"
    using assms by (intro int_le_rnd) auto
qed

lemma rnd_pos_int: "1 \<le> n \<Longrightarrow> 1 \<le> rnd (of_int n)"
  using rnd_int_ge_iff [of 1 n] by simp

end

section \<open>Properties of the rounding function\<close>

lemma round_half_even_ge: "of_int a \<le> x \<Longrightarrow> a \<le> round_half_even x"
proof -
  assume "of_int a \<le> x"
  then have "a \<le> \<lfloor>x\<rfloor>" by (simp add: le_floor_iff)
  then show ?thesis by (simp add: round_half_even_def Let_def)
qed

lemma round_half_even_of_int [simp]: "round_half_even (of_int n) = n"
  by (simp add: round_half_even_def)

lemma round_half_even_le_floor: "round_half_even x \<le> \<lfloor>x\<rfloor> + 1"
  by (simp add: round_half_even_def Let_def)

lemma floor_le_round_half_even: "\<lfloor>x\<rfloor> \<le> round_half_even x"
  by (simp add: round_half_even_def Let_def)

lemma round_half_even_mono:
  assumes "x \<le> y"
  shows "round_half_even x \<le> round_half_even y"
proof (cases "\<lfloor>x\<rfloor> = \<lfloor>y\<rfloor>")
  case True
  with assms show ?thesis by (simp add: round_half_even_def Let_def)
next
  case False
  moreover have "\<lfloor>x\<rfloor> \<le> \<lfloor>y\<rfloor>" using assms by (rule floor_mono)
  ultimately have "\<lfloor>x\<rfloor> + 1 \<le> \<lfloor>y\<rfloor>" by simp
  then show ?thesis
    using round_half_even_le_floor [of x] floor_le_round_half_even [of y] by linarith
qed

lemma round_half_even_le: "x \<le> of_int b \<Longrightarrow> round_half_even x \<le> b"
  using round_half_even_mono [of x "of_int b"] by simp

text \<open>The exponent brackets a positive value between two powers of two.\<close>

lemma powi_two_int: "0 \<le> k \<Longrightarrow> (2 :: rat) powi k = of_int (2 ^ nat k)"
  by (simp add: power_int_def)

lemma f64_exponent_ge1:
  assumes "1 \<le> x"
  shows "2 powi f64_exponent x \<le> x \<and> x < 2 powi (f64_exponent x + 1)"
proof -
  let ?n = "\<lfloor>x\<rfloor>"
  have n: "0 < ?n" using assms by (simp add: le_floor_iff)
  have b: "2 ^ nat (bitlen ?n - 1) \<le> ?n \<and> ?n < 2 ^ nat (bitlen ?n)"
    using n by (rule bitlen_bounds)
  have pos: "1 \<le> bitlen ?n"
    using n bitlen_nonneg [of ?n] bitlen_eq_zero_iff [of ?n] by linarith
  have e: "f64_exponent x = bitlen ?n - 1" using assms by (simp add: f64_exponent_def)
  have "(2 :: rat) powi f64_exponent x = of_int (2 ^ nat (bitlen ?n - 1))"
    unfolding e using pos by (intro powi_two_int) simp
  also have "\<dots> \<le> of_int ?n" using b of_int_le_iff by blast
  also have "\<dots> \<le> x" by simp
  finally have lower: "2 powi f64_exponent x \<le> x" .
  have "x < of_int (?n + 1)" by linarith
  also have "\<dots> \<le> of_int (2 ^ nat (bitlen ?n))"
    using b by (simp only: of_int_le_iff) linarith
  also have "of_int (2 ^ nat (bitlen ?n)) = (2 :: rat) powi (f64_exponent x + 1)"
    unfolding e using pos by (simp add: powi_two_int)
  finally show ?thesis using lower by simp
qed

lemma f64_exponent_lt1:
  assumes "0 < x" "x < 1"
  shows "2 powi f64_exponent x \<le> x \<and> x < 2 powi (f64_exponent x + 1)"
proof -
  let ?m = "\<lceil>1 / x\<rceil>"
  let ?k = "bitlen (?m - 1)"
  have "1 < 1 / x" using assms by simp
  then have m: "0 < ?m - 1" by (simp add: less_ceiling_iff)
  have b: "2 ^ nat (?k - 1) \<le> ?m - 1 \<and> ?m - 1 < 2 ^ nat ?k"
    using m by (rule bitlen_bounds)
  have k: "1 \<le> ?k" using m bitlen_nonneg [of "?m - 1"] bitlen_eq_zero_iff [of "?m - 1"] by linarith
  have e: "f64_exponent x = - ?k" using assms by (simp add: f64_exponent_def)
  have "1 / x \<le> of_int ?m" by simp
  also have "\<dots> \<le> of_int (2 ^ nat ?k)" using b by (simp only: of_int_le_iff) linarith
  finally have up: "1 / x \<le> 2 powi ?k" using k by (simp add: powi_two_int)
  have "of_int (2 ^ nat (?k - 1)) \<le> (of_int (?m - 1) :: rat)" using b by (simp only: of_int_le_iff)
  also have "\<dots> < 1 / x" by linarith
  finally have lo: "2 powi (?k - 1) < 1 / x" using k by (simp add: powi_two_int)
  have inv1: "(2 :: rat) powi (- ?k) = 1 / 2 powi ?k" by (simp add: power_int_minus inverse_eq_divide)
  have inv2: "(2 :: rat) powi (- ?k + 1) = 1 / 2 powi (?k - 1)"
    using power_int_minus [of "2 :: rat" "?k - 1"] by (simp add: inverse_eq_divide algebra_simps)
  have p: "(0 :: rat) < 2 powi ?k" "(0 :: rat) < 2 powi (?k - 1)" by simp_all
  have "1 / 2 powi ?k \<le> x" using up assms(1) p(1) by (simp add: field_simps)
  moreover have "x < 1 / 2 powi (?k - 1)" using lo assms(1) p(2) by (simp add: field_simps)
  ultimately show ?thesis unfolding e inv1 inv2 by simp
qed

lemma f64_exponent_bounds:
  assumes "0 < x"
  shows "2 powi f64_exponent x \<le> x" and "x < 2 powi (f64_exponent x + 1)"
  using assms f64_exponent_ge1 [of x] f64_exponent_lt1 [of x] by (cases "1 \<le> x"; simp)+

lemma f64_exponent_mono:
  assumes "0 < x" "x \<le> y"
  shows "f64_exponent x \<le> f64_exponent y"
proof (rule ccontr)
  assume "\<not> ?thesis"
  then have "(2 :: rat) powi (f64_exponent y + 1) \<le> 2 powi f64_exponent x"
    by (intro power_int_increasing) auto
  then show False
    using f64_exponent_bounds [of x] f64_exponent_bounds [of y] assms by linarith
qed

lemma powi_shift: "(2 :: rat) powi a = of_int (2 ^ nat d) * 2 powi (a - d)" if "0 \<le> d"
proof -
  have "(2 :: rat) powi a = 2 powi (d + (a - d))" by simp
  also have "\<dots> = 2 powi d * 2 powi (a - d)" by (rule power_int_add) simp
  finally show ?thesis using that by (simp add: powi_two_int)
qed

lemma f64_pos_bounds:
  assumes "0 < x"
  shows "2 powi f64_exponent x \<le> f64_pos x" and "f64_pos x \<le> 2 powi (f64_exponent x + 1)"
proof -
  let ?u = "(2 :: rat) powi (f64_exponent x - 52)"
  have u: "0 < ?u" by simp
  have lo: "(2 :: rat) powi f64_exponent x = of_int (2 ^ 52) * ?u"
    using powi_shift [of 52 "f64_exponent x"] by simp
  have hi: "(2 :: rat) powi (f64_exponent x + 1) = of_int (2 ^ 53) * ?u"
    using powi_shift [of 53 "f64_exponent x + 1"] by simp
  have "of_int (2 ^ 52) \<le> x / ?u" and "x / ?u \<le> of_int (2 ^ 53)"
    using f64_exponent_bounds [OF assms] u unfolding lo hi
    by (simp_all only: pos_le_divide_eq pos_divide_le_eq less_imp_le)
  then have "2 ^ 52 \<le> round_half_even (x / ?u)" and "round_half_even (x / ?u) \<le> 2 ^ 53"
    by (auto intro: round_half_even_ge round_half_even_le)
  then have "of_int (2 ^ 52) \<le> (of_int (round_half_even (x / ?u)) :: rat)"
    and "of_int (round_half_even (x / ?u)) \<le> (of_int (2 ^ 53) :: rat)"
    by (simp_all only: of_int_le_iff)
  then show "2 powi f64_exponent x \<le> f64_pos x" and "f64_pos x \<le> 2 powi (f64_exponent x + 1)"
    unfolding lo hi f64_pos_def Let_def using u by (simp_all only: mult_right_mono less_imp_le)
qed

lemma f64_pos_mono:
  assumes "0 < x" "x \<le> y"
  shows "f64_pos x \<le> f64_pos y"
proof (cases "f64_exponent x = f64_exponent y")
  case True
  let ?u = "(2 :: rat) powi (f64_exponent y - 52)"
  have "x / ?u \<le> y / ?u" using assms(2) by (simp add: divide_right_mono)
  then have "round_half_even (x / ?u) \<le> round_half_even (y / ?u)" by (rule round_half_even_mono)
  then show ?thesis by (simp add: f64_pos_def Let_def True mult_right_mono)
next
  case False
  with f64_exponent_mono [OF assms] have "f64_exponent x + 1 \<le> f64_exponent y" by simp
  then have "(2 :: rat) powi (f64_exponent x + 1) \<le> 2 powi f64_exponent y"
    by (intro power_int_increasing) auto
  then show ?thesis
    using f64_pos_bounds [OF assms(1)] f64_pos_bounds [of y] assms by linarith
qed

lemma f64_pos_exact:
  assumes "0 < n" "n \<le> 2 ^ 53"
  shows "f64_pos (of_int n) = of_int n"
proof -
  let ?x = "of_int n :: rat"
  let ?e = "f64_exponent ?x"
  let ?u = "(2 :: rat) powi (?e - 52)"
  have x: "0 < ?x" using assms(1) by simp
  have u: "?u \<noteq> 0" by simp
  have "\<exists>k. ?x / ?u = of_int k"
  proof (cases "?e \<le> 52")
    case True
    then have "1 / ?u = 2 powi (52 - ?e)"
      using power_int_minus [of "2 :: rat" "?e - 52"] by (simp add: inverse_eq_divide)
    then have "?x / ?u = ?x * of_int (2 ^ nat (52 - ?e))"
      using True powi_two_int [of "52 - ?e"] by (metis diff_ge_0_iff_ge mult.right_neutral times_divide_eq_right)
    then have "?x / ?u = of_int (n * 2 ^ nat (52 - ?e))" by (simp only: of_int_mult)
    then show ?thesis by blast
  next
    case False
    have "2 powi ?e \<le> ?x" using f64_exponent_bounds [OF x] by simp
    also have "?x \<le> of_int (2 ^ 53)" using assms(2) by (simp only: of_int_le_iff)
    finally have "2 powi ?e \<le> (2 :: rat) powi 53" by (simp add: powi_two_int)
    then have "?e \<le> 53" using power_int_strict_increasing [of 53 ?e "2 :: rat"] by force
    with False have e: "?e = 53" by simp
    with \<open>2 powi ?e \<le> ?x\<close> have "of_int (2 ^ 53) \<le> ?x" by (simp add: powi_two_int)
    with assms(2) have "n = 2 ^ 53" by (simp only: of_int_le_iff)
    then have "?x / ?u = of_int (2 ^ 52)" unfolding e by simp
    then show ?thesis by blast
  qed
  then obtain k where k: "?x / ?u = of_int k" by blast
  then have "f64_pos ?x = of_int k * ?u" by (simp add: f64_pos_def Let_def)
  also have "\<dots> = ?x" using u by (simp add: k [symmetric])
  finally show ?thesis .
qed

text \<open>Rounding commutes with scaling by two, so dyadic fractions of small integers are exact.\<close>

lemma f64_exponent_unique:
  assumes "2 powi e \<le> x" "x < 2 powi (e + 1)"
  shows "f64_exponent x = e"
proof -
  have x: "0 < x" using assms(1) by (rule less_le_trans [rotated]) simp
  have "\<not> f64_exponent x + 1 \<le> e" "\<not> e + 1 \<le> f64_exponent x"
    using f64_exponent_bounds [OF x] assms power_int_increasing [of _ _ "2 :: rat"]
    by (metis not_le one_le_numeral order.strict_trans2)+
  then show ?thesis by linarith
qed

lemma f64_exponent_half: "0 < x \<Longrightarrow> f64_exponent (x / 2) = f64_exponent x - 1"
proof (rule f64_exponent_unique)
  assume x: "0 < x"
  have "(2 :: rat) powi f64_exponent x = 2 powi (f64_exponent x - 1) * 2"
    using power_int_add_1 [of "2 :: rat" "f64_exponent x - 1"] by simp
  moreover have "(2 :: rat) powi (f64_exponent x + 1) = 2 powi f64_exponent x * 2"
    by (simp add: power_int_add_1)
  ultimately show "2 powi (f64_exponent x - 1) \<le> x / 2" "x / 2 < 2 powi (f64_exponent x - 1 + 1)"
    using f64_exponent_bounds [OF x] by simp_all
qed

lemma f64_half: "f64 (x / 2) = f64 x / 2"
proof -
  have pos: "f64_pos (y / 2) = f64_pos y / 2" if "0 < y" for y
  proof -
    have "(2 :: rat) powi (f64_exponent y - 52) = 2 powi (f64_exponent y - 1 - 52) * 2"
      using power_int_add_1 [of "2 :: rat" "f64_exponent y - 1 - 52"] by simp
    then show ?thesis by (simp add: f64_pos_def Let_def f64_exponent_half that mult.commute)
  qed
  show ?thesis using pos [of x] pos [of "- x"] by (simp add: f64_def)
qed

lemma f64_scale: "f64 (x / 2 ^ k) = f64 x / 2 ^ k"
proof (induction k)
  case (Suc k)
  have "f64 (x / 2 ^ Suc k) = f64 (x / 2 ^ k / 2)" by (simp add: mult.commute)
  also have "\<dots> = f64 (x / 2 ^ k) / 2" by (rule f64_half)
  finally show ?case by (simp add: Suc mult.commute)
qed simp

lemma f64_mono:
  assumes "x \<le> y"
  shows "f64 x \<le> f64 y"
proof -
  have nonneg: "0 \<le> f64_pos z" if "0 < z" for z
    using f64_pos_bounds(1) [OF that] zero_le_power_int [of "2 :: rat" "f64_exponent z"] by linarith
  consider "0 < x" | "y < 0" | "x \<le> 0" "0 \<le> y" by linarith
  then show ?thesis
  proof cases
    case 1
    with assms show ?thesis by (simp add: f64_def f64_pos_mono)
  next
    case 2
    with assms show ?thesis by (simp add: f64_def f64_pos_mono)
  next
    case 3
    then have "f64 x \<le> 0" using nonneg [of "- x"] by (auto simp: f64_def)
    also have "0 \<le> f64 y" using 3 nonneg [of y] by (auto simp: f64_def)
    finally show ?thesis .
  qed
qed

lemma f64_exact: "\<bar>n\<bar> \<le> 2 ^ 53 \<Longrightarrow> f64 (of_int n) = of_int n"
  using f64_pos_exact [of n] f64_pos_exact [of "- n"] by (auto simp: f64_def)

interpretation f64: rounding f64
  by unfold_locales (auto intro: f64_mono f64_exact)

lemma f64_of_int_exact: "\<bar>n\<bar> \<le> 2 ^ 53 \<Longrightarrow> f64_of_int n = of_int n"
  by (simp add: f64_of_int_def f64.rnd_exact)

lemma f64_of_int_i32: "in_i32 n \<Longrightarrow> f64_of_int n = of_int n"
  by (rule f64_of_int_exact) (auto simp: in_i32_def)

lemma f64_of_int_mono: "m \<le> n \<Longrightarrow> f64_of_int m \<le> f64_of_int n"
  by (simp add: f64_of_int_def f64.rnd_int_order)

section \<open>Truncating casts\<close>

lemma in_i32_f64_to_i32 [simp]: "in_i32 (f64_to_i32 x)"
  by (auto simp: f64_to_i32_def in_i32_def)

lemma f64_trunc_of_int [simp]: "f64_trunc (of_int n) = n"
  by (simp add: f64_trunc_def)

lemma f64_trunc_mono:
  assumes "x \<le> y"
  shows "f64_trunc x \<le> f64_trunc y"
proof (cases "x < 0 \<and> 0 \<le> y")
  case True
  then have "\<lceil>x\<rceil> \<le> 0" and "0 \<le> \<lfloor>y\<rfloor>" by (simp_all add: ceiling_le_iff)
  moreover from True have "f64_trunc x = \<lceil>x\<rceil>" and "f64_trunc y = \<lfloor>y\<rfloor>"
    by (simp_all add: f64_trunc_def)
  ultimately show ?thesis by linarith
next
  case False
  with assms show ?thesis by (auto simp: f64_trunc_def floor_mono ceiling_mono)
qed

lemma f64_to_i32_mono: "x \<le> y \<Longrightarrow> f64_to_i32 x \<le> f64_to_i32 y"
  using f64_trunc_mono [of x y] by (auto simp: f64_to_i32_def)

lemma f64_to_i32_int: "in_i32 n \<Longrightarrow> f64_to_i32 (of_int n) = n"
  by (auto simp: f64_to_i32_def in_i32_def)

lemma f64_to_i32_le: "of_int k \<le> x \<Longrightarrow> in_i32 k \<Longrightarrow> k \<le> f64_to_i32 x"
  using f64_to_i32_mono [of "of_int k" x] by (simp add: f64_to_i32_int)

end
