(* ===== verification/CString.thy ===== *)
theory CString
  imports Prelude "HOL-Library.Sublist"
begin

text \<open>
  The C string functions the program calls, on strings without their terminating NUL:
  \<^verbatim>\<open>strchr\<close>, \<^verbatim>\<open>strstr\<close>, \<^verbatim>\<open>strtol\<close> and \<^verbatim>\<open>strtoul\<close> (glibc, 64-bit \<^verbatim>\<open>long\<close>), decimal
  printing, and the UTF-8 test of Rust's \<^verbatim>\<open>to_str\<close>.
\<close>

section \<open>Strings in buffers\<close>

abbreviation (input) NUL :: char where "NUL \<equiv> CHR 0x00"

text \<open>A buffer read as a C string ends at its first NUL byte.\<close>

definition c_text :: "string \<Rightarrow> string" where
  "c_text buf = takeWhile (\<lambda>c. c \<noteq> NUL) buf"

lemma c_text_append: "NUL \<notin> set x \<Longrightarrow> c_text (x @ NUL # r) = x"
  by (induction x) (auto simp: c_text_def)

section \<open>Searching\<close>

fun strchr :: "string \<Rightarrow> char \<Rightarrow> string option" where
  "strchr [] c = None"
| "strchr (x # xs) c = (if x = c then Some (x # xs) else strchr xs c)"

fun strstr :: "string \<Rightarrow> string \<Rightarrow> bool" where
  "strstr [] n = (n = [])"
| "strstr (x # xs) n = (prefix n (x # xs) \<or> strstr xs n)"

lemma strstr_iff: "strstr h n \<longleftrightarrow> (\<exists>a b. h = a @ n @ b)"
proof (induction h)
  case Nil
  then show ?case by auto
next
  case (Cons x h)
  have "(\<exists>a b. x # h = a @ n @ b) \<longleftrightarrow> prefix n (x # h) \<or> (\<exists>a b. h = a @ n @ b)"
    by (auto simp: prefix_def Cons_eq_append_conv)
  with Cons show ?case by simp
qed

lemma strstr_infix: "strstr (a @ n @ b) n"
  by (auto simp: strstr_iff)

lemma strstr_append1: "strstr h n \<Longrightarrow> strstr (a @ h @ b) n"
  unfolding strstr_iff by (metis append.assoc)

lemma strchr_None: "strchr s c = None \<longleftrightarrow> c \<notin> set s"
  by (induction s) auto

lemma strchr_Some: "strchr s c = Some r \<Longrightarrow> \<exists>p. s = p @ r \<and> c \<notin> set p \<and> r \<noteq> [] \<and> hd r = c"
proof (induction s)
  case Nil
  then show ?case by simp
next
  case (Cons x s)
  show ?case
  proof (cases "x = c")
    case True
    with Cons.prems show ?thesis by (intro exI [of _ "[]"]) auto
  next
    case False
    with Cons obtain p where "s = p @ r \<and> c \<notin> set p \<and> r \<noteq> [] \<and> hd r = c" by auto
    with False show ?thesis by (intro exI [of _ "x # p"]) auto
  qed
qed

section \<open>Decimal printing\<close>

definition digit_char :: "nat \<Rightarrow> char" where
  "digit_char d = char_of (48 + d)"

fun show_nat :: "nat \<Rightarrow> string" where
  "show_nat n = (if n < 10 then [digit_char n] else show_nat (n div 10) @ [digit_char (n mod 10)])"

declare show_nat.simps [simp del]

definition show_int :: "int \<Rightarrow> string" where
  "show_int i = (if i < 0 then CHR ''-'' # show_nat (nat (- i)) else show_nat (nat i))"

section \<open>Number parsing\<close>

definition c_isspace :: "char \<Rightarrow> bool" where
  "c_isspace c \<longleftrightarrow> c = CHR '' '' \<or> (9 \<le> (of_char c :: nat) \<and> (of_char c :: nat) \<le> 13)"

definition digit_val :: "char \<Rightarrow> nat" where
  "digit_val c =
     (let n = of_char c in
      if 48 \<le> n \<and> n \<le> 57 then n - 48
      else if 97 \<le> n \<and> n \<le> 122 then n - 87
      else if 65 \<le> n \<and> n \<le> 90 then n - 55
      else 255)"

text \<open>The value and the rest after the longest run of digits of a base.\<close>

fun scan_digits :: "nat \<Rightarrow> nat \<Rightarrow> string \<Rightarrow> nat \<times> string" where
  "scan_digits base acc [] = (acc, [])"
| "scan_digits base acc (c # cs) =
     (if digit_val c < base then scan_digits base (acc * base + digit_val c) cs else (acc, c # cs))"

definition scan_base :: "nat \<Rightarrow> string \<Rightarrow> nat \<times> string" where
  "scan_base base s =
     (case s of
        z # x # r \<Rightarrow>
          if z = CHR ''0'' \<and> (base = 0 \<or> base = 16) \<and> (x = CHR ''x'' \<or> x = CHR ''X'') then (16, r)
          else if base = 0 then (if z = CHR ''0'' then 8 else 10, s)
          else (base, s)
      | [z] \<Rightarrow> if base = 0 then (if z = CHR ''0'' then 8 else 10, s) else (base, s)
      | [] \<Rightarrow> (if base = 0 then 10 else base, s))"

text \<open>
  One conversion: \<open>None\<close> when there is nothing to convert, otherwise the sign, the magnitude
  and the rest. A \<^verbatim>\<open>0x\<close> prefix with no hexadecimal digit behind it converts the \<^verbatim>\<open>0\<close> alone.
\<close>

definition strto_scan :: "nat \<Rightarrow> string \<Rightarrow> (bool \<times> nat \<times> string) option" where
  "strto_scan base s =
     (let s1 = dropWhile c_isspace s;
          neg = (case s1 of c # _ \<Rightarrow> c = CHR ''-'' | [] \<Rightarrow> False);
          s2 = (case s1 of c # r \<Rightarrow> if c = CHR ''-'' \<or> c = CHR ''+'' then r else s1 | [] \<Rightarrow> []);
          (b, s3) = scan_base base s2;
          (v, rest) = scan_digits b 0 s3
      in if rest = s3
         then (if s3 \<noteq> s2 then Some (neg, 0, drop 1 s2) else None)
         else Some (neg, v, rest))"

definition strtoul :: "nat \<Rightarrow> string \<Rightarrow> int \<times> string" where
  "strtoul base s =
     (case strto_scan base s of
        None \<Rightarrow> (0, s)
      | Some (neg, v, rest) \<Rightarrow>
          (if 2 ^ 64 \<le> v then 2 ^ 64 - 1 else if neg then u64 (- int v) else int v, rest))"

definition strtol :: "nat \<Rightarrow> string \<Rightarrow> int \<times> string" where
  "strtol base s =
     (case strto_scan base s of
        None \<Rightarrow> (0, s)
      | Some (neg, v, rest) \<Rightarrow>
          (if neg then max (- (2 ^ 63)) (- int v) else min (2 ^ 63 - 1) (int v), rest))"

section \<open>UTF-8\<close>

definition utf8_cont :: "char \<Rightarrow> bool" where
  "utf8_cont c \<longleftrightarrow> 128 \<le> (of_char c :: nat) \<and> (of_char c :: nat) \<le> 191"

definition byte_in :: "nat \<Rightarrow> nat \<Rightarrow> char \<Rightarrow> bool" where
  "byte_in lo hi c \<longleftrightarrow> lo \<le> (of_char c :: nat) \<and> (of_char c :: nat) \<le> hi"

text \<open>\<open>utf8_char\<close> strips one well-formed character off the front; the helpers check the bytes after
  a lead byte \<open>a\<close>.\<close>

fun utf8_2 :: "string \<Rightarrow> string option" where
  "utf8_2 (b # r) = (if utf8_cont b then Some r else None)"
| "utf8_2 _ = None"

fun utf8_3 :: "char \<Rightarrow> string \<Rightarrow> string option" where
  "utf8_3 a (b # c # r) =
     (if (if byte_in 224 224 a then byte_in 160 191 b
          else if byte_in 237 237 a then byte_in 128 159 b else utf8_cont b) \<and> utf8_cont c
      then Some r else None)"
| "utf8_3 _ _ = None"

fun utf8_4 :: "char \<Rightarrow> string \<Rightarrow> string option" where
  "utf8_4 a (b # c # d # r) =
     (if (if byte_in 240 240 a then byte_in 144 191 b
          else if byte_in 244 244 a then byte_in 128 143 b else utf8_cont b) \<and>
         utf8_cont c \<and> utf8_cont d
      then Some r else None)"
| "utf8_4 _ _ = None"

fun utf8_char :: "string \<Rightarrow> string option" where
  "utf8_char [] = None"
| "utf8_char (a # r) =
     (if byte_in 0 127 a then Some r
      else if byte_in 194 223 a then utf8_2 r
      else if byte_in 224 239 a then utf8_3 a r
      else if byte_in 240 244 a then utf8_4 a r
      else None)"

lemma utf8_2_tail: "utf8_2 x = Some r \<Longrightarrow> length r < length x \<and> utf8_2 (x @ y) = Some (r @ y)"
  by (induction x rule: utf8_2.induct) (simp_all split: if_splits)

lemma utf8_3_tail: "utf8_3 a x = Some r \<Longrightarrow> length r < length x \<and> utf8_3 a (x @ y) = Some (r @ y)"
  by (induction a x rule: utf8_3.induct) (simp_all split: if_splits)

lemma utf8_4_tail: "utf8_4 a x = Some r \<Longrightarrow> length r < length x \<and> utf8_4 a (x @ y) = Some (r @ y)"
  by (induction a x rule: utf8_4.induct) (simp_all split: if_splits)

lemmas utf8_tail = utf8_2_tail utf8_3_tail utf8_4_tail

lemma utf8_char_tail: "utf8_char x = Some r \<Longrightarrow> length r < length x \<and> utf8_char (x @ y) = Some (r @ y)"
  by (cases x) (auto split: if_splits dest: utf8_tail [where y = y])

lemmas utf8_char_length = utf8_char_tail [THEN conjunct1]
lemmas utf8_char_append = utf8_char_tail [THEN conjunct2]

function utf8_valid :: "string \<Rightarrow> bool" where
  "utf8_valid x \<longleftrightarrow> x = [] \<or> (case utf8_char x of None \<Rightarrow> False | Some r \<Rightarrow> utf8_valid r)"
  by pat_completeness auto
termination by (relation "measure length") (auto dest!: utf8_char_length)

declare utf8_valid.simps [simp del]

section \<open>Round trips\<close>

lemma of_char_digit [simp]: "d < 10 \<Longrightarrow> (of_char (digit_char d) :: nat) = 48 + d"
  by (simp add: digit_char_def)

lemma digit_val_digit [simp]: "d < 10 \<Longrightarrow> digit_val (digit_char d) = d"
  by (simp add: digit_val_def)

lemma c_isspace_digit [simp]: "d < 10 \<Longrightarrow> \<not> c_isspace (digit_char d)"
  by (auto simp: c_isspace_def dest: arg_cong [of _ _ "of_char :: char \<Rightarrow> nat"])

lemma digit_char_neq:
  assumes "d < 10"
  shows "digit_char d \<noteq> CHR ''-''" "digit_char d \<noteq> CHR ''+''"
    "digit_char d \<noteq> CHR ''x''" "digit_char d \<noteq> CHR ''X''"
  using assms by (auto dest: arg_cong [of _ _ "of_char :: char \<Rightarrow> nat"])

lemma scan_digits_append:
  "(\<forall>c \<in> set xs. digit_val c < base) \<Longrightarrow>
   scan_digits base acc (xs @ ys) = scan_digits base (fst (scan_digits base acc xs)) ys"
  by (induction xs arbitrary: acc) auto

lemma show_nat_digits: "c \<in> set (show_nat n) \<Longrightarrow> \<exists>d < 10. c = digit_char d"
proof (induction n rule: show_nat.induct)
  case (1 n)
  show ?case
  proof (cases "n < 10")
    case True
    with "1.prems" show ?thesis by (subst (asm) show_nat.simps) auto
  next
    case False
    with "1.prems" have "c \<in> set (show_nat (n div 10)) \<or> c = digit_char (n mod 10)"
      by (subst (asm) show_nat.simps) auto
    moreover have "n mod 10 < 10" by simp
    ultimately show ?thesis using "1.IH" [OF False] by blast
  qed
qed

lemma show_nat_not_Nil [simp]: "show_nat n \<noteq> []"
  by (subst show_nat.simps) simp

lemma scan_digits_show_nat: "scan_digits 10 0 (show_nat n) = (n, [])"
proof (induction n rule: show_nat.induct)
  case (1 n)
  show ?case
  proof (cases "n < 10")
    case True
    then show ?thesis by (subst show_nat.simps) simp
  next
    case False
    have "\<forall>c \<in> set (show_nat (n div 10)). digit_val c < 10"
      using show_nat_digits by fastforce
    with False "1.IH" show ?thesis
      by (subst show_nat.simps) (simp add: scan_digits_append)
  qed
qed

lemma show_nat_hd: "0 < n \<Longrightarrow> \<exists>d r. show_nat n = digit_char d # r \<and> 0 < d \<and> d < 10"
proof (induction n rule: show_nat.induct)
  case (1 n)
  show ?case
  proof (cases "n < 10")
    case True
    with "1.prems" show ?thesis by (subst show_nat.simps) auto
  next
    case False
    then have "0 < n div 10" by (simp add: div_greater_zero_iff)
    with "1.IH" False obtain d r where "show_nat (n div 10) = digit_char d # r \<and> 0 < d \<and> d < 10"
      by blast
    with False show ?thesis by (subst show_nat.simps) auto
  qed
qed

lemma digit_chars:
  "digit_char 0 = CHR ''0''" "digit_char (Suc 0) = CHR ''1''" "digit_char 2 = CHR ''2''"
  "digit_char 3 = CHR ''3''" "digit_char 4 = CHR ''4''" "digit_char 5 = CHR ''5''"
  "digit_char 6 = CHR ''6''" "digit_char 7 = CHR ''7''" "digit_char 8 = CHR ''8''"
  "digit_char 9 = CHR ''9''"
  by (simp_all add: digit_char_def char_of_eq_iff)

lemma digit_char_zero: "digit_char 0 = CHR ''0''"
  by code_simp

lemma digit_char_inj: "d < 10 \<Longrightarrow> e < 10 \<Longrightarrow> digit_char d = digit_char e \<longleftrightarrow> d = e"
  by (metis digit_val_digit)

lemma strto_scan_show_nat: "strto_scan 0 (show_nat n) = Some (False, n, [])"
proof (cases "n = 0")
  case True
  then show ?thesis by (simp add: show_nat.simps digit_char_zero) code_simp
next
  case False
  then obtain d r where s: "show_nat n = digit_char d # r" and d: "0 < d" "d < 10"
    using show_nat_hd by blast
  have z: "digit_char d \<noteq> CHR ''0''"
    using d digit_char_inj [of d 0] by (simp add: digit_char_zero)
  have "scan_base 0 (show_nat n) = (10, show_nat n)"
    using z by (cases r) (simp_all add: scan_base_def s)
  then show ?thesis
    using scan_digits_show_nat [of n] d
    by (simp add: strto_scan_def s digit_char_neq Let_def)
qed

lemma strtoul_show_nat: "n < 2 ^ 64 \<Longrightarrow> strtoul 0 (show_nat n) = (int n, [])"
  by (simp add: strtoul_def strto_scan_show_nat)

lemma strtol_show_nat: "n < 2 ^ 63 \<Longrightarrow> strtol 0 (show_nat n) = (int n, [])"
  by (simp add: strtol_def strto_scan_show_nat)

lemma strto_scan_show_nat10: "strto_scan 10 (show_nat n) = Some (False, n, [])"
proof -
  obtain d r where s: "show_nat n = digit_char d # r" and d: "d < 10"
    using show_nat_digits [of _ n] by (cases "show_nat n") auto
  have "scan_base 10 (show_nat n) = (10, show_nat n)"
    by (cases r) (simp_all add: scan_base_def s)
  then show ?thesis
    using scan_digits_show_nat [of n] d
    by (simp add: strto_scan_def s digit_char_neq Let_def)
qed

lemma strtol_show_nat10: "n < 2 ^ 63 \<Longrightarrow> strtol 10 (show_nat n) = (int n, [])"
  by (simp add: strtol_def strto_scan_show_nat10)

lemma strtoul_range: "0 \<le> fst (strtoul b s) \<and> fst (strtoul b s) < 2 ^ 64"
  by (auto simp: strtoul_def u64_def split: option.split)

lemma strtol_range: "- (2 ^ 63) \<le> fst (strtol b s) \<and> fst (strtol b s) < 2 ^ 63"
  by (auto simp: strtol_def split: option.split)

section \<open>Characters of numbers and of valid strings\<close>

lemma show_nat_length: "n < 10 ^ k \<Longrightarrow> 0 < k \<Longrightarrow> length (show_nat n) \<le> k"
proof (induction n arbitrary: k rule: show_nat.induct)
  case (1 n)
  show ?case
  proof (cases "n < 10")
    case True
    with "1.prems" show ?thesis by (subst show_nat.simps) simp
  next
    case False
    with "1.prems" obtain j where k: "k = Suc j" "0 < j" by (cases k; cases "k - 1") auto
    with "1.prems" have "n div 10 < 10 ^ j" by (simp add: less_mult_imp_div_less mult.commute)
    with "1.IH" [OF False, of j] k False show ?thesis by (subst show_nat.simps) simp
  qed
qed

lemma show_nat_snoc: "0 < n div 10 \<Longrightarrow> show_nat n = show_nat (n div 10) @ [digit_char (n mod 10)]"
  by (subst show_nat.simps) (auto simp: div_greater_zero_iff)

lemma show_nat_one: "n < 10 \<Longrightarrow> show_nat n = [digit_char n]"
  by (subst show_nat.simps) simp

lemma show_int_ascii:
  assumes "c \<in> set (show_int i)"
  shows "45 \<le> (of_char c :: nat)" "(of_char c :: nat) < 128"
proof -
  have "c = CHR ''-'' \<or> (\<exists>d < 10. c = digit_char d)"
    using assms show_nat_digits by (auto simp: show_int_def split: if_splits)
  then show "45 \<le> (of_char c :: nat)" "(of_char c :: nat) < 128" by auto
qed

lemma utf8_Nil [simp]: "utf8_valid []"
  by (simp add: utf8_valid.simps)

lemma utf8_Cons_ascii: "(of_char c :: nat) < 128 \<Longrightarrow> utf8_valid (c # x) = utf8_valid x"
  by (subst utf8_valid.simps) (simp add: byte_in_def)

lemma utf8_ascii: "(\<And>c. c \<in> set x \<Longrightarrow> (of_char c :: nat) < 128) \<Longrightarrow> utf8_valid x"
  by (induction x) (simp_all add: utf8_Cons_ascii)

lemma utf8_append: "utf8_valid x \<Longrightarrow> utf8_valid y \<Longrightarrow> utf8_valid (x @ y)"
proof (induction x rule: utf8_valid.induct)
  case (1 x)
  show ?case
  proof (cases "x = []")
    case False
    with 1(2) obtain r where r: "utf8_char x = Some r" "utf8_valid r"
      by (subst (asm) utf8_valid.simps) (auto split: option.splits)
    with 1 False utf8_char_append [OF r(1), of y] show ?thesis
      by (subst utf8_valid.simps) simp
  qed (use 1 in simp)
qed

end
