(* ===== verification/Globals.thy ===== *)
theory Globals
  imports F64 CString
begin

text \<open>
  The process-wide state of \<^verbatim>\<open>src/globals.rs\<close> as the record \<open>globals\<close>, extended by \<open>proc\<close>
  with what the kernel keeps for the process (signal dispositions and mask), the trace of the
  system calls made, and one counter per kind of system call whose result the kernel chooses.

  Those results are the record \<open>os\<close>, a parameter of every definition: the \<open>k\<close>-th \<^verbatim>\<open>waitpid\<close>
  of a run returns \<open>os_waitpid os k\<close>, and so on, in the way the queues of
  \<^verbatim>\<open>tests/mocks/mocks.c\<close> script them. A statement for all \<open>os\<close> is a statement for every
  behaviour of the kernel, of the ssh child and of the clock.

  Null pointers are \<open>None\<close>, C strings are \<open>Some\<close> of their bytes. Logging
  (\<^verbatim>\<open>src/log.rs\<close>) is here too because every component logs.
\<close>

unbundle bit_operations_syntax

section \<open>Constants\<close>

abbreviation (input) L_FILELOG :: int where "L_FILELOG \<equiv> 1"
abbreviation (input) L_SYSLOG :: int where "L_SYSLOG \<equiv> 2"

abbreviation (input) LOG_EMERG :: int where "LOG_EMERG \<equiv> 0"
abbreviation (input) LOG_ERR :: int where "LOG_ERR \<equiv> 3"
abbreviation (input) LOG_WARNING :: int where "LOG_WARNING \<equiv> 4"
abbreviation (input) LOG_INFO :: int where "LOG_INFO \<equiv> 6"
abbreviation (input) LOG_DEBUG :: int where "LOG_DEBUG \<equiv> 7"
abbreviation (input) LOG_PERROR :: int where "LOG_PERROR \<equiv> 32"

abbreviation (input) P_CONTINUE :: int where "P_CONTINUE \<equiv> 0"
abbreviation (input) P_RESTART :: int where "P_RESTART \<equiv> 1"
abbreviation (input) P_EXITOK :: int where "P_EXITOK \<equiv> 2"
abbreviation (input) P_EXITERR :: int where "P_EXITERR \<equiv> 3"

abbreviation (input) SIGHUP :: int where "SIGHUP \<equiv> 1"
abbreviation (input) SIGINT :: int where "SIGINT \<equiv> 2"
abbreviation (input) SIGQUIT :: int where "SIGQUIT \<equiv> 3"
abbreviation (input) SIGABRT :: int where "SIGABRT \<equiv> 6"
abbreviation (input) SIGKILL :: int where "SIGKILL \<equiv> 9"
abbreviation (input) SIGUSR1 :: int where "SIGUSR1 \<equiv> 10"
abbreviation (input) SIGUSR2 :: int where "SIGUSR2 \<equiv> 12"
abbreviation (input) SIGPIPE :: int where "SIGPIPE \<equiv> 13"
abbreviation (input) SIGALRM :: int where "SIGALRM \<equiv> 14"
abbreviation (input) SIGTERM :: int where "SIGTERM \<equiv> 15"
abbreviation (input) SIGCHLD :: int where "SIGCHLD \<equiv> 17"

abbreviation (input) EINTR :: int where "EINTR \<equiv> 4"
abbreviation (input) ECHILD :: int where "ECHILD \<equiv> 10"
abbreviation (input) EAGAIN :: int where "EAGAIN \<equiv> 11"

abbreviation (input) WNOHANG :: int where "WNOHANG \<equiv> 1"

abbreviation (input) POLLIN :: int where "POLLIN \<equiv> 1"
abbreviation (input) POLLOUT :: int where "POLLOUT \<equiv> 4"
abbreviation (input) POLLERR :: int where "POLLERR \<equiv> 8"
abbreviation (input) POLLHUP :: int where "POLLHUP \<equiv> 16"

definition POLL_TIME_DEFAULT :: int where "POLL_TIME_DEFAULT = 600"
definition GATE_TIME_DEFAULT :: rat where "GATE_TIME_DEFAULT = 30"
definition MAX_START_DEFAULT :: int where "MAX_START_DEFAULT = -1"
definition MAX_LIFETIME_DEFAULT :: rat where "MAX_LIFETIME_DEFAULT = 0"
definition MAX_SESSION_DEFAULT :: rat where "MAX_SESSION_DEFAULT = 0"
definition TIMEO_NET_DEFAULT :: int where "TIMEO_NET_DEFAULT = 15000"

text \<open>The test \<^verbatim>\<open>(x & flag) != 0\<close> of the source.\<close>

definition has_flag :: "int \<Rightarrow> int \<Rightarrow> bool" where
  "has_flag x f \<longleftrightarrow> x AND f \<noteq> 0"

section \<open>State\<close>

type_synonym cstr = "string option"

record globals =
  logtype :: int
  loglevel :: int
  syslog_perror :: int
  flog :: cstr
  writep :: cstr
  readp :: string
  echop :: cstr
  mhost :: string
  env_port :: cstr
  echo_message :: string
  pid_file_name :: cstr
  pid_file_created :: int
  pid_start_time :: int
  poll_time :: int
  first_poll_time :: int
  gate_time :: rat
  max_start :: int
  max_lifetime :: rat
  max_session :: rat
  net_timeout :: int
  ssh_path :: string
  start_count :: int
  start_time :: int
  cchild :: int
  ssh_stderr_fd :: int
  pipe_lost_time :: int
  last_stderr_time :: int
  port_fwd_failed :: int
  exit_signalled :: int
  restart_ssh :: int
  dolongjmp :: int
  TRIES :: int
  SECS_LEFT :: int

text \<open>The disposition of a signal: \<open>SIG_CATCH mask restart\<close> is \<^verbatim>\<open>sig_catch\<close> with its mask and
  the \<^verbatim>\<open>SA_RESTART\<close> flag.\<close>

datatype disposition = SIG_DFL | SIG_IGN | SIG_CATCH "int list" bool

datatype sink = SinkStderr | SinkFile string

datatype effect =
    Syslog int string
  | LogLine sink string
  | WriteStderr string
  | Kill int int
  | Waitpid int int
  | Close int
  | Sleep int
  | Alarm int
  | Unlink string
  | Fork int
  | Dup2 int int
  | Execvp
  | Pause
  | Socket int
  | Shutdown int
  | NetPoll int
  | NetWrite int string
  | NetRead int string
  | Stdout string
  | Openlog int
  | Closelog
  | Daemon
  | WriteFile string string

record proc = globals +
  disp :: "int \<Rightarrow> disposition"
  sigmask :: "int list"
  trace :: "effect list"
  n_ts :: nat
  n_time :: nat
  n_waitpid :: nat
  n_read :: nat
  n_alarm :: nat
  n_async :: nat
  n_wait :: nat
  n_pipe :: nat
  n_fork :: nat
  n_net :: nat
  conn_res :: bool
  so_path :: cstr
  ld_preload :: cstr

section \<open>The kernel\<close>

text \<open>
  \<open>wake\<close> is how the wait of \<^verbatim>\<open>ssh_watch\<close> ends: a signal is delivered, or \<^verbatim>\<open>ppoll\<close> returns
  with the given \<^verbatim>\<open>revents\<close>. \<open>os_drain os k\<close> lists the chunks that the reads of the \<open>k\<close>-th
  drain of the child's stderr return before one of them returns no data (end of file, EAGAIN
  or an error); a drain that never ends is not modelled. Network calls share one counter, and a
  failing call carries its errno; \<open>os_errno\<close> is errno where the code reads it although the last
  call need not have failed.
\<close>

datatype wake = WakeSig int | WakePoll int
datatype io_write = Wrote nat | WriteFail int
datatype io_read = Got string | ReadFail int

text \<open>The broken-down time of \<^verbatim>\<open>localtime\<close>, with C's origins: years from 1900, months from 0.\<close>

record tm =
  tm_year :: int
  tm_mon :: int
  tm_mday :: int
  tm_hour :: int
  tm_min :: int
  tm_sec :: int

record os =
  os_time :: "nat \<Rightarrow> int"
  os_logtime :: "nat \<Rightarrow> int"
  os_localtime :: "int \<Rightarrow> tm option"
  os_pid :: int
  os_progname :: cstr
  os_strerror :: "int \<Rightarrow> string"
  os_waitpid :: "nat \<Rightarrow> int \<times> int \<times> int"
  os_drain :: "nat \<Rightarrow> string list"
  os_alarm :: "nat \<Rightarrow> int"
  os_async :: "nat \<Rightarrow> int list"
  os_wait :: "nat \<Rightarrow> wake"
  os_pipe :: "nat \<Rightarrow> int + int \<times> int"
  os_fork :: "nat \<Rightarrow> int + int"
  os_gai :: "nat \<Rightarrow> int"
  os_gai_strerror :: "int \<Rightarrow> string"
  os_socket :: "nat \<Rightarrow> int \<times> int"
  os_setsockopt :: "nat \<Rightarrow> int \<times> int"
  os_bind :: "nat \<Rightarrow> int \<times> int"
  os_listen :: "nat \<Rightarrow> int \<times> int"
  os_connect :: "nat \<Rightarrow> int \<times> int"
  os_poll :: "nat \<Rightarrow> int \<times> int list \<times> int"
  os_accept :: "nat \<Rightarrow> int \<times> int"
  os_write :: "nat \<Rightarrow> io_write"
  os_recv :: "nat \<Rightarrow> io_read"
  os_errno :: "nat \<Rightarrow> int"
  os_random :: "nat \<Rightarrow> int"
  os_nodename :: string
  os_lossy :: "string \<Rightarrow> string"
  os_so_open :: int
  os_so_len :: nat
  os_so_write :: "nat \<Rightarrow> int"
  os_dfl_term :: "int \<Rightarrow> bool"

definition emit :: "effect \<Rightarrow> proc \<Rightarrow> proc" where
  "emit e s = s\<lparr>trace := trace s @ [e]\<rparr>"

text \<open>\<^verbatim>\<open>libc::time\<close>: the value and the state after the call.\<close>

definition now :: "os \<Rightarrow> proc \<Rightarrow> int" where
  "now os s = os_time os (n_time s)"

definition tick :: "proc \<Rightarrow> proc" where
  "tick s = s\<lparr>n_time := Suc (n_time s)\<rparr>"

section \<open>Initial values\<close>

definition initial_globals :: globals where
  "initial_globals =
     \<lparr>logtype = L_SYSLOG, loglevel = LOG_INFO, syslog_perror = 0, flog = None,
      writep = None, readp = [], echop = None, mhost = ''127.0.0.1'', env_port = None,
      echo_message = [], pid_file_name = None, pid_file_created = 0, pid_start_time = 0,
      poll_time = POLL_TIME_DEFAULT, first_poll_time = POLL_TIME_DEFAULT,
      gate_time = GATE_TIME_DEFAULT, max_start = MAX_START_DEFAULT,
      max_lifetime = MAX_LIFETIME_DEFAULT, max_session = MAX_SESSION_DEFAULT,
      net_timeout = TIMEO_NET_DEFAULT, ssh_path = ''/usr/bin/ssh'',
      start_count = 0, start_time = 0, cchild = 0, ssh_stderr_fd = -1,
      pipe_lost_time = 0, last_stderr_time = 0, port_fwd_failed = 0, exit_signalled = 0,
      restart_ssh = 0, dolongjmp = 0, TRIES = 0, SECS_LEFT = 0\<rparr>"

definition initial_proc :: proc where
  "initial_proc = globals.extend initial_globals
     \<lparr>disp = (\<lambda>_. SIG_DFL), sigmask = [], trace = [], n_ts = 0, n_time = 0, n_waitpid = 0,
      n_read = 0, n_alarm = 0, n_async = 0, n_wait = 0, n_pipe = 0, n_fork = 0, n_net = 0, conn_res = False,
      so_path = None, ld_preload = None\<rparr>"

text \<open>
  A kernel in which nothing happens: the clock stands at 1000, no child ever exits, nothing is
  readable, no signal arrives. The examples of the development are variations of it.
\<close>

definition idle_os :: os where
  "idle_os =
     \<lparr>os_time = (\<lambda>_. 1000), os_logtime = (\<lambda>_. 1000), os_localtime = (\<lambda>_. None), os_pid = 7,
      os_progname = None, os_strerror = (\<lambda>_. ''error''), os_waitpid = (\<lambda>_. (0, 0, 0)),
      os_drain = (\<lambda>_. []), os_alarm = (\<lambda>_. 0), os_async = (\<lambda>_. []),
      os_wait = (\<lambda>_. WakePoll 0), os_pipe = (\<lambda>_. Inr (5, 6)), os_fork = (\<lambda>_. Inr 42),
      os_gai = (\<lambda>_. 0), os_gai_strerror = (\<lambda>_. ''lookup failed''), os_socket = (\<lambda>_. (8, 0)),
      os_setsockopt = (\<lambda>_. (0, 0)), os_bind = (\<lambda>_. (0, 0)), os_listen = (\<lambda>_. (0, 0)),
      os_connect = (\<lambda>_. (0, 0)), os_poll = (\<lambda>_. (0, [], 0)), os_accept = (\<lambda>_. (9, 0)),
      os_write = (\<lambda>_. WriteFail EAGAIN), os_recv = (\<lambda>_. ReadFail EAGAIN),
      os_errno = (\<lambda>_. 0), os_random = (\<lambda>_. 12345), os_nodename = ''host'', os_lossy = (\<lambda>x. x),
      os_so_open = 11, os_so_len = 4096, os_so_write = (\<lambda>_. 4096), os_dfl_term = (\<lambda>g. g \<noteq> SIGCHLD)\<rparr>"

section \<open>Logging\<close>

text \<open>
  \<^verbatim>\<open>strftime\<close> with the one format the program uses: \<open>None\<close> when the text and its terminator do not
  fit. \<open>os_logtime os k\<close> is the clock as the \<open>k\<close>-th time stamp reads it; without a local time the stamp
  is empty. When the text does not fit C leaves the buffer undefined; the lemmas below show that this
  never happens.
\<close>

definition two_digits :: "int \<Rightarrow> string" where
  "two_digits n = (if 0 \<le> n \<and> n < 10 then CHR ''0'' # show_int n else show_int n)"

definition strftime :: "nat \<Rightarrow> tm \<Rightarrow> string option" where
  "strftime len t =
     (let x = show_int (tm_year t + 1900) @ ''/'' @ two_digits (tm_mon t + 1) @ ''/'' @ two_digits (tm_mday t)
            @ '' '' @ two_digits (tm_hour t) @ '':'' @ two_digits (tm_min t) @ '':'' @ two_digits (tm_sec t)
      in if length x < len then Some x else None)"

definition TIMESTR_BUF :: nat where "TIMESTR_BUF = 32"

definition timestr :: "os \<Rightarrow> nat \<Rightarrow> string" where
  "timestr os k =
     (case os_localtime os (os_logtime os k) of
        None \<Rightarrow> []
      | Some t \<Rightarrow> (case strftime TIMESTR_BUF t of None \<Rightarrow> [] | Some x \<Rightarrow> x))"

definition cstr_or :: "cstr \<Rightarrow> string \<Rightarrow> string" where
  "cstr_or p fallback =
     (case p of None \<Rightarrow> fallback | Some s \<Rightarrow> if utf8_valid s then s else ''<non-utf8>'')"

definition log_sink :: "proc \<Rightarrow> sink option" where
  "log_sink s =
     (if \<not> has_flag (logtype s) L_FILELOG then None
      else case flog s of
        Some f \<Rightarrow> Some (SinkFile f)
      | None \<Rightarrow> if has_flag (logtype s) L_SYSLOG then None else Some SinkStderr)"

definition log_line :: "os \<Rightarrow> nat \<Rightarrow> string \<Rightarrow> string" where
  "log_line os k m =
     timestr os k @ '' '' @ (case os_progname os of None \<Rightarrow> ''autossh'' | Some p \<Rightarrow> p)
     @ ''['' @ show_int (os_pid os) @ '']: '' @ m @ ''\<newline>''"

definition log_effects :: "os \<Rightarrow> proc \<Rightarrow> int \<Rightarrow> string \<Rightarrow> effect list" where
  "log_effects os s level m =
     (if level > loglevel s then []
      else (if has_flag (logtype s) L_SYSLOG then [Syslog level m] else [])
         @ (case log_sink s of None \<Rightarrow> [] | Some k \<Rightarrow> [LogLine k (log_line os (n_ts s) m)]))"

definition log_ticks :: "proc \<Rightarrow> int \<Rightarrow> nat" where
  "log_ticks s level = (if level > loglevel s \<or> log_sink s = None then 0 else 1)"

definition errlog_str :: "os \<Rightarrow> int \<Rightarrow> string \<Rightarrow> proc \<Rightarrow> proc" where
  "errlog_str os level m s =
     s\<lparr>trace := trace s @ log_effects os s level m, n_ts := n_ts s + log_ticks s level\<rparr>"

text \<open>\<^verbatim>\<open>_log_with\<close>, the body of the \<^verbatim>\<open>errlog!\<close> macro: a message with an interior NUL is dropped.\<close>

definition errlog :: "os \<Rightarrow> int \<Rightarrow> string \<Rightarrow> proc \<Rightarrow> proc" where
  "errlog os level m s = (if char_of (0 :: nat) \<in> set m then s else errlog_str os level m s)"

section \<open>Time stamps\<close>

text \<open>What \<^verbatim>\<open>localtime\<close> promises: calendar fields in their ranges (60 is a leap second).\<close>

definition calendar :: "tm \<Rightarrow> bool" where
  "calendar t \<longleftrightarrow> in_i32 (tm_year t) \<and> 0 \<le> tm_mon t \<and> tm_mon t \<le> 11 \<and> 1 \<le> tm_mday t \<and> tm_mday t \<le> 31 \<and>
     0 \<le> tm_hour t \<and> tm_hour t \<le> 23 \<and> 0 \<le> tm_min t \<and> tm_min t \<le> 59 \<and> 0 \<le> tm_sec t \<and> tm_sec t \<le> 60"

lemma show_nat_two: "10 \<le> n \<Longrightarrow> n < 100 \<Longrightarrow> length (show_nat n) = 2"
  by (simp add: show_nat_snoc show_nat_one)

lemma two_digits_length: "0 \<le> n \<Longrightarrow> n < 100 \<Longrightarrow> length (two_digits n) = 2"
  by (auto simp: two_digits_def show_int_def show_nat_one show_nat_two)

lemma show_int_length: "\<bar>i\<bar> < 10 ^ k \<Longrightarrow> 0 < k \<Longrightarrow> length (show_int i) \<le> Suc k"
  using show_nat_length [of "nat \<bar>i\<bar>" k] by (auto simp: show_int_def nat_less_iff)

text \<open>Every calendar time fits the buffer.\<close>

lemma strftime_fits:
  assumes "calendar t"
  shows "\<exists>x. strftime TIMESTR_BUF t = Some x \<and> 16 \<le> length x \<and> length x \<le> 26"
proof -
  have "length (show_int (tm_year t + 1900)) \<le> 11"
    using assms show_int_length [of "tm_year t + 1900" 10] by (auto simp: calendar_def in_i32_def)
  moreover have "0 < length (show_int (tm_year t + 1900))" by (simp add: show_int_def)
  ultimately show ?thesis using assms
    by (simp add: strftime_def TIMESTR_BUF_def calendar_def two_digits_length Let_def Suc_le_eq)
qed

lemma timestr_length:
  assumes "\<And>x t. os_localtime os x = Some t \<Longrightarrow> calendar t"
  shows "length (timestr os k) \<le> 26 \<and> (timestr os k = [] \<longleftrightarrow> os_localtime os (os_logtime os k) = None)"
proof (cases "os_localtime os (os_logtime os k)")
  case (Some t)
  with strftime_fits [OF assms [OF Some]] show ?thesis by (force simp: timestr_def)
qed (simp add: timestr_def)

section \<open>Lemmas\<close>

lemma initial_proc_sel [simp]:
  "logtype initial_proc = L_SYSLOG" "loglevel initial_proc = LOG_INFO" "syslog_perror initial_proc = 0"
  "flog initial_proc = None" "writep initial_proc = None" "readp initial_proc = []"
  "echop initial_proc = None" "mhost initial_proc = ''127.0.0.1''" "env_port initial_proc = None"
  "echo_message initial_proc = []" "pid_file_name initial_proc = None"
  "pid_file_created initial_proc = 0" "pid_start_time initial_proc = 0"
  "poll_time initial_proc = POLL_TIME_DEFAULT" "first_poll_time initial_proc = POLL_TIME_DEFAULT"
  "gate_time initial_proc = GATE_TIME_DEFAULT" "max_start initial_proc = MAX_START_DEFAULT"
  "max_lifetime initial_proc = MAX_LIFETIME_DEFAULT" "max_session initial_proc = MAX_SESSION_DEFAULT"
  "net_timeout initial_proc = TIMEO_NET_DEFAULT" "ssh_path initial_proc = ''/usr/bin/ssh''"
  "start_count initial_proc = 0" "start_time initial_proc = 0" "cchild initial_proc = 0"
  "ssh_stderr_fd initial_proc = -1" "pipe_lost_time initial_proc = 0" "last_stderr_time initial_proc = 0"
  "port_fwd_failed initial_proc = 0" "exit_signalled initial_proc = 0" "restart_ssh initial_proc = 0"
  "dolongjmp initial_proc = 0" "TRIES initial_proc = 0" "SECS_LEFT initial_proc = 0"
  "disp initial_proc = (\<lambda>_. SIG_DFL)" "sigmask initial_proc = []" "trace initial_proc = []"
  "n_ts initial_proc = 0" "n_time initial_proc = 0" "n_waitpid initial_proc = 0"
  "n_read initial_proc = 0" "n_alarm initial_proc = 0" "n_async initial_proc = 0"
  "n_wait initial_proc = 0" "n_pipe initial_proc = 0" "n_fork initial_proc = 0" "n_net initial_proc = 0" "conn_res initial_proc = False"
  "so_path initial_proc = None" "ld_preload initial_proc = None"
  by (simp_all add: initial_proc_def initial_globals_def globals.defs)

lemma idle_os_sel [simp]:
  "os_time idle_os = (\<lambda>_. 1000)" "os_logtime idle_os = (\<lambda>_. 1000)" "os_localtime idle_os = (\<lambda>_. None)"
  "os_pid idle_os = 7" "os_progname idle_os = None" "os_strerror idle_os = (\<lambda>_. ''error'')"
  "os_waitpid idle_os = (\<lambda>_. (0, 0, 0))" "os_drain idle_os = (\<lambda>_. [])"
  "os_alarm idle_os = (\<lambda>_. 0)" "os_async idle_os = (\<lambda>_. [])"
  "os_wait idle_os = (\<lambda>_. WakePoll 0)" "os_pipe idle_os = (\<lambda>_. Inr (5, 6))"
  "os_fork idle_os = (\<lambda>_. Inr 42)" "os_gai idle_os = (\<lambda>_. 0)"
  "os_gai_strerror idle_os = (\<lambda>_. ''lookup failed'')" "os_socket idle_os = (\<lambda>_. (8, 0))"
  "os_setsockopt idle_os = (\<lambda>_. (0, 0))" "os_bind idle_os = (\<lambda>_. (0, 0))"
  "os_listen idle_os = (\<lambda>_. (0, 0))" "os_connect idle_os = (\<lambda>_. (0, 0))"
  "os_poll idle_os = (\<lambda>_. (0, [], 0))" "os_accept idle_os = (\<lambda>_. (9, 0))"
  "os_write idle_os = (\<lambda>_. WriteFail EAGAIN)" "os_recv idle_os = (\<lambda>_. ReadFail EAGAIN)"
  "os_errno idle_os = (\<lambda>_. 0)" "os_random idle_os = (\<lambda>_. 12345)" "os_nodename idle_os = ''host''"
  "os_lossy idle_os = (\<lambda>x. x)" "os_so_open idle_os = 11" "os_so_len idle_os = 4096"
  "os_so_write idle_os = (\<lambda>_. 4096)"
  "os_dfl_term idle_os = (\<lambda>g. g \<noteq> SIGCHLD)"
  by (simp_all add: idle_os_def)

lemma tick_upd: "tick s = s\<lparr>n_time := Suc (n_time s)\<rparr>"
  by (simp add: tick_def)

text \<open>
  A log call appends to the trace and advances the time-stamp counter, nothing else. The
  component proofs rewrite with this form.
\<close>

definition log_trace :: "os \<Rightarrow> int \<Rightarrow> string \<Rightarrow> proc \<Rightarrow> effect list" where
  "log_trace os level m s =
     trace s @ (if char_of (0 :: nat) \<in> set m then [] else log_effects os s level m)"

definition log_ts :: "int \<Rightarrow> string \<Rightarrow> proc \<Rightarrow> nat" where
  "log_ts level m s = n_ts s + (if char_of (0 :: nat) \<in> set m then 0 else log_ticks s level)"

lemma errlog_upd [prog_simps]:
  "errlog os level m s = s\<lparr>trace := log_trace os level m s, n_ts := log_ts level m s\<rparr>"
  by (simp add: errlog_def errlog_str_def log_trace_def log_ts_def)

declare emit_def [run] errlog_upd [run]

lemma emit_upd [prog_simps]: "emit e s = s\<lparr>trace := trace s @ [e]\<rparr>"
  by (simp add: emit_def)

text \<open>Log entries are never signals, sleeps or descriptor operations.\<close>

fun is_log :: "effect \<Rightarrow> bool" where
  "is_log (Syslog _ _) = True"
| "is_log (LogLine _ _) = True"
| "is_log _ = False"

text \<open>The actions of a trace: everything but the log entries.\<close>

definition actions :: "effect list \<Rightarrow> effect list" where
  "actions t = filter (\<lambda>e. \<not> is_log e) t"

lemma actions_simps [simp]:
  "actions [] = []"
  "actions (a @ b) = actions a @ actions b"
  "actions (e # t) = (if is_log e then actions t else e # actions t)"
  by (simp_all add: actions_def)

lemma actions_log_effects [simp]: "actions (log_effects os s level m) = []"
  by (simp add: actions_def log_effects_def split: option.split)

lemma actions_log_trace [simp]: "actions (log_trace os level m s) = actions (trace s)"
  by (simp add: log_trace_def)

text \<open>The signals sent and the seconds slept, read off a trace.\<close>

fun kills :: "effect list \<Rightarrow> (int \<times> int) list" where
  "kills [] = []"
| "kills (Kill p g # t) = (p, g) # kills t"
| "kills (_ # t) = kills t"

fun slept :: "effect list \<Rightarrow> int" where
  "slept [] = 0"
| "slept (Sleep n # t) = n + slept t"
| "slept (_ # t) = slept t"

lemma kills_append [simp]: "kills (a @ b) = kills a @ kills b"
  by (induction a rule: kills.induct) simp_all

lemma slept_append [simp]: "slept (a @ b) = slept a + slept b"
  by (induction a rule: slept.induct) simp_all

lemma kills_log_trace [simp]: "kills (log_trace os level m s) = kills (trace s)"
  by (simp add: log_trace_def log_effects_def split: option.split)

lemma slept_log_trace [simp]: "slept (log_trace os level m s) = slept (trace s)"
  by (simp add: log_trace_def log_effects_def split: option.split)

section \<open>Frames\<close>

text \<open>
  The settings that are fixed once the command line has been read, the bookkeeping of the
  restart loop, and the signal environment. Each is one tuple, so a component states that it
  leaves the settings alone as one equation.
\<close>

definition config ::
  "proc \<Rightarrow> (int \<times> int \<times> int \<times> cstr) \<times> (cstr \<times> string \<times> cstr \<times> string \<times> cstr \<times> string) \<times>
     (cstr \<times> int) \<times> (int \<times> int \<times> rat \<times> int \<times> rat \<times> rat \<times> int \<times> string)" where
  "config s =
     ((logtype s, loglevel s, syslog_perror s, flog s),
      (writep s, readp s, echop s, mhost s, env_port s, echo_message s),
      (pid_file_name s, pid_start_time s),
      (poll_time s, first_poll_time s, gate_time s, max_start s, max_lifetime s, max_session s,
       net_timeout s, ssh_path s))"

definition launch :: "proc \<Rightarrow> int \<times> int \<times> int \<times> int" where
  "launch s = (start_count s, start_time s, TRIES s, pid_file_created s)"

definition sigenv :: "proc \<Rightarrow> (int \<Rightarrow> disposition) \<times> int list" where
  "sigenv s = (disp s, sigmask s)"

lemma config_upd [simp]:
  "config (s\<lparr>start_count := i\<rparr>) = config s" "config (s\<lparr>start_time := i\<rparr>) = config s"
  "config (s\<lparr>cchild := i\<rparr>) = config s" "config (s\<lparr>ssh_stderr_fd := i\<rparr>) = config s"
  "config (s\<lparr>pipe_lost_time := i\<rparr>) = config s" "config (s\<lparr>last_stderr_time := i\<rparr>) = config s"
  "config (s\<lparr>port_fwd_failed := i\<rparr>) = config s" "config (s\<lparr>exit_signalled := i\<rparr>) = config s"
  "config (s\<lparr>restart_ssh := i\<rparr>) = config s" "config (s\<lparr>dolongjmp := i\<rparr>) = config s"
  "config (s\<lparr>TRIES := i\<rparr>) = config s" "config (s\<lparr>SECS_LEFT := i\<rparr>) = config s"
  "config (s\<lparr>pid_file_created := i\<rparr>) = config s"
  "config (s\<lparr>disp := d\<rparr>) = config s" "config (s\<lparr>sigmask := k\<rparr>) = config s"
  "config (s\<lparr>trace := t\<rparr>) = config s" "config (s\<lparr>n_ts := n\<rparr>) = config s"
  "config (s\<lparr>n_time := n\<rparr>) = config s" "config (s\<lparr>n_waitpid := n\<rparr>) = config s"
  "config (s\<lparr>n_read := n\<rparr>) = config s" "config (s\<lparr>n_alarm := n\<rparr>) = config s"
  "config (s\<lparr>n_async := n\<rparr>) = config s" "config (s\<lparr>n_wait := n\<rparr>) = config s"
  "config (s\<lparr>n_pipe := n\<rparr>) = config s" "config (s\<lparr>n_fork := n\<rparr>) = config s"
  "config (s\<lparr>n_net := n\<rparr>) = config s" "config (s\<lparr>conn_res := b\<rparr>) = config s"
  "config (s\<lparr>so_path := c\<rparr>) = config s" "config (s\<lparr>ld_preload := c\<rparr>) = config s"
  by (simp_all add: config_def)

lemma sigenv_upd [simp]:
  "sigenv (s\<lparr>cchild := i\<rparr>) = sigenv s" "sigenv (s\<lparr>ssh_stderr_fd := i\<rparr>) = sigenv s"
  "sigenv (s\<lparr>exit_signalled := i\<rparr>) = sigenv s" "sigenv (s\<lparr>restart_ssh := i\<rparr>) = sigenv s"
  "sigenv (s\<lparr>dolongjmp := i\<rparr>) = sigenv s"
  "sigenv (s\<lparr>trace := t\<rparr>) = sigenv s" "sigenv (s\<lparr>n_ts := n\<rparr>) = sigenv s"
  "sigenv (s\<lparr>n_waitpid := n\<rparr>) = sigenv s" "sigenv (s\<lparr>n_async := n\<rparr>) = sigenv s"
  by (simp_all add: sigenv_def)

lemma launch_upd [simp]:
  "launch (s\<lparr>cchild := i\<rparr>) = launch s" "launch (s\<lparr>ssh_stderr_fd := i\<rparr>) = launch s"
  "launch (s\<lparr>pipe_lost_time := i\<rparr>) = launch s" "launch (s\<lparr>last_stderr_time := i\<rparr>) = launch s"
  "launch (s\<lparr>port_fwd_failed := i\<rparr>) = launch s" "launch (s\<lparr>exit_signalled := i\<rparr>) = launch s"
  "launch (s\<lparr>restart_ssh := i\<rparr>) = launch s" "launch (s\<lparr>dolongjmp := i\<rparr>) = launch s"
  "launch (s\<lparr>SECS_LEFT := i\<rparr>) = launch s"
  "launch (s\<lparr>disp := d\<rparr>) = launch s" "launch (s\<lparr>sigmask := k\<rparr>) = launch s"
  "launch (s\<lparr>trace := t\<rparr>) = launch s" "launch (s\<lparr>n_ts := n\<rparr>) = launch s"
  "launch (s\<lparr>n_time := n\<rparr>) = launch s" "launch (s\<lparr>n_waitpid := n\<rparr>) = launch s"
  "launch (s\<lparr>n_read := n\<rparr>) = launch s" "launch (s\<lparr>n_alarm := n\<rparr>) = launch s"
  "launch (s\<lparr>n_async := n\<rparr>) = launch s" "launch (s\<lparr>n_wait := n\<rparr>) = launch s"
  "launch (s\<lparr>n_pipe := n\<rparr>) = launch s" "launch (s\<lparr>n_fork := n\<rparr>) = launch s"
  "launch (s\<lparr>n_net := n\<rparr>) = launch s" "launch (s\<lparr>conn_res := b\<rparr>) = launch s"
  by (simp_all add: launch_def)

end
