(* ===== verification/Signals.thy ===== *)
theory Signals
  imports Globals
begin

text \<open>
  \<^verbatim>\<open>src/signals.rs\<close>: the handler \<open>sig_catch\<close>, the three functions that install dispositions,
  and the kernel's side of a delivery. A signal that arrives while the process is not waiting
  in \<^verbatim>\<open>ssh_watch\<close> is delivered at an \<open>async_point\<close>: the sleeps, and the places where the code
  unblocks its signals. Arrivals that the mask blocks there are not lost, they are among the
  wakes of the next wait, which the kernel chooses.
\<close>

section \<open>The handler\<close>

definition jump_if_armed :: "int \<Rightarrow> (proc, unit) prog" where
  "jump_if_armed sig s =
     (if dolongjmp s \<noteq> 0 then (Longjmp sig, s\<lparr>dolongjmp := 0\<rparr>) else (Return (), s))"

definition sig_catch :: "int \<Rightarrow> (proc, unit) prog" where
  "sig_catch sig s =
     (if sig = SIGUSR1 then jump_if_armed sig (s\<lparr>restart_ssh := 1\<rparr>)
      else if sig = SIGTERM \<or> sig = SIGINT then
        (if exit_signalled s \<noteq> 0 then (Exit 1, s) else jump_if_armed sig (s\<lparr>exit_signalled := 1\<rparr>))
      else jump_if_armed sig s)"

section \<open>Dispositions\<close>

definition set_exit_sig_handler :: "proc \<Rightarrow> proc" where
  "set_exit_sig_handler s =
     s\<lparr>disp := (disp s)(SIGTERM := SIG_CATCH [] False, SIGINT := SIG_CATCH [] False)\<rparr>"

definition handler_mask :: "int list" where
  "handler_mask = [SIGTERM, SIGINT, SIGHUP, SIGUSR1, SIGUSR2, SIGCHLD, SIGALRM, SIGPIPE]"

definition set_sig_handlers :: "proc \<Rightarrow> proc" where
  "set_sig_handlers s =
     s\<lparr>disp := (disp s)
        (SIGTERM := SIG_CATCH handler_mask False,
         SIGINT := SIG_CATCH handler_mask False,
         SIGHUP := SIG_CATCH handler_mask False,
         SIGUSR1 := SIG_CATCH handler_mask False,
         SIGUSR2 := SIG_CATCH handler_mask False,
         SIGCHLD := SIG_CATCH handler_mask False,
         SIGALRM := SIG_CATCH handler_mask True,
         SIGPIPE := SIG_IGN)\<rparr>"

definition unset_sig_handlers :: "proc \<Rightarrow> proc" where
  "unset_sig_handlers s =
     s\<lparr>disp := (disp s)
        (SIGHUP := SIG_DFL, SIGUSR1 := SIG_DFL, SIGUSR2 := SIG_DFL, SIGCHLD := SIG_DFL,
         SIGALRM := SIG_DFL, SIGPIPE := SIG_DFL)\<rparr>"

section \<open>Delivery\<close>

definition deliver :: "os \<Rightarrow> int \<Rightarrow> (proc, unit) prog" where
  "deliver os sig s =
     (if sig \<in> set (sigmask s) then (Return (), s)
      else case disp s sig of
        SIG_IGN \<Rightarrow> (Return (), s)
      | SIG_DFL \<Rightarrow> if os_dfl_term os sig then (Killed sig, s) else (Return (), s)
      | SIG_CATCH sa restart \<Rightarrow> sig_catch sig s)"

primrec deliver_all :: "os \<Rightarrow> int list \<Rightarrow> (proc, unit) prog" where
  "deliver_all os [] = return_p ()"
| "deliver_all os (g # gs) = then_p (deliver os g) (deliver_all os gs)"

definition async_point :: "os \<Rightarrow> (proc, unit) prog" where
  "async_point os s = deliver_all os (os_async os (n_async s)) (s\<lparr>n_async := Suc (n_async s)\<rparr>)"

text \<open>\<^verbatim>\<open>libc::sleep\<close>. A handler that returns cuts the sleep short; no caller looks at the rest.\<close>

definition sleep_p :: "os \<Rightarrow> int \<Rightarrow> (proc, unit) prog" where
  "sleep_p os n s = async_point os (emit (Sleep n) s)"

declare jump_if_armed_def [run] sig_catch_def [run] deliver_def [run] async_point_def [run]
  sleep_p_def [run] set_exit_sig_handler_def [run] set_sig_handlers_def [run]
  unset_sig_handlers_def [run]

section \<open>What a delivery changes\<close>

text \<open>
  A predicate is unaffected by signals when it does not look at the three flags and the
  counter that a delivery writes.
\<close>

definition flag_free :: "(proc \<Rightarrow> bool) \<Rightarrow> bool" where
  "flag_free I \<longleftrightarrow>
     (\<forall>s x. I s \<longrightarrow> I (s\<lparr>restart_ssh := x\<rparr>)) \<and> (\<forall>s x. I s \<longrightarrow> I (s\<lparr>exit_signalled := x\<rparr>)) \<and>
     (\<forall>s x. I s \<longrightarrow> I (s\<lparr>dolongjmp := x\<rparr>)) \<and> (\<forall>s x. I s \<longrightarrow> I (s\<lparr>n_async := x\<rparr>))"

lemma stable_sig_catch: "flag_free I \<Longrightarrow> stable I (sig_catch g)"
  by (auto simp: stable_def sig_catch_def jump_if_armed_def flag_free_def)

lemma stable_deliver: "flag_free I \<Longrightarrow> stable I (deliver os g)"
  using stable_sig_catch [of I g]
  by (auto simp: stable_def deliver_def split: disposition.split)

lemma stable_deliver_all: "flag_free I \<Longrightarrow> stable I (deliver_all os gs)"
  by (induction gs) (auto intro: hoare stable_deliver)

lemma stable_async_point:
  assumes "flag_free I"
  shows "stable I (async_point os)"
  unfolding stable_def async_point_def
proof (intro allI impI)
  fix s
  assume "I s"
  with assms have "I (s\<lparr>n_async := Suc (n_async s)\<rparr>)" by (simp add: flag_free_def)
  with stable_deliver_all [OF assms]
  show "I (snd (deliver_all os (os_async os (n_async s)) (s\<lparr>n_async := Suc (n_async s)\<rparr>)))"
    by (simp add: stable_def)
qed

lemma stable_sleep:
  "flag_free I \<Longrightarrow> (\<And>s. I s \<Longrightarrow> I (emit (Sleep n) s)) \<Longrightarrow> stable I (sleep_p os n)"
  using stable_async_point [of I os] by (simp add: stable_def sleep_p_def)

lemma flag_free_frame [intro]:
  assumes "\<And>s x. f (s\<lparr>restart_ssh := x\<rparr>) = f s" "\<And>s x. f (s\<lparr>exit_signalled := x\<rparr>) = f s"
    "\<And>s x. f (s\<lparr>dolongjmp := x\<rparr>) = f s" "\<And>s x. f (s\<lparr>n_async := x\<rparr>) = f s"
  shows "flag_free (\<lambda>s. P (f s))"
  using assms by (simp add: flag_free_def)

section \<open>No stray jumps\<close>

text \<open>
  While \<^verbatim>\<open>dolongjmp\<close> is clear, a delivery never jumps and leaves it clear; the only ways it can
  end the process are the second termination signal and a default action. The two flags are
  only ever raised.
\<close>

definition calm :: "proc \<Rightarrow> bool" where
  "calm s \<longleftrightarrow> dolongjmp s = 0"

definition ended :: "os \<Rightarrow> proc \<Rightarrow> unit flow \<Rightarrow> bool" where
  "ended os s r \<longleftrightarrow> r = Exit 1 \<and> exit_signalled s \<noteq> 0 \<or> (\<exists>g. r = Killed g \<and> disp s g = SIG_DFL \<and> os_dfl_term os g)"

lemma triple_sig_catch:
  "triple (\<lambda>s. calm s \<and> disp s = d) (sig_catch g)
     (\<lambda>_ s. calm s \<and> disp s = d) (\<lambda>r s. calm s \<and> ended os s r)"
  by (rule tripleI) (auto simp: sig_catch_def jump_if_armed_def calm_def ended_def split: if_splits)

lemma triple_deliver:
  "triple (\<lambda>s. calm s \<and> disp s = d) (deliver os g)
     (\<lambda>_ s. calm s \<and> disp s = d) (\<lambda>r s. calm s \<and> ended os s r)"
  using triple_sig_catch [of d g os]
  by (auto simp: triple_def deliver_def ended_def split: if_splits disposition.splits)

lemma triple_deliver_all:
  "triple (\<lambda>s. calm s \<and> disp s = d) (deliver_all os gs)
     (\<lambda>_ s. calm s \<and> disp s = d) (\<lambda>r s. calm s \<and> ended os s r)"
proof (induction gs)
  case Nil
  then show ?case by (auto intro: triple_return)
next
  case (Cons g gs)
  then show ?case by (auto intro: triple_then triple_deliver)
qed

lemma triple_async_point [hoare]:
  "triple calm (async_point os) (\<lambda>_. calm) (\<lambda>r s. calm s \<and> ended os s r)"
proof (rule tripleI)
  fix s r s'
  assume "calm s" and run: "async_point os s = (r, s')"
  then have "calm (s\<lparr>n_async := Suc (n_async s)\<rparr>)" by (simp add: calm_def)
  with run triple_deliver_all [of "disp s" os "os_async os (n_async s)"]
  show "case r of Return a \<Rightarrow> calm s' | _ \<Rightarrow> calm s' \<and> ended os s' (void r)"
    by (cases r) (auto simp: async_point_def triple_def)
qed

lemma triple_sleep [hoare]:
  "triple calm (sleep_p os n) (\<lambda>_. calm) (\<lambda>r s. calm s \<and> ended os s r)"
  unfolding sleep_p_def [abs_def]
  by (rule triple_comp [OF triple_async_point]) (simp add: emit_def calm_def)

text \<open>A sleep appends itself to the trace and changes no field but the flags.\<close>

lemma async_frame:
  assumes "async_point os s = (r, s')"
    and "\<And>s x. f (s\<lparr>restart_ssh := x\<rparr>) = f s" "\<And>s x. f (s\<lparr>exit_signalled := x\<rparr>) = f s"
    and "\<And>s x. f (s\<lparr>dolongjmp := x\<rparr>) = f s" "\<And>s x. f (s\<lparr>n_async := x\<rparr>) = f s"
  shows "f s' = f s"
proof -
  have "flag_free (\<lambda>t. f t = f s)" by (simp add: flag_free_def assms(2-))
  from stableD [OF stable_async_point [OF this] _ assms(1)] show ?thesis by simp
qed

lemma sleep_keeps:
  assumes "sleep_p os n s = (r, s')"
  shows "trace s' = trace s @ [Sleep n]" "cchild s' = cchild s" "ssh_stderr_fd s' = ssh_stderr_fd s"
proof -
  have run: "async_point os (emit (Sleep n) s) = (r, s')"
    using assms by (simp add: sleep_p_def)
  show "trace s' = trace s @ [Sleep n]"
    using async_frame [OF run, of trace] by (simp add: emit_def)
  show "cchild s' = cchild s" using async_frame [OF run, of cchild] by (simp add: emit_def)
  show "ssh_stderr_fd s' = ssh_stderr_fd s"
    using async_frame [OF run, of ssh_stderr_fd] by (simp add: emit_def)
qed

text \<open>Where the mask blocks whatever arrives, an asynchronous point does nothing.\<close>

lemma deliver_all_blocked:
  "set gs \<subseteq> set (sigmask s) \<Longrightarrow> deliver_all os gs s = (Return (), s)"
  by (induction gs) (simp_all add: return_p_def deliver_def)

lemma async_blocked:
  "set (os_async os (n_async s)) \<subseteq> set (sigmask s) \<Longrightarrow>
   async_point os s = (Return (), s\<lparr>n_async := Suc (n_async s)\<rparr>)"
  by (simp add: async_point_def deliver_all_blocked)

end
