(* ===== verification/Kill.thy ===== *)
theory Kill
  imports Signals
begin

text \<open>
  \<^verbatim>\<open>src/kill.rs\<close> (ending the ssh child), the pid-file cleanup of \<^verbatim>\<open>src/util.rs\<close> and the
  orderly exit \<^verbatim>\<open>xerrlog!\<close> of \<^verbatim>\<open>src/log.rs\<close>, which uses both.
\<close>

definition SIGTERM_GRACE :: nat where "SIGTERM_GRACE = 2"
definition SIGKILL_WAIT :: nat where "SIGKILL_WAIT = 2"

section \<open>Reaping\<close>

definition waitpid_msg :: "bool \<Rightarrow> string \<Rightarrow> string" where
  "waitpid_msg after_sigkill err =
     (if after_sigkill then ''waitpid after SIGKILL: '' @ err else ''waitpid: '' @ err)"

text \<open>The loop of \<^verbatim>\<open>reap_with_grace\<close>, by the seconds that remain.\<close>

fun reap_with_grace :: "os \<Rightarrow> nat \<Rightarrow> bool \<Rightarrow> (proc, bool) prog" where
  "reap_with_grace os 0 after_sigkill s = (Return False, s)"
| "reap_with_grace os (Suc k) after_sigkill s =
     (let (w, status, e) = os_waitpid os (n_waitpid s);
          s1 = emit (Waitpid (cchild s) WNOHANG) (s\<lparr>n_waitpid := Suc (n_waitpid s)\<rparr>)
      in if w > 0 then (Return True, s1\<lparr>cchild := 0\<rparr>)
         else if w < 0 \<and> e = ECHILD then (Return True, s1\<lparr>cchild := 0\<rparr>)
         else if w < 0 \<and> e \<noteq> EINTR then
           (Return True,
            (errlog os LOG_ERR (waitpid_msg after_sigkill (cstr_or (Some (os_strerror os e)) ''?'')) s1)
              \<lparr>cchild := 0\<rparr>)
         else then_p (sleep_p os 1) (reap_with_grace os k after_sigkill) s1)"

section \<open>Killing the child\<close>

definition msg_escalate :: "int \<Rightarrow> string" where
  "msg_escalate child = ''ssh child '' @ show_int child @ '' did not exit after ''
     @ show_nat SIGTERM_GRACE @ '' seconds, sending SIGKILL''"

definition msg_abandon :: "int \<Rightarrow> string" where
  "msg_abandon child = ''ssh child '' @ show_int child @ '' not dead after SIGKILL + ''
     @ show_nat SIGKILL_WAIT @ '' seconds (likely in uninterruptible state); abandoning''"

definition close_stderr :: "proc \<Rightarrow> proc" where
  "close_stderr s =
     (if ssh_stderr_fd s \<ge> 0 then (emit (Close (ssh_stderr_fd s)) s)\<lparr>ssh_stderr_fd := -1\<rparr> else s)"

definition kill_child :: "int \<Rightarrow> proc \<Rightarrow> proc" where
  "kill_child sig s = emit (Kill (cchild s) sig) s"

definition ssh_kill :: "os \<Rightarrow> (proc, unit) prog" where
  "ssh_kill os s0 =
     (let s = close_stderr s0 in
      if cchild s = 0 then (Return (), s)
      else
        bind_p (reap_with_grace os SIGTERM_GRACE False)
          (\<lambda>reaped. if reaped then return_p ()
             else then_p (modify_p (\<lambda>s. kill_child SIGKILL (errlog os LOG_WARNING (msg_escalate (cchild s)) s)))
               (bind_p (reap_with_grace os SIGKILL_WAIT True)
                  (\<lambda>reaped. if reaped then return_p ()
                     else modify_p (\<lambda>s. (errlog os LOG_ERR (msg_abandon (cchild s)) s)\<lparr>cchild := 0\<rparr>))))
          (kill_child SIGTERM s))"

section \<open>Pid file and orderly exit\<close>

definition unlink_pid_file :: "proc \<Rightarrow> proc" where
  "unlink_pid_file s =
     (case pid_file_name s of
        Some f \<Rightarrow> (if pid_file_created s \<noteq> 0 then emit (Unlink f) s else s)
      | None \<Rightarrow> s)\<lparr>pid_file_created := 0\<rparr>"

definition xerrlog :: "os \<Rightarrow> int \<Rightarrow> string \<Rightarrow> (proc, 'a) prog" where
  "xerrlog os level m =
     then_p (modify_p (errlog os level
              (if char_of (0 :: nat) \<in> set m then ''autossh: log formatting failed'' else m)))
       (then_p (ssh_kill os)
         (then_p (modify_p unlink_pid_file) (exit_p 1)))"

declare SIGTERM_GRACE_def [run] SIGKILL_WAIT_def [run] close_stderr_def [run] kill_child_def [run]
  ssh_kill_def [run] unlink_pid_file_def [run] xerrlog_def [run]

section \<open>Frame of the teardown\<close>

text \<open>Predicates that look at nothing a teardown writes.\<close>

definition kill_free :: "(proc \<Rightarrow> bool) \<Rightarrow> bool" where
  "kill_free I \<longleftrightarrow> flag_free I \<and>
     (\<forall>s x. I s \<longrightarrow> I (s\<lparr>cchild := x\<rparr>)) \<and> (\<forall>s x. I s \<longrightarrow> I (s\<lparr>ssh_stderr_fd := x\<rparr>)) \<and>
     (\<forall>s x. I s \<longrightarrow> I (s\<lparr>n_waitpid := x\<rparr>)) \<and> (\<forall>s x. I s \<longrightarrow> I (s\<lparr>n_ts := x\<rparr>)) \<and>
     (\<forall>s x. I s \<longrightarrow> I (s\<lparr>trace := x\<rparr>))"

lemma stable_reap: "kill_free I \<Longrightarrow> stable I (reap_with_grace os k a)"
proof (induction k)
  case 0
  then show ?case by (simp add: stable_def)
next
  case (Suc k)
  have ff: "flag_free I" and em: "\<And>s e. I s \<Longrightarrow> I (emit e s)"
    and lg: "\<And>s l m. I s \<Longrightarrow> I (errlog os l m s)"
    using Suc.prems by (simp_all add: kill_free_def emit_def errlog_upd)
  have k: "stable I (then_p (sleep_p os 1) (reap_with_grace os k a))"
    using Suc ff em by (intro stable_then stable_sleep) auto
  show ?case
    unfolding stable_def
  proof (intro allI impI)
    fix s
    assume "I s"
    then have "I (emit (Waitpid (cchild s) WNOHANG) (s\<lparr>n_waitpid := Suc (n_waitpid s)\<rparr>))"
      using Suc.prems em by (simp add: kill_free_def)
    then show "I (snd (reap_with_grace os (Suc k) a s))"
      using k Suc.prems lg by (auto simp: stable_def kill_free_def Let_def split: prod.split)
  qed
qed

lemma stable_ssh_kill:
  assumes "kill_free I"
  shows "stable I (ssh_kill os)"
proof -
  have em: "\<And>s e. I s \<Longrightarrow> I (emit e s)" and lg: "\<And>s l m. I s \<Longrightarrow> I (errlog os l m s)"
    and cc: "\<And>s x. I s \<Longrightarrow> I (s\<lparr>cchild := x\<rparr>)"
    using assms by (simp_all add: kill_free_def emit_def errlog_upd)
  have cl: "I (close_stderr s)" if "I s" for s
    using assms em that by (simp add: close_stderr_def kill_free_def)
  have kc: "I (kill_child g s)" if "I s" for s g
    using em that by (simp add: kill_child_def)
  have tail: "stable I
     (bind_p (reap_with_grace os SIGTERM_GRACE False)
          (\<lambda>reaped. if reaped then return_p ()
             else then_p (modify_p (\<lambda>s. kill_child SIGKILL (errlog os LOG_WARNING (msg_escalate (cchild s)) s)))
               (bind_p (reap_with_grace os SIGKILL_WAIT True)
                  (\<lambda>reaped. if reaped then return_p ()
                     else modify_p (\<lambda>s. (errlog os LOG_ERR (msg_abandon (cchild s)) s)\<lparr>cchild := 0\<rparr>)))))"
    by (intro hoare stable_reap assms) (auto intro: hoare kc lg cc)
  show ?thesis
    unfolding stable_def ssh_kill_def Let_def
    using tail cl kc by (auto simp: stable_def)
qed

lemma kill_free_frame:
  assumes "\<And>s x. f (s\<lparr>restart_ssh := x\<rparr>) = f s" "\<And>s x. f (s\<lparr>exit_signalled := x\<rparr>) = f s"
    "\<And>s x. f (s\<lparr>dolongjmp := x\<rparr>) = f s" "\<And>s x. f (s\<lparr>n_async := x\<rparr>) = f s"
    "\<And>s x. f (s\<lparr>cchild := x\<rparr>) = f s" "\<And>s x. f (s\<lparr>ssh_stderr_fd := x\<rparr>) = f s"
    "\<And>s x. f (s\<lparr>n_waitpid := x\<rparr>) = f s" "\<And>s x. f (s\<lparr>n_ts := x\<rparr>) = f s"
    "\<And>s x. f (s\<lparr>trace := x\<rparr>) = f s"
  shows "kill_free (\<lambda>s. f s = c)"
  unfolding kill_free_def flag_free_def by (simp only: assms) simp

definition kept :: "proc \<Rightarrow> proc \<Rightarrow> bool" where
  "kept s s' \<longleftrightarrow> config s' = config s \<and> launch s' = launch s \<and> sigenv s' = sigenv s \<and>
     (pipe_lost_time s', last_stderr_time s', port_fwd_failed s', SECS_LEFT s') =
     (pipe_lost_time s, last_stderr_time s, port_fwd_failed s, SECS_LEFT s) \<and>
     (n_time s', n_read s', n_alarm s', n_wait s', n_pipe s', n_fork s', n_net s', conn_res s') =
     (n_time s, n_read s, n_alarm s, n_wait s, n_pipe s, n_fork s, n_net s, conn_res s)"

lemma ssh_kill_kept: "ssh_kill os s = (r, s') \<Longrightarrow> kept s s'"
proof -
  assume run: "ssh_kill os s = (r, s')"
  have frame: "f s' = f s" if "kill_free (\<lambda>t. f t = f s)" for f :: "proc \<Rightarrow> 'b"
    using stableD [OF stable_ssh_kill [OF that] _ run] by simp
  show ?thesis
    unfolding kept_def by (intro conjI frame kill_free_frame) simp_all
qed

section \<open>Effect of the teardown\<close>

text \<open>One round of polling: the child is gone, or one second is slept and polling goes on.\<close>

lemma reap_Suc_cases:
  assumes "reap_with_grace os (Suc k) a s = (r, s')"
  obtains (reaped) t ts where "r = Return True"
      "s' = s\<lparr>cchild := 0, trace := t, n_ts := ts, n_waitpid := Suc (n_waitpid s)\<rparr>"
      "kills t = kills (trace s)" "slept t = slept (trace s)"
  | (again) "then_p (sleep_p os 1) (reap_with_grace os k a)
      (emit (Waitpid (cchild s) WNOHANG) (s\<lparr>n_waitpid := Suc (n_waitpid s)\<rparr>)) = (r, s')"
proof -
  obtain w st e where w: "os_waitpid os (n_waitpid s) = (w, st, e)" by (metis prod_cases3)
  show thesis
  proof (cases "w > 0 \<or> w < 0 \<and> e \<noteq> EINTR")
    case True
    with assms w show thesis
      by (intro reaped [where t = "trace s'" and ts = "n_ts s'"]) (auto simp: Let_def emit_def errlog_upd split: if_splits)
  next
    case False
    with assms w again show thesis by (auto simp: Let_def)
  qed
qed

text \<open>Polling for the child sends nothing and sleeps at most once per remaining second.\<close>

lemma reap_effect:
  "reap_with_grace os k a s = (r, s') \<Longrightarrow>
   kills (trace s') = kills (trace s) \<and> slept (trace s) \<le> slept (trace s') \<and>
   slept (trace s') \<le> slept (trace s) + int k \<and> ssh_stderr_fd s' = ssh_stderr_fd s \<and>
   (r = Return True \<longrightarrow> cchild s' = 0) \<and> (r = Return False \<longrightarrow> cchild s' = cchild s)"
proof (induction k arbitrary: s)
  case 0
  then show ?case by auto
next
  case (Suc k)
  let ?s1 = "emit (Waitpid (cchild s) WNOHANG) (s\<lparr>n_waitpid := Suc (n_waitpid s)\<rparr>)"
  from Suc.prems show ?case
  proof (cases rule: reap_Suc_cases)
    case (reaped t ts)
    then show ?thesis by simp
  next
    case again
    obtain q s2 where sl: "sleep_p os 1 ?s1 = (q, s2)" by fastforce
    note keeps = sleep_keeps [OF sl]
    show ?thesis
    proof (cases q)
      case (Return u)
      with again sl have "reap_with_grace os k a s2 = (r, s')" by simp
      from Suc.IH [OF this] keeps show ?thesis by (simp add: emit_def)
    qed (use again sl keeps in \<open>auto simp: emit_def\<close>)
  qed
qed

text \<open>
  The signals of one teardown: none without a child, SIGTERM alone, or SIGTERM and then
  SIGKILL, always to the child.
\<close>

definition kill_sequences :: "int \<Rightarrow> (int \<times> int) list set" where
  "kill_sequences c = (if c = 0 then {[]} else {[(c, SIGTERM)], [(c, SIGTERM), (c, SIGKILL)]})"

lemma close_stderr_effect:
  "cchild (close_stderr s) = cchild s" "kills (trace (close_stderr s)) = kills (trace s)"
  "slept (trace (close_stderr s)) = slept (trace s)" "ssh_stderr_fd (close_stderr s) < 0"
  by (auto simp: close_stderr_def emit_def)

lemma ssh_kill_cases:
  assumes "ssh_kill os s = (r, s')"
  obtains (no_child) "cchild s = 0" "r = Return ()" "s' = close_stderr s"
  | (first) q where "cchild s \<noteq> 0"
      "reap_with_grace os SIGTERM_GRACE False (kill_child SIGTERM (close_stderr s)) = (q, s')"
      "q \<noteq> Return False" "r = void q"
  | (second) q s1 s2 where "cchild s \<noteq> 0"
      "reap_with_grace os SIGTERM_GRACE False (kill_child SIGTERM (close_stderr s)) = (Return False, s1)"
      "reap_with_grace os SIGKILL_WAIT True
         (kill_child SIGKILL (errlog os LOG_WARNING (msg_escalate (cchild s1)) s1)) = (q, s2)"
      "r = void q"
      "s' = (if q = Return False then (errlog os LOG_ERR (msg_abandon (cchild s2)) s2)\<lparr>cchild := 0\<rparr> else s2)"
proof (cases "cchild s = 0")
  case True
  with assms no_child show thesis
    by (simp add: ssh_kill_def Let_def close_stderr_effect)
next
  case False
  let ?k = "kill_child SIGTERM (close_stderr s)"
  obtain q s1 where r1: "reap_with_grace os SIGTERM_GRACE False ?k = (q, s1)" by fastforce
  show thesis
  proof (cases "q = Return False")
    case neq: False
    with assms False r1 have "s' = s1 \<and> r = void q"
      by (cases q) (auto simp: ssh_kill_def Let_def close_stderr_effect bind_p_def return_p_def)
    with first [of q] False r1 neq show thesis by simp
  next
    case True
    let ?t = "kill_child SIGKILL (errlog os LOG_WARNING (msg_escalate (cchild s1)) s1)"
    obtain p s2 where r2: "reap_with_grace os SIGKILL_WAIT True ?t = (p, s2)" by fastforce
    from True r1 have r1': "reap_with_grace os SIGTERM_GRACE False ?k = (Return False, s1)" by simp
    have "r = void p \<and>
      s' = (if p = Return False then (errlog os LOG_ERR (msg_abandon (cchild s2)) s2)\<lparr>cchild := 0\<rparr> else s2)"
      using assms False r1' r2
      by (cases p) (auto simp: ssh_kill_def Let_def close_stderr_effect bind_p_def modify_p_def
          return_p_def then_p_def split: if_splits)
    with second [OF False r1' r2] show thesis by blast
  qed
qed

lemma ssh_kill_effect:
  assumes "ssh_kill os s = (r, s')"
  shows "\<exists>ks \<in> kill_sequences (cchild s). kills (trace s') = kills (trace s) @ ks"
    and "slept (trace s) \<le> slept (trace s')" "slept (trace s') \<le> slept (trace s) + 4"
    and "ssh_stderr_fd s' < 0" and "r = Return () \<Longrightarrow> cchild s' = 0"
proof -
  have "(\<exists>ks \<in> kill_sequences (cchild s). kills (trace s') = kills (trace s) @ ks) \<and>
    slept (trace s) \<le> slept (trace s') \<and> slept (trace s') \<le> slept (trace s) + 4 \<and>
    ssh_stderr_fd s' < 0 \<and> (r = Return () \<longrightarrow> cchild s' = 0)"
    using assms
  proof (cases rule: ssh_kill_cases)
    case no_child
    then show ?thesis by (auto simp: kill_sequences_def close_stderr_effect)
  next
    case (first q)
    note e = reap_effect [OF first(2)]
    from first(3,4) have "r = Return () \<longrightarrow> q = Return True" by (cases q) auto
    with e first show ?thesis
      by (auto simp: kill_sequences_def kill_child_def emit_def close_stderr_effect SIGTERM_GRACE_def)
  next
    case (second q s1 s2)
    note e1 = reap_effect [OF second(2)] and e2 = reap_effect [OF second(3)]
    have c: "cchild s1 = cchild s" using e1 by (simp add: kill_child_def emit_def close_stderr_effect)
    have "r = Return () \<longrightarrow> q = Return True \<or> q = Return False" using second(4) by (cases q) auto
    then show ?thesis using e1 e2 second(1,5) c
      by (auto simp: kill_sequences_def kill_child_def emit_def close_stderr_effect errlog_upd
          SIGTERM_GRACE_def SIGKILL_WAIT_def)
  qed
  then show "\<exists>ks \<in> kill_sequences (cchild s). kills (trace s') = kills (trace s) @ ks"
    and "slept (trace s) \<le> slept (trace s')" "slept (trace s') \<le> slept (trace s) + 4"
    and "ssh_stderr_fd s' < 0" and "r = Return () \<Longrightarrow> cchild s' = 0"
    by blast+
qed

section \<open>The teardown interface\<close>

text \<open>
  What the supervisor relies on when it ends a child: afterwards there is no child and no
  stderr descriptor, nothing but the child and the signal flags has changed, no jump leaves
  the teardown while jumps are disarmed, and the time spent is bounded.
\<close>

locale teardown =
  fixes kill :: "(proc, unit) prog" and os :: os
  assumes kill_gone: "kill s = (Return (), s') \<Longrightarrow> cchild s' = 0"
    and kill_fd: "kill s = (r, s') \<Longrightarrow> ssh_stderr_fd s' < 0"
    and kill_kept: "kill s = (r, s') \<Longrightarrow> kept s s'"
    and kill_calm: "triple calm kill (\<lambda>_. calm) (\<lambda>q t. calm t \<and> ended os t q)"
    and kill_time: "kill s = (r, s') \<Longrightarrow>
      slept (trace s) \<le> slept (trace s') \<and> slept (trace s') \<le> slept (trace s) + 4"
    and kill_signals: "kill s = (r, s') \<Longrightarrow>
      \<exists>ks \<in> kill_sequences (cchild s). kills (trace s') = kills (trace s) @ ks"
begin

text \<open>Ending the child and returning a verdict, the shape of every exit of the watch loop.\<close>

lemma verdict_cases:
  assumes "then_p kill (return_p v) s = (r, s')"
  shows "(r = Return v \<and> cchild s' = 0 \<or> (\<forall>a. r \<noteq> Return a)) \<and> ssh_stderr_fd s' < 0 \<and> kept s s'"
proof -
  obtain q t where k: "kill s = (q, t)" by fastforce
  with assms have "s' = t" by (cases q) (auto simp: return_p_def)
  with k have "ssh_stderr_fd s' < 0 \<and> kept s s'" by (auto dest: kill_fd kill_kept)
  moreover have "r = Return v \<and> cchild s' = 0 \<or> (\<forall>a. r \<noteq> Return a)"
    using assms k kill_gone [of s t] by (cases q) (auto simp: return_p_def)
  ultimately show ?thesis by blast
qed

lemma verdict_calm:
  "triple calm (then_p kill (return_p v)) (\<lambda>a t. a = v \<and> calm t) (\<lambda>q t. calm t \<and> ended os t q)"
  by (rule triple_then [OF kill_calm]) (simp add: triple_return)

end

lemma triple_reap:
  "triple calm (reap_with_grace os k a) (\<lambda>_. calm) (\<lambda>q t. calm t \<and> ended os t q)"
proof (induction k)
  case 0
  then show ?case by (simp add: triple_def)
next
  case (Suc k)
  have step: "triple calm (then_p (sleep_p os 1) (reap_with_grace os k a))
    (\<lambda>_. calm) (\<lambda>q t. calm t \<and> ended os t q)"
    by (rule triple_then [OF triple_sleep Suc])
  show ?case
  proof (rule tripleI)
    fix s r s'
    assume c: "calm s" and run: "reap_with_grace os (Suc k) a s = (r, s')"
    from run show "case r of Return a \<Rightarrow> calm s' | _ \<Rightarrow> calm s' \<and> ended os s' (void r)"
    proof (cases rule: reap_Suc_cases)
      case (reaped t ts)
      with c show ?thesis by (simp add: calm_def)
    next
      case again
      show ?thesis by (rule tripleD [OF step _ again]) (use c in \<open>simp add: calm_def emit_def\<close>)
    qed
  qed
qed

lemma triple_ssh_kill: "triple calm (ssh_kill os) (\<lambda>_. calm) (\<lambda>q t. calm t \<and> ended os t q)"
proof (rule tripleI)
  fix s r s'
  assume c: "calm s" and run: "ssh_kill os s = (r, s')"
  have c1: "calm (kill_child SIGTERM (close_stderr s))"
    using c by (simp add: calm_def kill_child_def close_stderr_def emit_def)
  from run show "case r of Return a \<Rightarrow> calm s' | _ \<Rightarrow> calm s' \<and> ended os s' (void r)"
  proof (cases rule: ssh_kill_cases)
    case no_child
    with c show ?thesis by (simp add: calm_def close_stderr_def emit_def)
  next
    case (first q)
    with c1 triple_reap [of os SIGTERM_GRACE False] show ?thesis
      by (cases q) (auto simp: triple_def)
  next
    case (second q s1 s2)
    have "calm s1" using triple_Return [OF triple_reap c1 second(2)] .
    then have "calm (kill_child SIGKILL (errlog os LOG_WARNING (msg_escalate (cchild s1)) s1))"
      by (simp add: calm_def kill_child_def emit_def errlog_upd)
    with second(3-) triple_reap [of os SIGKILL_WAIT True] show ?thesis
      by (cases q) (auto simp: triple_def calm_def errlog_upd)
  qed
qed

interpretation ssh: teardown "ssh_kill os" os for os
  by unfold_locales (auto dest: ssh_kill_effect ssh_kill_kept intro: triple_ssh_kill)

section \<open>The orderly exit\<close>

lemma xerrlog_never_returns: "fst (xerrlog os level m s) \<noteq> Return a"
proof -
  obtain q t where "ssh_kill os (errlog os level
      (if char_of (0 :: nat) \<in> set m then ''autossh: log formatting failed'' else m) s) = (q, t)"
    by fastforce
  then show ?thesis by (cases q) (auto simp: xerrlog_def exit_p_def)
qed

text \<open>An orderly exit has no value, so it is the same at every result type.\<close>

lemma xerrlog_void:
  assumes "xerrlog os level m s = (r, s')"
  shows "xerrlog os level m s = (void r, s')"
proof -
  obtain q t where "ssh_kill os (errlog os level
      (if char_of (0 :: nat) \<in> set m then ''autossh: log formatting failed'' else m) s) = (q, t)"
    by fastforce
  with assms show ?thesis by (cases q) (auto simp: xerrlog_def exit_p_def)
qed

lemma xerrlog_ok:
  assumes "ok (\<lambda>_ _. False) E (xerrlog os level m s :: unit flow \<times> proc)"
  shows "ok Q E (xerrlog os level m s)"
proof -
  obtain r t where x: "(xerrlog os level m s :: 'a flow \<times> proc) = (r, t)" by fastforce
  with assms xerrlog_void [OF x] xerrlog_never_returns [of os level m s] show ?thesis
    by (cases r) auto
qed

lemma xerrlog_calm:
  "calm s \<Longrightarrow> ok Q (\<lambda>r t. calm t \<and> (r = Exit 1 \<or> ended os t r)) (xerrlog os level m s)"
  unfolding xerrlog_def
  by (intro ok_then [where R = calm] ok_mono [OF ok_triple [OF triple_ssh_kill]])
    (auto simp: modify_p_def exit_p_def errlog_upd calm_def unlink_pid_file_def emit_def split: option.split)

section \<open>Escalation\<close>

text \<open>A poll that leaves the child running: \<^verbatim>\<open>waitpid\<close> returned 0, or was interrupted.\<close>

definition pending :: "int \<times> int \<times> int \<Rightarrow> bool" where
  "pending p \<longleftrightarrow> (case p of (w, st, e) \<Rightarrow> \<not> (w > 0 \<or> w < 0 \<and> e \<noteq> EINTR))"

lemma reap_Suc:
  "reap_with_grace os (Suc k) a s =
     (if pending (os_waitpid os (n_waitpid s))
      then then_p (sleep_p os 1) (reap_with_grace os k a)
        (emit (Waitpid (cchild s) WNOHANG) (s\<lparr>n_waitpid := Suc (n_waitpid s)\<rparr>))
      else (Return True, snd (reap_with_grace os (Suc k) a s)))"
  by (auto simp: pending_def Let_def split: prod.split)

lemma reap_quiet:
  assumes quiet: "\<And>k. os_async os k = []"
  shows "fst (reap_with_grace os k a s) =
    Return (\<exists>i < k. \<not> pending (os_waitpid os (n_waitpid s + i)))"
proof (induction k arbitrary: s)
  case 0
  then show ?case by simp
next
  case (Suc k)
  have ex: "(\<exists>i < Suc k. P i) \<longleftrightarrow> P 0 \<or> (\<exists>i < k. P (Suc i))" for P :: "nat \<Rightarrow> bool"
    by (metis Suc_less_eq gr0_conv_Suc less_Suc_eq_0_disj zero_less_Suc)
  let ?s1 = "emit (Waitpid (cchild s) WNOHANG) (s\<lparr>n_waitpid := Suc (n_waitpid s)\<rparr>)"
  show ?case
  proof (cases "pending (os_waitpid os (n_waitpid s))")
    case True
    have "sleep_p os 1 ?s1 = (Return (), (emit (Sleep 1) ?s1)\<lparr>n_async := Suc (n_async s)\<rparr>)"
      by (simp add: sleep_p_def async_point_def quiet return_p_def emit_def)
    with True have "fst (reap_with_grace os (Suc k) a s) =
        fst (reap_with_grace os k a ((emit (Sleep 1) ?s1)\<lparr>n_async := Suc (n_async s)\<rparr>))"
      by (subst reap_Suc) simp
    with True show ?thesis by (simp add: Suc.IH ex emit_def)
  next
    case False
    then show ?thesis by (subst reap_Suc) (auto simp: ex)
  qed
qed

section \<open>Claims\<close>

text \<open>C9: Whatever the kernel answers, one teardown signals nothing but the supervised child
  (SIGTERM, then possibly SIGKILL), sleeps at most four seconds in total, leaves the stderr
  descriptor closed, and when it returns there is no child left to supervise; settings,
  restart bookkeeping, dispositions and mask are untouched.\<close>

theorem ssh_kill_bounded_teardown:
  assumes "ssh_kill os s = (r, s')"
  shows "(\<exists>ks \<in> kill_sequences (cchild s). kills (trace s') = kills (trace s) @ ks) \<and>
    slept (trace s') \<le> slept (trace s) + 4 \<and> ssh_stderr_fd s' < 0 \<and>
    (r = Return () \<longrightarrow> cchild s' = 0) \<and> kept s s'"
  using ssh.kill_signals [OF assms] ssh.kill_time [OF assms] ssh.kill_fd [OF assms]
    ssh.kill_kept [OF assms] ssh.kill_gone [of os s s'] assms by blast

theorem ssh_kill_bounded_teardown_witness:
  "ssh_kill idle_os (initial_proc\<lparr>cchild := 42, ssh_stderr_fd := 5\<rparr>)
     = (Return (), snd (ssh_kill idle_os (initial_proc\<lparr>cchild := 42, ssh_stderr_fd := 5\<rparr>))) \<and>
   cchild (snd (ssh_kill idle_os (initial_proc\<lparr>cchild := 42, ssh_stderr_fd := 5\<rparr>))) = 0"
proof -
  have f: "fst (ssh_kill idle_os (initial_proc\<lparr>cchild := 42, ssh_stderr_fd := 5\<rparr>)) = Return ()"
    by (simp add: run eval_nat_numeral)
  then have run: "ssh_kill idle_os (initial_proc\<lparr>cchild := 42, ssh_stderr_fd := 5\<rparr>)
     = (Return (), snd (ssh_kill idle_os (initial_proc\<lparr>cchild := 42, ssh_stderr_fd := 5\<rparr>)))"
    by (metis prod.collapse)
  from ssh_kill_bounded_teardown [OF run] run show ?thesis by simp
qed

text \<open>C10: The escalation rule. With a child and no signal arriving meanwhile, SIGKILL follows
  SIGTERM exactly when neither of the two polls of the grace period finds the child gone.\<close>

theorem ssh_kill_escalates_iff:
  assumes "\<And>k. os_async os k = []" and "cchild s \<noteq> 0"
  shows "kills (trace (snd (ssh_kill os s))) = kills (trace s) @ [(cchild s, SIGTERM)]
    @ (if pending (os_waitpid os (n_waitpid s)) \<and> pending (os_waitpid os (Suc (n_waitpid s)))
       then [(cchild s, SIGKILL)] else [])"
proof -
  let ?k = "kill_child SIGTERM (close_stderr s)"
  have n: "n_waitpid ?k = n_waitpid s"
    by (simp add: kill_child_def close_stderr_def emit_def)
  have two: "(\<exists>i < SIGTERM_GRACE. \<not> P i) \<longleftrightarrow> \<not> (P 0 \<and> P 1)" for P :: "nat \<Rightarrow> bool"
    by (auto simp: SIGTERM_GRACE_def less_2_cases_iff)
  have f: "fst (reap_with_grace os SIGTERM_GRACE False ?k) =
      Return (\<not> (pending (os_waitpid os (n_waitpid s)) \<and> pending (os_waitpid os (Suc (n_waitpid s)))))"
    using reap_quiet [OF assms(1), of SIGTERM_GRACE False ?k] by (simp add: two n)
  obtain r s' where run: "ssh_kill os s = (r, s')" by fastforce
  from run show ?thesis
  proof (cases rule: ssh_kill_cases)
    case no_child
    with assms(2) show ?thesis by simp
  next
    case (first q)
    with f reap_effect [OF first(2)] run show ?thesis
      by (auto simp: kill_child_def emit_def close_stderr_effect)
  next
    case (second q s1 s2)
    have "cchild s1 = cchild s" and "kills (trace s1) = kills (trace s) @ [(cchild s, SIGTERM)]"
      using reap_effect [OF second(2)] by (simp_all add: kill_child_def emit_def close_stderr_effect)
    with f second reap_effect [OF second(3)] run show ?thesis
      by (auto simp: kill_child_def emit_def errlog_upd)
  qed
qed

theorem ssh_kill_escalates_iff_witness:
  "(\<forall>k. os_async idle_os k = []) \<and> cchild (initial_proc\<lparr>cchild := 42\<rparr>) \<noteq> 0 \<and>
   kills (trace (snd (ssh_kill idle_os (initial_proc\<lparr>cchild := 42\<rparr>)))) = [(42, SIGTERM), (42, SIGKILL)]"
proof -
  have q: "\<And>k. os_async idle_os k = []" and c: "cchild (initial_proc\<lparr>cchild := 42\<rparr>) \<noteq> 0"
    by (simp_all add: idle_os_def)
  from ssh_kill_escalates_iff [OF q c] q c show ?thesis
    by (simp add: pending_def)
qed

end
