(* ===== verification/Lifetime.thy ===== *)
theory Lifetime
  imports Kill
begin

text \<open>
  \<^verbatim>\<open>src/lifetime.rs\<close> (the alarm wrapper and the lifetime test) and \<^verbatim>\<open>src/grace.rs\<close> (the delay
  before a restart).
\<close>

section \<open>Alarm and lifetime\<close>

definition clear_alarm_timer :: "os \<Rightarrow> proc \<Rightarrow> int \<times> proc" where
  "clear_alarm_timer os s = (os_alarm os (n_alarm s), emit (Alarm 0) (s\<lparr>n_alarm := Suc (n_alarm s)\<rparr>))"

definition exceeded_lifetime :: "os \<Rightarrow> proc \<Rightarrow> int \<times> proc" where
  "exceeded_lifetime os s =
     (if max_lifetime s > 0 then
        (if difftime (now os s) (pid_start_time s) \<ge> max_lifetime s
         then (1, errlog os LOG_INFO ''exceeded maximum time to live, shutting down'' (tick s))
         else (0, tick s))
      else (0, s))"

section \<open>Restart delay\<close>

definition N_FAST_TRIES :: int where "N_FAST_TRIES = 5"
definition PORT_FWD_FAIL_DELAY :: int where "PORT_FWD_FAIL_DELAY = 5"

definition min_time :: "int \<Rightarrow> rat" where
  "min_time poll = (if f64_of_int (tdiv poll 10) < 10 then 10 else f64_of_int (tdiv poll 10))"

definition next_tries :: "os \<Rightarrow> int \<Rightarrow> proc \<Rightarrow> int" where
  "next_tries os last_start s =
     (if difftime (now os s) last_start \<ge> min_time (poll_time s) then 0 else i32 (TRIES s + 1))"

definition grace_interval :: "int \<Rightarrow> int \<Rightarrow> int" where
  "grace_interval poll tries =
     (let t = f64_of_int (i32 (tries - N_FAST_TRIES));
          n = f64_to_i32 (f64_mul (f64_div (f64_of_int poll) 100) (f64_mul t (f64_div t 3)))
      in if n > poll then poll else n)"

definition msg_port_fwd :: string where
  "msg_port_fwd = ''port forwarding failed on previous attempt, enforcing minimum ''
     @ show_int PORT_FWD_FAIL_DELAY @ '' second delay''"

definition grace_backoff :: "os \<Rightarrow> (proc, unit) prog" where
  "grace_backoff os s =
     (if TRIES s > N_FAST_TRIES \<and> grace_interval (poll_time s) (TRIES s) > 0
      then sleep_p os (u32 (grace_interval (poll_time s) (TRIES s))) s
      else (Return (), s))"

definition grace_port :: "os \<Rightarrow> (proc, unit) prog" where
  "grace_port os s =
     (if port_fwd_failed s \<noteq> 0
      then then_p (sleep_p os PORT_FWD_FAIL_DELAY) (modify_p (\<lambda>s. s\<lparr>port_fwd_failed := 0\<rparr>))
             (errlog os LOG_INFO msg_port_fwd s)
      else (Return (), s))"

definition grace_time :: "os \<Rightarrow> int \<Rightarrow> (proc, unit) prog" where
  "grace_time os last_start s =
     then_p (grace_backoff os) (grace_port os) ((tick s)\<lparr>TRIES := next_tries os last_start s\<rparr>)"

declare clear_alarm_timer_def [run] exceeded_lifetime_def [run] now_def [run] tick_def [run]
  min_time_def [run] next_tries_def [run] grace_backoff_def [run] grace_port_def [run]
  grace_time_def [run] N_FAST_TRIES_def [run] PORT_FWD_FAIL_DELAY_def [run]

section \<open>The backoff curve\<close>

text \<open>
  The curve over an abstract rounding: it is monotone in the number of failures, never
  negative, and by the eighteenth failure past the fast ones it has reached the poll time.
\<close>

locale backoff = rounding +
  fixes curve :: "int \<Rightarrow> int \<Rightarrow> rat"
  assumes curve_eq: "curve poll t = rnd (rnd (of_int poll / 100) * rnd (of_int t * rnd (of_int t / 3)))"
    and rnd_512: "0 \<le> n \<Longrightarrow> n \<le> 2 ^ 53 \<Longrightarrow> rnd (of_int n / 512) = of_int n / 512"
begin

lemma curve_nonneg: "0 \<le> poll \<Longrightarrow> 0 \<le> t \<Longrightarrow> 0 \<le> curve poll t"
  unfolding curve_eq by (intro rnd_nonneg mult_nonneg_nonneg) simp_all

lemma curve_mono:
  assumes "0 \<le> poll" "0 \<le> t" "t \<le> t'"
  shows "curve poll t \<le> curve poll t'"
proof -
  have third: "rnd (of_int t / 3) \<le> rnd (of_int t' / 3)"
    using assms(3) by (intro rnd_mono) (simp add: divide_right_mono)
  have "0 \<le> rnd (of_int t / 3)" using assms(2) by (intro rnd_nonneg) simp
  with third assms have "of_int t * rnd (of_int t / 3) \<le> of_int t' * rnd (of_int t' / 3)"
    by (intro mult_mono) simp_all
  then have inner: "rnd (of_int t * rnd (of_int t / 3)) \<le> rnd (of_int t' * rnd (of_int t' / 3))"
    by (rule rnd_mono)
  have "0 \<le> rnd (of_int poll / 100)" using assms(1) by (intro rnd_nonneg) simp
  with inner show ?thesis unfolding curve_eq by (rule rnd_mono [OF mult_left_mono])
qed

lemma curve_saturates:
  assumes "0 \<le> poll" "poll < 2 ^ 31" "18 \<le> t"
  shows "of_int poll \<le> curve poll t"
proof -
  have "of_int (poll * 5) / 512 \<le> (of_int poll / 100 :: rat)"
    using assms(1) by (simp add: field_simps)
  then have "rnd (of_int (poll * 5) / 512) \<le> rnd (of_int poll / 100)" by (rule rnd_mono)
  then have a: "of_int (poll * 5) / 512 \<le> rnd (of_int poll / 100)"
    using assms rnd_512 [of "poll * 5"] by (simp del: of_int_mult)
  have six: "rnd 6 = 6" and h: "rnd 108 = 108"
    using rnd_exact [of 6] rnd_exact [of 108] by simp_all
  have "curve poll 18 = rnd (rnd (of_int poll / 100) * 108)" by (simp add: curve_eq six h)
  also have "of_int poll \<le> \<dots>"
  proof (rule int_le_rnd)
    show "\<bar>poll\<bar> \<le> 2 ^ 53" using assms by simp
    have "of_int poll \<le> of_int (poll * 5) / 512 * (108 :: rat)"
      using assms(1) by (simp add: field_simps)
    also have "\<dots> \<le> rnd (of_int poll / 100) * 108" using a by (simp add: mult_right_mono)
    finally show "of_int poll \<le> rnd (of_int poll / 100) * 108" .
  qed
  finally show ?thesis using curve_mono [of poll 18 t] assms by simp
qed

end

definition f64_curve :: "int \<Rightarrow> int \<Rightarrow> rat" where
  "f64_curve poll t = f64 (f64 (of_int poll / 100) * f64 (of_int t * f64 (of_int t / 3)))"

interpretation grace: backoff f64 f64_curve
proof unfold_locales
  fix n :: int
  assume "0 \<le> n" "n \<le> 2 ^ 53"
  then show "f64 (of_int n / 512) = of_int n / 512"
    using f64_scale [of "of_int n" 9] f64.rnd_exact [of n] by simp
qed (simp add: f64_curve_def)

lemma grace_interval_eq:
  assumes "in_i32 poll" "in_i32 (tries - N_FAST_TRIES)"
  shows "grace_interval poll tries = min poll (f64_to_i32 (f64_curve poll (tries - N_FAST_TRIES)))"
  using assms
  by (simp add: grace_interval_def f64_curve_def f64_mul_def f64_div_def f64_of_int_i32 Let_def min_def)

section \<open>What a delay does\<close>

definition grace_delay :: "int \<Rightarrow> int \<Rightarrow> int" where
  "grace_delay poll tries =
     (if tries > N_FAST_TRIES \<and> grace_interval poll tries > 0 then u32 (grace_interval poll tries) else 0)"

lemma sleep_state:
  assumes "sleep_p os n s = (r, s')"
  shows "port_fwd_failed s' = port_fwd_failed s" "TRIES s' = TRIES s" "n_time s' = n_time s"
    "config s' = config s" "start_count s' = start_count s" "start_time s' = start_time s"
    "sigenv s' = sigenv s" "n_fork s' = n_fork s"
  using async_frame [of os "emit (Sleep n) s" r s' port_fwd_failed]
    async_frame [of os "emit (Sleep n) s" r s' n_fork]
    async_frame [of os "emit (Sleep n) s" r s' TRIES]
    async_frame [of os "emit (Sleep n) s" r s' n_time]
    async_frame [of os "emit (Sleep n) s" r s' config]
    async_frame [of os "emit (Sleep n) s" r s' start_count]
    async_frame [of os "emit (Sleep n) s" r s' start_time]
    async_frame [of os "emit (Sleep n) s" r s' sigenv] assms
  by (simp_all add: sleep_p_def emit_def)

lemma grace_backoff_effect:
  assumes "grace_backoff os s = (Return (), s')"
  shows "slept (trace s') = slept (trace s) + grace_delay (poll_time s) (TRIES s)"
    "port_fwd_failed s' = port_fwd_failed s" "TRIES s' = TRIES s"
  using assms sleep_keeps(1) [of os _ s "Return ()" s'] sleep_state(1,2) [of os _ s "Return ()" s']
  by (auto simp: grace_backoff_def grace_delay_def split: if_splits)

lemma grace_port_effect:
  assumes "grace_port os s = (Return (), s')"
  shows "slept (trace s') = slept (trace s) + (if port_fwd_failed s \<noteq> 0 then PORT_FWD_FAIL_DELAY else 0)"
    "port_fwd_failed s' = 0" "TRIES s' = TRIES s"
proof -
  have "slept (trace s') = slept (trace s) + (if port_fwd_failed s \<noteq> 0 then PORT_FWD_FAIL_DELAY else 0) \<and>
    port_fwd_failed s' = 0 \<and> TRIES s' = TRIES s"
  proof (cases "port_fwd_failed s = 0")
    case True
    with assms show ?thesis by (simp add: grace_port_def)
  next
    case False
    obtain q t where sl: "sleep_p os PORT_FWD_FAIL_DELAY (errlog os LOG_INFO msg_port_fwd s) = (q, t)"
      by fastforce
    from False assms have "then_p (sleep_p os PORT_FWD_FAIL_DELAY)
        (modify_p (\<lambda>s. s\<lparr>port_fwd_failed := 0\<rparr>)) (errlog os LOG_INFO msg_port_fwd s) = (Return (), s')"
      by (simp add: grace_port_def)
    with sl have "s' = t\<lparr>port_fwd_failed := 0\<rparr>" by (cases q) (simp_all add: modify_p_def)
    then show ?thesis
      using False sleep_keeps(1) [OF sl] sleep_state(2) [OF sl] by (simp add: errlog_upd)
  qed
  then show "slept (trace s') = slept (trace s) + (if port_fwd_failed s \<noteq> 0 then PORT_FWD_FAIL_DELAY else 0)"
    "port_fwd_failed s' = 0" "TRIES s' = TRIES s" by blast+
qed

lemma triple_grace_backoff [hoare]:
  "triple calm (grace_backoff os) (\<lambda>_. calm) (\<lambda>q t. calm t \<and> ended os t q)"
proof (rule tripleI)
  fix s r s'
  assume "calm s" "grace_backoff os s = (r, s')"
  then show "case r of Return a \<Rightarrow> calm s' | _ \<Rightarrow> calm s' \<and> ended os s' (void r)"
    using tripleD [OF triple_sleep, of s os _ r s'] by (auto simp: grace_backoff_def split: if_splits)
qed

lemma triple_grace_port [hoare]:
  "triple calm (grace_port os) (\<lambda>_. calm) (\<lambda>q t. calm t \<and> ended os t q)"
proof (rule tripleI)
  fix s r s'
  assume c: "calm s" and run: "grace_port os s = (r, s')"
  have t: "triple calm (then_p (sleep_p os PORT_FWD_FAIL_DELAY) (modify_p (\<lambda>s. s\<lparr>port_fwd_failed := 0\<rparr>)))
    (\<lambda>_. calm) (\<lambda>q t. calm t \<and> ended os t q)"
    by (rule triple_then [OF triple_sleep], rule triple_modify) (simp add: calm_def)
  have "calm (errlog os LOG_INFO msg_port_fwd s)" using c by (simp add: calm_def errlog_upd)
  with c run tripleD [OF t] show "case r of Return a \<Rightarrow> calm s' | _ \<Rightarrow> calm s' \<and> ended os s' (void r)"
    by (auto simp: grace_port_def split: if_splits)
qed

lemma triple_grace_time: "triple calm (grace_time os l) (\<lambda>_. calm) (\<lambda>q t. calm t \<and> ended os t q)"
  unfolding grace_time_def [abs_def]
  by (rule triple_state, rule triple_comp [where f = "\<lambda>_. t" for t, OF triple_then [OF triple_grace_backoff triple_grace_port]])
     (simp add: calm_def tick_def)

lemma grace_time_kept:
  assumes "grace_time os l s = (r, s')"
  shows "config s' = config s" "start_count s' = start_count s" "start_time s' = start_time s"
    "cchild s' = cchild s" "ssh_stderr_fd s' = ssh_stderr_fd s" "sigenv s' = sigenv s"
    "kills (trace s') = kills (trace s)" "n_fork s' = n_fork s"
proof -
  let ?f = "\<lambda>s. (config s, start_count s, start_time s, cchild s, ssh_stderr_fd s, sigenv s,
    kills (trace s), n_fork s)"
  have sl: "?f t = ?f u" if "sleep_p os n u = (q, t)" for n u q t
    using sleep_state [OF that] sleep_keeps [OF that] by simp
  have b: "?f t = ?f u" if "grace_backoff os u = (q, t)" for u q t
    using that sl by (auto simp: grace_backoff_def split: if_splits)
  have p: "?f t = ?f u" if "grace_port os u = (q, t)" for u q t
  proof (cases "port_fwd_failed u = 0")
    case False
    obtain q' t' where "sleep_p os PORT_FWD_FAIL_DELAY (errlog os LOG_INFO msg_port_fwd u) = (q', t')"
      by fastforce
    with that False sl [OF this] show ?thesis
      by (cases q') (auto simp: grace_port_def modify_p_def errlog_upd sigenv_def)
  qed (use that in \<open>simp add: grace_port_def\<close>)
  obtain q t where g: "grace_backoff os ((tick s)\<lparr>TRIES := next_tries os l s\<rparr>) = (q, t)" by fastforce
  have "?f s' = ?f s"
    using assms g b [OF g] p [of t r s'] by (cases q) (auto simp: grace_time_def tick_def sigenv_def)
  then show "config s' = config s" "start_count s' = start_count s" "start_time s' = start_time s"
    "cchild s' = cchild s" "ssh_stderr_fd s' = ssh_stderr_fd s" "sigenv s' = sigenv s"
    "kills (trace s') = kills (trace s)" "n_fork s' = n_fork s" by simp_all
qed

section \<open>Claims\<close>

lemma grace_interval_range:
  assumes "0 < poll" "poll < 2 ^ 31" "N_FAST_TRIES < tries" "tries < 2 ^ 31"
  shows "0 \<le> grace_interval poll tries" "grace_interval poll tries \<le> poll"
proof -
  let ?t = "tries - N_FAST_TRIES"
  have i: "in_i32 poll" "in_i32 ?t" using assms by (auto simp: in_i32_def N_FAST_TRIES_def)
  have "0 \<le> f64_curve poll ?t" using assms by (intro grace.curve_nonneg) auto
  then have "0 \<le> f64_to_i32 (f64_curve poll ?t)"
    using f64_to_i32_le [of 0] by (simp add: in_i32_def)
  then show "0 \<le> grace_interval poll tries" "grace_interval poll tries \<le> poll"
    using assms(1) by (auto simp: grace_interval_eq [OF i])
qed

lemma grace_delay_eq:
  assumes "0 < poll" "poll < 2 ^ 31" "in_i32 tries"
  shows "grace_delay poll tries = (if tries > N_FAST_TRIES then grace_interval poll tries else 0)"
  using assms grace_interval_range [of poll tries]
  by (auto simp: grace_delay_def in_i32_def u32_id)

text \<open>The count, in integers: a session that lived long enough resets it.\<close>

lemma next_tries_cases:
  assumes "0 < poll_time s" "poll_time s < 2 ^ 31" "\<bar>now os s - l\<bar> \<le> 2 ^ 53"
  shows "next_tries os l s = (if max 10 (poll_time s div 10) \<le> now os s - l then 0 else i32 (TRIES s + 1))"
proof -
  have "difftime (now os s) l = of_int (now os s - l)" using assms(3) by (simp add: difftime_def f64_of_int_exact del: of_int_diff)
  moreover have "min_time (poll_time s) = of_int (max 10 (poll_time s div 10))"
    using assms(1,2) by (simp add: min_time_def tdiv_nonneg f64_of_int_exact max_def)
  ultimately show ?thesis by (simp add: next_tries_def del: of_int_diff)
qed

lemma in_i32_next_tries: "in_i32 (next_tries os l s)"
  by (simp add: next_tries_def) (simp add: in_i32_def)

text \<open>C36: The backoff curve, for every poll time and with the rounding of every floating-point
  step: the delay is never negative, never shrinks as failures accumulate, never exceeds the
  poll time, and equals the poll time from the twenty-third consecutive fast failure on.\<close>

theorem grace_interval_curve:
  assumes "0 < poll" "poll < 2 ^ 31" "N_FAST_TRIES < tries" "tries \<le> tries'" "tries' < 2 ^ 31"
  shows "0 \<le> grace_interval poll tries \<and> grace_interval poll tries \<le> grace_interval poll tries' \<and>
    grace_interval poll tries' \<le> poll \<and> (23 \<le> tries' \<longrightarrow> grace_interval poll tries' = poll)"
proof -
  let ?t = "tries - N_FAST_TRIES" and ?t' = "tries' - N_FAST_TRIES"
  have i: "in_i32 poll" "in_i32 ?t" "in_i32 ?t'" using assms by (auto simp: in_i32_def N_FAST_TRIES_def)
  have "f64_curve poll ?t \<le> f64_curve poll ?t'" using assms by (intro grace.curve_mono) auto
  then have "f64_to_i32 (f64_curve poll ?t) \<le> f64_to_i32 (f64_curve poll ?t')"
    by (rule f64_to_i32_mono)
  then have mono: "grace_interval poll tries \<le> grace_interval poll tries'"
    by (auto simp: grace_interval_eq i)
  have "poll \<le> f64_to_i32 (f64_curve poll ?t')" if "23 \<le> tries'"
    using grace.curve_saturates [of poll ?t'] that assms i(1)
    by (intro f64_to_i32_le) (auto simp: N_FAST_TRIES_def)
  then have "23 \<le> tries' \<longrightarrow> grace_interval poll tries' = poll"
    by (auto simp: grace_interval_eq i)
  with mono show ?thesis using grace_interval_range [of poll tries] grace_interval_range [of poll tries'] assms by auto
qed

theorem grace_interval_curve_witness:
  "grace_interval 600 6 = 2 \<and> grace_interval 600 16 = 241 \<and> grace_interval 600 23 = 600 \<and>
   grace_interval 600 6 \<le> grace_interval 600 23"
proof -
  have "grace_interval 600 6 = 2" "grace_interval 600 16 = 241" by code_simp+
  moreover have "grace_interval 600 6 \<le> grace_interval 600 23 \<and> grace_interval 600 23 = 600"
    using grace_interval_curve [of 600 6 23] by (simp add: N_FAST_TRIES_def)
  ultimately show ?thesis by simp
qed

text \<open>C37: The delay that \<^verbatim>\<open>grace_time\<close> itself puts before a start, when it returns. If the last
  start lies at least ten seconds, and at least a tenth of the poll time, in the past, the count
  of fast failures is reset to 0 and there is no backoff; otherwise the count goes up by one, and
  above five fast failures the process sleeps for the backoff interval of the count, at most the
  poll time. Five more seconds are slept when the last attempt failed to forward its port, and the
  flag for that is cleared.\<close>

theorem grace_time_delay:
  assumes run: "grace_time os last_start s = (Return (), s')"
    and poll: "0 < poll_time s" "poll_time s < 2 ^ 31" and clock: "\<bar>now os s - last_start\<bar> \<le> 2 ^ 53"
  shows "let port = (if port_fwd_failed s \<noteq> 0 then 5 else 0); waited = slept (trace s') - slept (trace s) in
    port_fwd_failed s' = 0 \<and> waited \<le> poll_time s + port \<and>
    (if max 10 (poll_time s div 10) \<le> now os s - last_start
     then TRIES s' = 0 \<and> waited = port
     else TRIES s' = i32 (TRIES s + 1) \<and>
       waited = (if i32 (TRIES s + 1) \<le> 5 then 0 else grace_interval (poll_time s) (i32 (TRIES s + 1))) + port)"
proof -
  let ?n = "next_tries os last_start s"
  let ?s1 = "(tick s)\<lparr>TRIES := ?n\<rparr>"
  obtain q t where b: "grace_backoff os ?s1 = (q, t)" by fastforce
  with run have q: "q = Return ()" and p: "grace_port os t = (Return (), s')"
    by (cases q; simp add: grace_time_def)+
  note b' = grace_backoff_effect [OF b [unfolded q]] and p' = grace_port_effect [OF p]
  have d: "grace_delay (poll_time s) ?n = (if ?n > N_FAST_TRIES then grace_interval (poll_time s) ?n else 0)"
    using poll in_i32_next_tries by (rule grace_delay_eq)
  have le: "?n > N_FAST_TRIES \<Longrightarrow> grace_interval (poll_time s) ?n \<le> poll_time s"
    using grace_interval_range(2) poll in_i32_next_tries [of os last_start s] by (simp add: in_i32_def)
  have e: "slept (trace s') = slept (trace s) + (if ?n > N_FAST_TRIES then grace_interval (poll_time s) ?n else 0)
      + (if port_fwd_failed s \<noteq> 0 then 5 else 0)" "port_fwd_failed s' = 0" "TRIES s' = ?n"
    using b' p' by (auto simp: tick_def d PORT_FWD_FAIL_DELAY_def)
  have n: "?n = (if max 10 (poll_time s div 10) \<le> now os s - last_start then 0 else i32 (TRIES s + 1))"
    by (rule next_tries_cases [OF poll clock])
  show ?thesis
  proof (cases "max 10 (poll_time s div 10) \<le> now os s - last_start")
    case True
    with e n poll show ?thesis by (simp add: N_FAST_TRIES_def)
  next
    case False
    then have "?n = i32 (TRIES s + 1)" unfolding n by (simp only: if_False)
    with False e le poll show ?thesis by (auto simp: N_FAST_TRIES_def Let_def)
  qed
qed

theorem grace_time_delay_witness:
  "let s = initial_proc\<lparr>TRIES := 6, port_fwd_failed := 1\<rparr>; s' = snd (grace_time idle_os 990 s);
       u' = snd (grace_time idle_os 100 s)
   in grace_time idle_os 990 s = (Return (), s') \<and> TRIES s' = 7 \<and> slept (trace s') = 13 \<and>
      grace_time idle_os 100 s = (Return (), u') \<and> TRIES u' = 0 \<and> slept (trace u') = 5"
proof -
  let ?s = "initial_proc\<lparr>TRIES := 6, port_fwd_failed := 1\<rparr>"
  have i: "grace_interval 600 7 = 8" by code_simp
  have "fst (grace_time idle_os l ?s) = Return ()" for l by (simp add: run)
  then have run: "grace_time idle_os l ?s = (Return (), snd (grace_time idle_os l ?s))" for l
    by (metis prod.collapse)
  show ?thesis
    using grace_time_delay [OF run [of 990]] grace_time_delay [OF run [of 100]] run i
    by (simp add: Let_def POLL_TIME_DEFAULT_def now_def in_i32_def)
qed

end
