(* ===== verification/Stderr_Drain.thy ===== *)
theory Stderr_Drain
  imports Lifetime
begin

text \<open>
  \<^verbatim>\<open>src/stderr_drain.rs\<close>: reading the child's stderr, forwarding it, and looking for the two
  fatal messages. \<^verbatim>\<open>strstr\<close> on the read buffer sees a chunk up to its first NUL byte
  (\<open>c_text\<close>).
\<close>

definition needle_port :: string where "needle_port = ''remote port forwarding failed''"
definition needle_stuck :: string where "needle_stuck = ''ssh-stuck-detector: STUCK''"

definition msg_port_failed :: string where
  "msg_port_failed = ''detected SSH error: remote port forwarding failed; will kill and restart ssh''"

definition msg_stuck :: string where
  "msg_stuck = ''stuck-detector flagged ssh hung in a network syscall; will kill and restart ssh''"

text \<open>The body of the read loop for the chunks still to come.\<close>

fun drain :: "os \<Rightarrow> string list \<Rightarrow> proc \<Rightarrow> int \<times> proc" where
  "drain os [] s = (0, s)"
| "drain os (buf # rest) s =
     (if buf = [] then (0, s)
      else
        let s1 = emit (WriteStderr buf) ((tick s)\<lparr>last_stderr_time := now os s\<rparr>)
        in if strstr (c_text buf) needle_port
           then (1, (errlog os LOG_ERR msg_port_failed s1)\<lparr>port_fwd_failed := 1\<rparr>)
           else if strstr (c_text buf) needle_stuck then (1, errlog os LOG_ERR msg_stuck s1)
           else drain os rest s1)"

definition check_ssh_stderr :: "os \<Rightarrow> proc \<Rightarrow> int \<times> proc" where
  "check_ssh_stderr os s =
     (if ssh_stderr_fd s < 0 then (0, s)
      else drain os (os_drain os (n_read s)) (s\<lparr>n_read := Suc (n_read s)\<rparr>))"

declare check_ssh_stderr_def [run]

section \<open>What a drain does\<close>

definition fatal :: "string \<Rightarrow> bool" where
  "fatal buf \<longleftrightarrow> strstr (c_text buf) needle_port \<or> strstr (c_text buf) needle_stuck"

text \<open>The chunks a drain reads: up to the first empty read, and up to the first fatal one.\<close>

fun consumed :: "string list \<Rightarrow> string list" where
  "consumed [] = []"
| "consumed (b # bs) = (if b = [] then [] else if fatal b then [b] else b # consumed bs)"

fun forwarded :: "effect list \<Rightarrow> string" where
  "forwarded [] = []"
| "forwarded (WriteStderr b # t) = b @ forwarded t"
| "forwarded (_ # t) = forwarded t"

lemma forwarded_append [simp]: "forwarded (a @ b) = forwarded a @ forwarded b"
  by (induction a rule: forwarded.induct) simp_all

lemma forwarded_log [simp]: "forwarded (log_trace os level m s) = forwarded (trace s)"
  by (simp add: log_trace_def log_effects_def split: option.split)

lemma drain_effect:
  "drain os bs s = (r, s') \<Longrightarrow>
   (r = 1 \<longleftrightarrow> (\<exists>b \<in> set (consumed bs). fatal b)) \<and> (r = 0 \<or> r = 1) \<and>
   forwarded (trace s') = forwarded (trace s) @ concat (consumed bs) \<and>
   (last_stderr_time s' = (if consumed bs = [] then last_stderr_time s
      else os_time os (n_time s + (length (consumed bs) - 1)))) \<and>
   n_time s' = n_time s + length (consumed bs)"
proof (induction bs arbitrary: s)
  case Nil
  then show ?case by simp
next
  case (Cons b bs)
  let ?s1 = "emit (WriteStderr b) ((tick s)\<lparr>last_stderr_time := now os s\<rparr>)"
  show ?case
  proof (cases "b = [] \<or> fatal b")
    case True
    with Cons.prems show ?thesis
      by (auto simp: fatal_def Let_def emit_def tick_def now_def errlog_upd split: if_splits)
  next
    case False
    with Cons.prems have "drain os bs ?s1 = (r, s')" by (auto simp: fatal_def Let_def)
    from Cons.IH [OF this] False show ?thesis
      by (cases "consumed bs") (auto simp: emit_def tick_def now_def)
  qed
qed

lemma drain_kept:
  "drain os bs s = (r, s') \<Longrightarrow>
   config s' = config s \<and> launch s' = launch s \<and> sigenv s' = sigenv s \<and> kills (trace s') = kills (trace s) \<and>
   slept (trace s') = slept (trace s) \<and>
   (cchild s', ssh_stderr_fd s', pipe_lost_time s', exit_signalled s', restart_ssh s', dolongjmp s',
    SECS_LEFT s', n_wait s', n_waitpid s', n_fork s') =
   (cchild s, ssh_stderr_fd s, pipe_lost_time s, exit_signalled s, restart_ssh s, dolongjmp s,
    SECS_LEFT s, n_wait s, n_waitpid s, n_fork s)"
proof (induction bs arbitrary: s)
  case Nil
  then show ?case by simp
next
  case (Cons b bs)
  let ?s1 = "emit (WriteStderr b) ((tick s)\<lparr>last_stderr_time := now os s\<rparr>)"
  show ?case
  proof (cases "b = [] \<or> fatal b")
    case True
    with Cons.prems show ?thesis
      by (auto simp: fatal_def Let_def emit_def tick_def errlog_upd sigenv_def split: if_splits)
  next
    case False
    with Cons.prems have "drain os bs ?s1 = (r, s')" by (auto simp: fatal_def Let_def)
    from Cons.IH [OF this] show ?thesis by (simp add: emit_def tick_def sigenv_def)
  qed
qed

lemma check_ssh_stderr_kept:
  assumes "check_ssh_stderr os s = (r, s')"
  shows "config s' = config s" "launch s' = launch s" "sigenv s' = sigenv s"
    "kills (trace s') = kills (trace s)" "slept (trace s') = slept (trace s)"
    "cchild s' = cchild s" "ssh_stderr_fd s' = ssh_stderr_fd s" "pipe_lost_time s' = pipe_lost_time s"
    "exit_signalled s' = exit_signalled s" "restart_ssh s' = restart_ssh s"
    "dolongjmp s' = dolongjmp s" "SECS_LEFT s' = SECS_LEFT s" "n_wait s' = n_wait s"
    "n_waitpid s' = n_waitpid s" "n_fork s' = n_fork s"
  using assms drain_kept [of os _ "s\<lparr>n_read := Suc (n_read s)\<rparr>" r s']
  by (auto simp: check_ssh_stderr_def sigenv_def split: if_splits)

lemma port_fwd_failed_drain:
  "drain os bs s = (r, s') \<Longrightarrow>
   port_fwd_failed s' =
     (if \<exists>b \<in> set (consumed bs). strstr (c_text b) needle_port then 1 else port_fwd_failed s)"
proof (induction bs arbitrary: s)
  case Nil
  then show ?case by simp
next
  case (Cons b bs)
  let ?s1 = "emit (WriteStderr b) ((tick s)\<lparr>last_stderr_time := now os s\<rparr>)"
  show ?case
  proof (cases "b = [] \<or> fatal b")
    case True
    with Cons.prems show ?thesis
      by (auto simp: fatal_def Let_def emit_def tick_def errlog_upd split: if_splits)
  next
    case False
    with Cons.prems have "drain os bs ?s1 = (r, s')" by (auto simp: fatal_def Let_def)
    from Cons.IH [OF this] False show ?thesis by (auto simp: emit_def tick_def fatal_def)
  qed
qed

section \<open>Claims\<close>

text \<open>C35: A drain of the child's stderr asks for a restart exactly when one of the chunks it read
  shows a fatal message, forwards exactly the bytes it read, stamps the time of the last chunk,
  raises the port flag exactly on the port-forwarding message, and sends no signal. Without a
  descriptor it does nothing.\<close>

theorem check_ssh_stderr_verdict:
  "let (r, s') = check_ssh_stderr os s;
       read = (if ssh_stderr_fd s < 0 then [] else consumed (os_drain os (n_read s)))
   in r = (if \<exists>b \<in> set read. fatal b then 1 else 0) \<and>
      forwarded (trace s') = forwarded (trace s) @ concat read \<and>
      last_stderr_time s' = (if read = [] then last_stderr_time s
        else os_time os (n_time s + (length read - 1))) \<and>
      port_fwd_failed s' = (if \<exists>b \<in> set read. strstr (c_text b) needle_port then 1
        else port_fwd_failed s) \<and>
      kills (trace s') = kills (trace s) \<and> cchild s' = cchild s"
proof (cases "ssh_stderr_fd s < 0")
  case True
  then show ?thesis by (simp add: check_ssh_stderr_def)
next
  case False
  let ?s = "s\<lparr>n_read := Suc (n_read s)\<rparr>"
  obtain r s' where d: "drain os (os_drain os (n_read s)) ?s = (r, s')" by fastforce
  with False have c: "check_ssh_stderr os s = (r, s')" by (simp add: check_ssh_stderr_def)
  have "r = (if \<exists>b \<in> set (consumed (os_drain os (n_read s))). fatal b then 1 else 0)"
    using drain_effect [OF d] by auto
  then show ?thesis
    using drain_effect [OF d] port_fwd_failed_drain [OF d] check_ssh_stderr_kept(4,6) [OF c] False c
    by (simp add: Let_def)
qed

theorem check_ssh_stderr_verdict_witness:
  "let os = idle_os\<lparr>os_drain := (\<lambda>_. [''ok'', ''Error: remote port forwarding failed for 80'', ''more''])\<rparr>;
       (r, s') = check_ssh_stderr os (initial_proc\<lparr>ssh_stderr_fd := 5\<rparr>)
   in r = 1 \<and> forwarded (trace s') = ''okError: remote port forwarding failed for 80'' \<and>
      port_fwd_failed s' = 1"
  using check_ssh_stderr_verdict
    [of "idle_os\<lparr>os_drain := (\<lambda>_. [''ok'', ''Error: remote port forwarding failed for 80'', ''more''])\<rparr>"
        "initial_proc\<lparr>ssh_stderr_fd := 5\<rparr>"]
  by (simp add: fatal_def c_text_def needle_port_def needle_stuck_def Let_def split: prod.splits)

text \<open>The scan looks at each read separately: a fatal message that the kernel splits over two
  reads is forwarded in full and yet not seen, so the verdict is no restart.\<close>

lemma split_message_missed:
  "\<exists>a b. strstr (a @ b) needle_port \<and>
     (let (r, s') = check_ssh_stderr (idle_os\<lparr>os_drain := (\<lambda>_. [a, b])\<rparr>) (initial_proc\<lparr>ssh_stderr_fd := 5\<rparr>)
      in r = 0 \<and> forwarded (trace s') = a @ b \<and> port_fwd_failed s' = 0)"
proof (intro exI)
  show "strstr (''remote port for'' @ ''warding failed'') needle_port \<and>
     (let (r, s') = check_ssh_stderr (idle_os\<lparr>os_drain := (\<lambda>_. [''remote port for'', ''warding failed''])\<rparr>)
          (initial_proc\<lparr>ssh_stderr_fd := 5\<rparr>)
      in r = 0 \<and> forwarded (trace s') = ''remote port for'' @ ''warding failed'' \<and> port_fwd_failed s' = 0)"
    by (simp add: check_ssh_stderr_def c_text_def needle_port_def needle_stuck_def Let_def emit_def tick_def)
qed

end
