(* ===== verification/Conn.thy ===== *)
theory Conn
  imports Stderr_Drain
begin

text \<open>
  \<^verbatim>\<open>src/conn.rs\<close>: the monitor connection. A message is written into the tunnel and must come
  back unchanged. Every network call takes its result from the kernel parameter; \<open>Socket\<close>
  effects record the descriptors that \<^verbatim>\<open>socket\<close> and \<^verbatim>\<open>accept\<close> hand out.
\<close>

abbreviation (input) NO_RD_SOCK :: int where "NO_RD_SOCK \<equiv> -2"
definition MAX_CONN_TRIES :: nat where "MAX_CONN_TRIES = 3"
definition MAX_MESSAGE :: nat where "MAX_MESSAGE = 64"
definition BUF_SZ :: nat where "BUF_SZ = 64 + 65 + MAX_MESSAGE"

definition net_call :: "proc \<Rightarrow> proc" where
  "net_call s = s\<lparr>n_net := Suc (n_net s)\<rparr>"

definition errno_str :: "os \<Rightarrow> int \<Rightarrow> string" where
  "errno_str os e = cstr_or (Some (os_strerror os e)) ''?''"

section \<open>Addresses and connections\<close>

definition conn_addr :: "os \<Rightarrow> (proc, unit) prog" where
  "conn_addr os s =
     (let err = os_gai os (n_net s) in
      if err \<noteq> 0 then xerrlog os LOG_ERR (cstr_or (Some (os_gai_strerror os err)) ''?'') (net_call s)
      else (Return (), net_call s))"

definition conn_socket :: "os \<Rightarrow> (proc, int) prog" where
  "conn_socket os s =
     (let (sock, e) = os_socket os (n_net s) in
      if sock = -1 then xerrlog os LOG_ERR (''socket: '' @ errno_str os e) (net_call s)
      else (Return sock, emit (Socket sock) (net_call s)))"

definition msg_remote :: "string \<Rightarrow> string \<Rightarrow> string \<Rightarrow> string" where
  "msg_remote h p e = cstr_or (Some h) [] @ '':'' @ cstr_or (Some p) [] @ '': '' @ e"

definition conn_connect :: "os \<Rightarrow> string \<Rightarrow> string \<Rightarrow> int \<Rightarrow> (proc, int) prog" where
  "conn_connect os host port sock s =
     (let (r, e) = os_connect os (n_net s) in
      if r = -1
      then (Return (-1), emit (Close sock) (errlog os LOG_INFO (msg_remote host port (errno_str os e)) (net_call s)))
      else (Return sock, net_call s))"

text \<open>The resolved address is kept in a function-scope static: \<^verbatim>\<open>conn_res\<close> says it is there.\<close>

definition conn_resolve :: "os \<Rightarrow> (proc, unit) prog" where
  "conn_resolve os s =
     (if conn_res s then (Return (), s)
      else then_p (conn_addr os) (modify_p (\<lambda>s. s\<lparr>conn_res := True\<rparr>)) s)"

definition conn_remote :: "os \<Rightarrow> string \<Rightarrow> string \<Rightarrow> (proc, int) prog" where
  "conn_remote os host port =
     then_p (conn_resolve os) (bind_p (conn_socket os) (conn_connect os host port))"

text \<open>A step of \<^verbatim>\<open>conn_listen\<close> after which a failure ends the program.\<close>

definition listen_step :: "os \<Rightarrow> (nat \<Rightarrow> int \<times> int) \<Rightarrow> (int \<Rightarrow> bool) \<Rightarrow> string \<Rightarrow> (proc, unit) prog" where
  "listen_step os call failed what s =
     (let (r, e) = call (n_net s) in
      if failed r then xerrlog os LOG_ERR (what @ errno_str os e) (net_call s)
      else (Return (), net_call s))"

definition msg_bind :: "string \<Rightarrow> string \<Rightarrow> string" where
  "msg_bind h p = ''bind on '' @ cstr_or (Some h) [] @ '':'' @ cstr_or (Some p) [] @ '': ''"

definition conn_listen :: "os \<Rightarrow> string \<Rightarrow> string \<Rightarrow> (proc, int) prog" where
  "conn_listen os host port =
     then_p (conn_addr os)
       (bind_p (conn_socket os) (\<lambda>sock.
          then_p (listen_step os (os_setsockopt os) (\<lambda>r. r \<noteq> 0) ''setsockopt: '')
            (then_p (listen_step os (os_bind os) (\<lambda>r. r = -1) (msg_bind host port))
              (then_p (listen_step os (os_listen os) (\<lambda>r. r < 0) ''listen: '')
                (return_p sock)))))"

section \<open>Polling\<close>

text \<open>
  \<^verbatim>\<open>poll\<close> with the network timeout. Signals may be handled while it blocks. \<open>revent rs i\<close> is
  \<^verbatim>\<open>pfds[i].revents\<close> after the call.
\<close>

definition net_poll :: "os \<Rightarrow> (proc, int \<times> int list \<times> int) prog" where
  "net_poll os s =
     then_p (async_point os)
       (\<lambda>s. (Return (os_poll os (n_net s)), net_call s)) (emit (NetPoll (net_timeout s)) s)"

definition revent :: "int list \<Rightarrow> nat \<Rightarrow> int" where
  "revent rs i = (if i < length rs then rs ! i else 0)"

definition conn_accept :: "os \<Rightarrow> (proc, int) prog" where
  "conn_accept os s =
     (let (rd, e) = os_accept os (n_net s) in
      if rd = -1
      then (Return (-1), errlog os LOG_ERR (''error accepting read connection: '' @ errno_str os e) (net_call s))
      else (Return rd, emit (Socket rd) (net_call s)))"

definition conn_poll_for_accept :: "os \<Rightarrow> (proc, int) prog" where
  "conn_poll_for_accept os =
     bind_p (net_poll os) (\<lambda>(n, revents, e) s.
       if n = 0 then (Return (-1), errlog os LOG_INFO ''timeout polling to accept read connection'' s)
       else if n = -1 then
         (Return (-1), errlog os LOG_ERR (''error polling to accept read connection: '' @ errno_str os e) s)
       else if has_flag (revent revents 0) POLLIN then conn_accept os s
       else (Return 0, s))"

section \<open>Sending and receiving\<close>

text \<open>The two inner loops, on the bytes still to be written and the room still to be filled.
  \<open>Inl\<close> is the early return with -1, carrying errno.\<close>

function net_write :: "os \<Rightarrow> int \<Rightarrow> string \<Rightarrow> proc \<Rightarrow> (int + string) \<times> proc" where
  "net_write os fd wp s =
     (if wp = [] then (Inr [], s)
      else case os_write os (n_net s) of
        WriteFail e \<Rightarrow> if e = EINTR \<or> e = EAGAIN then (Inr wp, net_call s) else (Inl e, net_call s)
      | Wrote n \<Rightarrow> if n = 0 then (Inr [], net_call s)
          else net_write os fd (drop n wp) (emit (NetWrite fd (take n wp)) (net_call s)))"
  by pat_completeness auto
termination by (relation "measure (\<lambda>(_, _, wp, _). length wp)") auto

function net_read :: "os \<Rightarrow> int \<Rightarrow> nat \<Rightarrow> string \<Rightarrow> proc \<Rightarrow> (int + nat \<times> string) \<times> proc" where
  "net_read os fd rleft got s =
     (if rleft = 0 then (Inr (0, got), s)
      else case os_recv os (n_net s) of
        ReadFail e \<Rightarrow> if e = EINTR \<or> e = EAGAIN then (Inr (rleft, got), net_call s) else (Inl e, net_call s)
      | Got b \<Rightarrow> if b = [] then (Inr (0, got), net_call s)
          else net_read os fd (rleft - length b) (got @ take rleft b)
                 (emit (NetRead fd (take rleft b)) (net_call s)))"
  by pat_completeness auto
termination by (relation "measure (\<lambda>(_, _, rleft, _, _). rleft)") auto

declare net_write.simps [simp del] net_read.simps [simp del]

text \<open>
  One round after a successful poll: the write part and the read part. The result is the bytes
  left to write, the room left and what has been received.
\<close>

definition io_round ::
  "os \<Rightarrow> int \<Rightarrow> int \<Rightarrow> nat \<Rightarrow> int list \<Rightarrow> string \<Rightarrow> nat \<Rightarrow> string \<Rightarrow> proc \<Rightarrow> (int + string \<times> nat \<times> string) \<times> proc" where
  "io_round os rd wr iwr revents wp rleft got s =
     (case (if wp \<noteq> [] \<and> has_flag (revent revents iwr) POLLOUT then net_write os wr wp s else (Inr wp, s)) of
        (Inl e, s) \<Rightarrow> (Inl e, s)
      | (Inr wp', s) \<Rightarrow>
          if has_flag (revent revents 0) POLLIN \<or> has_flag (revent revents 0) POLLHUP
          then case net_read os rd rleft got s of
            (Inl e, s) \<Rightarrow> (Inl e, s)
          | (Inr (rleft', got'), s) \<Rightarrow> (Inr (wp', rleft', got'), s)
          else (Inr (wp', rleft, got), s))"

text \<open>
  One turn of the outer loop up to the round counter: \<open>Inl\<close> is a return of the function (the
  code, the bytes received and errno), \<open>Inr\<close> goes on.
\<close>

definition send_round ::
  "os \<Rightarrow> int \<Rightarrow> int \<Rightarrow> nat \<Rightarrow> string \<Rightarrow> nat \<Rightarrow> string \<Rightarrow> (proc, (int \<times> string \<times> int) + string \<times> nat \<times> string) prog" where
  "send_round os rd wr iwr wp rleft got =
     bind_p (net_poll os) (\<lambda>(n, revents, e) s.
       if n = 0 then (Return (Inl (1, got, 0)), s)
       else if n = -1 then (Return (Inl (-1, got, e)), s)
       else case io_round os rd wr iwr revents wp rleft got s of
         (Inl e, s) \<Rightarrow> (Return (Inl (-1, got, e)), s)
       | (Inr v, s) \<Rightarrow> (Return (Inr v), s))"

text \<open>The outer loop, by the number of rounds done; a round count above ten ends it.\<close>

function send_loop ::
  "os \<Rightarrow> int \<Rightarrow> int \<Rightarrow> nat \<Rightarrow> nat \<Rightarrow> string \<Rightarrow> nat \<Rightarrow> string \<Rightarrow> (proc, int \<times> string \<times> int) prog" where
  "send_loop os rd wr iwr loops wp rleft got =
     (if rleft = 0 then return_p (0, got, 0)
      else bind_p (send_round os rd wr iwr wp rleft got) (\<lambda>x. case x of
        Inl v \<Rightarrow> return_p v
      | Inr (wp', rleft', got') \<Rightarrow>
          if Suc loops > 5 then
            then_p (sleep_p os 1)
              (if Suc loops > 10
               then (\<lambda>s. (Return (-1, got', os_errno os (n_net s)),
                         errlog os LOG_INFO ''too many loops without data'' s))
               else send_loop os rd wr iwr (Suc loops) wp' rleft' got')
          else send_loop os rd wr iwr (Suc loops) wp' rleft' got'))"
  by pat_completeness auto
termination
  by (relation "measure (\<lambda>(_, _, _, _, loops, _, _, _). 11 - loops)") auto

declare send_loop.simps [simp del]

definition conn_send_and_receive :: "os \<Rightarrow> string \<Rightarrow> int \<Rightarrow> int \<Rightarrow> int \<Rightarrow> (proc, int \<times> string \<times> int) prog" where
  "conn_send_and_receive os wbuf rd wr ntopoll =
     send_loop os rd wr (if ntopoll = 2 then 1 else 0) 0 wbuf (length wbuf) []"

section \<open>The test\<close>

definition conn_message :: "os \<Rightarrow> int \<Rightarrow> proc \<Rightarrow> string" where
  "conn_message os rid s =
     os_nodename os @ '' '' @ (case os_progname os of None \<Rightarrow> ''autossh'' | Some p \<Rightarrow> p) @ '' ''
     @ show_int (i32 (os_pid os)) @ '' '' @ show_int rid @ '' '' @ echo_message s @ [CHR 0x0D, CHR 0x0A]"

definition shut :: "int \<Rightarrow> proc \<Rightarrow> proc" where
  "shut fd s = emit (Close fd) (emit (Shutdown fd) s)"

definition msg_not_sent :: "string \<Rightarrow> string \<Rightarrow> string" where
  "msg_not_sent w r = ''not what I sent: \"'' @ cstr_or (Some w) [] @ ''\" : \"'' @ cstr_or (Some r) [] @ ''\"''"

text \<open>The read side of one attempt: the accepted descriptor, or none when the tunnel echoes.\<close>

definition conn_rd :: "os \<Rightarrow> int \<Rightarrow> int \<Rightarrow> (proc, int) prog" where
  "conn_rd os sock rd = (if sock \<noteq> NO_RD_SOCK then conn_poll_for_accept os else return_p rd)"

text \<open>
  One attempt: \<open>Inl\<close> breaks out of the loop with the verdict and the read descriptor, \<open>Inr\<close>
  goes on to the next attempt with the read descriptor.
\<close>

definition conn_check :: "os \<Rightarrow> int \<Rightarrow> string \<Rightarrow> int \<times> string \<times> int \<Rightarrow> (proc, int \<times> int + int) prog" where
  "conn_check os rd wbuf r s =
     (case r of (send_error, got, e) \<Rightarrow>
        if send_error = 0 then
          (if c_text got = wbuf then (Return (Inl (1, rd)), errlog os LOG_DEBUG ''connection ok'' s)
           else (Return (Inr rd), errlog os LOG_DEBUG (msg_not_sent wbuf (c_text got)) s))
        else if send_error = 1 then
          (Return (Inr rd), errlog os LOG_DEBUG ''timeout on io poll, looping to accept again'' s)
        else (Return (Inl (0, rd)), errlog os LOG_DEBUG (''error on poll: '' @ errno_str os e) s))"

definition conn_exchange :: "os \<Rightarrow> int \<Rightarrow> int \<Rightarrow> int \<Rightarrow> string \<Rightarrow> (proc, int \<times> int + int) prog" where
  "conn_exchange os sock wd rd wbuf =
     bind_p (conn_rd os sock rd) (\<lambda>rd.
       if sock \<noteq> NO_RD_SOCK \<and> rd < 0 then return_p (Inl (0, rd))
       else bind_p (if sock \<noteq> NO_RD_SOCK then conn_send_and_receive os wbuf rd wd 2
                    else conn_send_and_receive os wbuf wd wd 1)
         (conn_check os rd wbuf))"

definition conn_attempt :: "os \<Rightarrow> int \<Rightarrow> int \<Rightarrow> int \<Rightarrow> int \<Rightarrow> (proc, int \<times> int + int) prog" where
  "conn_attempt os sock wd rid rd s =
     (let stale = sock \<noteq> NO_RD_SOCK \<and> rd \<noteq> -1;
          s = (if stale then shut rd s else s);
          wbuf = conn_message os rid s
      in if length wbuf \<ge> BUF_SZ then xerrlog os LOG_ERR ''conn_test: buffer overflow'' s
         else conn_exchange os sock wd (if stale then -1 else rd) wbuf s)"

definition msg_tried :: "nat \<Rightarrow> string" where
  "msg_tried n = ''tried connection '' @ show_nat n @ '' times and failed''"

text \<open>The loop of \<^verbatim>\<open>conn_test\<close>: the verdict and the last read descriptor.\<close>

function conn_tries :: "os \<Rightarrow> int \<Rightarrow> int \<Rightarrow> int \<Rightarrow> nat \<Rightarrow> int \<Rightarrow> (proc, int \<times> int) prog" where
  "conn_tries os sock wd rid tries rd =
     (if tries \<ge> MAX_CONN_TRIES then return_p (0, rd)
      else if Suc tries \<ge> MAX_CONN_TRIES
      then (\<lambda>s. (Return (0, rd), errlog os LOG_DEBUG (msg_tried (Suc tries)) s))
      else bind_p (conn_attempt os sock wd rid rd) (\<lambda>x. case x of
        Inl v \<Rightarrow> return_p v
      | Inr rd \<Rightarrow> conn_tries os sock wd rid (Suc tries) rd))"
  by pat_completeness auto
termination
  by (relation "measure (\<lambda>(_, _, _, _, tries, _). 3 - tries)") (auto simp: MAX_CONN_TRIES_def)

declare conn_tries.simps [simp del]

definition conn_test :: "os \<Rightarrow> int \<Rightarrow> string \<Rightarrow> string \<Rightarrow> (proc, int) prog" where
  "conn_test os sock host write_port s =
     (let rid = os_random os (n_net s) in
      bind_p (conn_remote os host write_port) (\<lambda>wd.
        if wd = -1 then return_p 0
        else bind_p (conn_tries os sock wd rid 0 (-1)) (\<lambda>(rval, rd) s.
          let s = shut wd s in
          (Return rval, if sock \<noteq> NO_RD_SOCK \<and> rd \<noteq> -1 then shut rd s else s)))
        (net_call s))"

section \<open>What the monitor leaves alone\<close>

text \<open>
  The contracts under which the monitor code is verified once: a predicate \<open>I\<close> on the process
  that survives the input and output of the monitor, its log lines and its bookkeeping, and a
  predicate \<open>E\<close> on abrupt ends that covers interrupted waits. The second contract adds the calls
  that hand out or give back descriptors, and the orderly exits.
\<close>

fun io_effect :: "effect \<Rightarrow> bool" where
  "io_effect (NetPoll _) = True"
| "io_effect (NetWrite _ _) = True"
| "io_effect (NetRead _ _) = True"
| "io_effect (Sleep n) = (n = 1)"
| "io_effect _ = False"

fun fd_effect :: "effect \<Rightarrow> bool" where
  "fd_effect (Socket _) = True"
| "fd_effect (Close _) = True"
| "fd_effect (Shutdown _) = True"
| "fd_effect _ = False"

locale io_frame =
  fixes os :: os and I :: "proc \<Rightarrow> bool" and E :: "unit flow \<Rightarrow> proc \<Rightarrow> bool"
  assumes I_io: "I s \<Longrightarrow> io_effect e \<Longrightarrow> I (emit e s)"
    and I_log: "I s \<Longrightarrow> I (errlog os l m s)"
    and I_call: "I s \<Longrightarrow> I (net_call s)"
    and async: "I s \<Longrightarrow> ok (\<lambda>_. I) E (async_point os s)"
begin

lemmas I_intros = I_io I_log I_call

lemma net_poll_ok: "I s \<Longrightarrow> ok (\<lambda>_. I) E (net_poll os s)"
  by (auto simp: net_poll_def intro!: ok_then [where R = I] async I_intros)

lemma net_write_I: "I s \<Longrightarrow> I (snd (net_write os fd wp s))"
proof (induction os\<equiv>os fd wp s rule: net_write.induct)
  case (1 fd wp s)
  show ?case
    by (subst net_write.simps) (use 1 in \<open>auto simp: I_io I_call split: io_write.split\<close>)
qed

lemma net_read_I: "I s \<Longrightarrow> I (snd (net_read os fd k got s))"
proof (induction os\<equiv>os fd k got s rule: net_read.induct)
  case (1 fd k got s)
  show ?case
    by (subst net_read.simps) (use 1 in \<open>auto simp: I_io I_call split: io_read.split\<close>)
qed

lemma io_round_I:
  assumes "io_round os rd wr i rs wp k got s = (q, t)" and "I s"
  shows "I t"
proof -
  obtain x u where w: "(if wp \<noteq> [] \<and> has_flag (revent rs i) POLLOUT then net_write os wr wp s else (Inr wp, s)) = (x, u)"
    by fastforce
  have u: "I u" using w net_write_I [OF assms(2), of wr wp] assms(2) by (auto split: if_splits)
  obtain y v where r: "net_read os rd k got u = (y, v)" by fastforce
  have "I v" using net_read_I [OF u, of rd k got] r by simp
  then show ?thesis
    using assms(1) u r unfolding io_round_def w by (auto split: sum.splits if_splits)
qed

lemma sleep_ok: "I s \<Longrightarrow> ok (\<lambda>_. I) E (sleep_p os 1 s)"
  by (auto simp: sleep_p_def intro!: async I_intros)

lemma send_round_ok: "I s \<Longrightarrow> ok (\<lambda>_. I) E (send_round os rd wr i wp k got s)"
  unfolding send_round_def
  by (rule ok_bind [where R = "\<lambda>_. I", OF net_poll_ok])
    (auto split: sum.split prod.split dest: io_round_I)

lemma send_loop_ok: "I s \<Longrightarrow> ok (\<lambda>_. I) E (send_loop os rd wr i loops wp k got s)"
proof (induction os\<equiv>os rd wr i loops wp k got arbitrary: s rule: send_loop.induct)
  case (1 rd wr i loops wp k got)
  show ?case
  proof (cases "k = 0")
    case True
    with 1(3) show ?thesis by (simp add: send_loop.simps)
  next
    case False
    have IH: "ok (\<lambda>_. I) E (send_loop os rd wr i (Suc loops) a b c t)" if "I t" "loops \<le> 9" for a b c t
      using 1(1,2) [OF False] that by (cases "4 < loops") auto
    from False show ?thesis
      by (subst send_loop.simps)
        (auto intro!: ok_bind [where R = "\<lambda>_. I"] send_round_ok 1(3) ok_then [where R = I] sleep_ok
          I_log IH split: sum.split)
  qed
qed

lemma conn_send_and_receive_ok: "I s \<Longrightarrow> ok (\<lambda>_. I) E (conn_send_and_receive os w rd wr n s)"
  unfolding conn_send_and_receive_def by (rule send_loop_ok)

end

locale net_frame = io_frame +
  assumes I_fd: "I s \<Longrightarrow> fd_effect e \<Longrightarrow> I (emit e s)"
    and I_res: "I s \<Longrightarrow> I (s\<lparr>conn_res := True\<rparr>)"
    and fail: "I s \<Longrightarrow> ok (\<lambda>_ _. False) E (xerrlog os l m s :: unit flow \<times> proc)"
begin

lemmas I_all = I_intros I_fd I_res xerrlog_ok [OF fail]

lemma conn_addr_ok: "I s \<Longrightarrow> ok (\<lambda>_. I) E (conn_addr os s)"
  by (auto simp: conn_addr_def Let_def intro!: I_all)

lemma conn_socket_ok: "I s \<Longrightarrow> ok (\<lambda>_. I) E (conn_socket os s)"
  by (auto simp: conn_socket_def Let_def split: prod.split intro!: I_all)

lemma conn_connect_ok: "I s \<Longrightarrow> ok (\<lambda>_. I) E (conn_connect os h p k s)"
  by (auto simp: conn_connect_def Let_def split: prod.split intro!: I_all)

lemma conn_resolve_ok: "I s \<Longrightarrow> ok (\<lambda>_. I) E (conn_resolve os s)"
  by (auto simp: conn_resolve_def modify_p_def intro!: I_all ok_then [where R = I] conn_addr_ok)

lemma conn_remote_ok: "I s \<Longrightarrow> ok (\<lambda>_. I) E (conn_remote os h p s)"
  unfolding conn_remote_def
  by (intro ok_then [where R = I] ok_bind [where R = "\<lambda>_. I"] conn_resolve_ok conn_socket_ok conn_connect_ok)

lemma listen_step_ok: "I s \<Longrightarrow> ok (\<lambda>_. I) E (listen_step os call failed w s)"
  by (auto simp: listen_step_def Let_def split: prod.split intro!: I_all)

lemma conn_listen_ok: "I s \<Longrightarrow> ok (\<lambda>_. I) E (conn_listen os h p s)"
  unfolding conn_listen_def
  by (intro ok_then [where R = I] ok_bind [where R = "\<lambda>_. I"] conn_addr_ok conn_socket_ok listen_step_ok)
    simp_all

lemma conn_accept_ok: "I s \<Longrightarrow> ok (\<lambda>_. I) E (conn_accept os s)"
  by (auto simp: conn_accept_def Let_def split: prod.split intro!: I_all)

lemma conn_poll_for_accept_ok: "I s \<Longrightarrow> ok (\<lambda>_. I) E (conn_poll_for_accept os s)"
  unfolding conn_poll_for_accept_def
  by (rule ok_bind [OF net_poll_ok]) (auto intro: conn_accept_ok I_all)

lemma shut_I: "I s \<Longrightarrow> I (shut fd s)"
  by (simp add: shut_def I_fd)

lemma conn_rd_ok: "I s \<Longrightarrow> ok (\<lambda>_. I) E (conn_rd os sock rd s)"
  by (simp add: conn_rd_def conn_poll_for_accept_ok)

lemma conn_check_ok: "I s \<Longrightarrow> ok (\<lambda>_. I) E (conn_check os rd w r s)"
  by (auto simp: conn_check_def I_log split: prod.split)

lemma conn_exchange_ok: "I s \<Longrightarrow> ok (\<lambda>_. I) E (conn_exchange os sock wd rd w s)"
  unfolding conn_exchange_def
  by (rule ok_bind [where R = "\<lambda>_. I", OF conn_rd_ok])
    (auto intro!: ok_bind [where R = "\<lambda>_. I"] conn_send_and_receive_ok conn_check_ok)

lemma conn_attempt_ok: "I s \<Longrightarrow> ok (\<lambda>_. I) E (conn_attempt os sock wd rid rd s)"
  by (simp add: conn_attempt_def Let_def conn_exchange_ok shut_I xerrlog_ok [OF fail])

lemma conn_tries_ok: "I s \<Longrightarrow> ok (\<lambda>_. I) E (conn_tries os sock wd rid tries rd s)"
proof (induction os\<equiv>os sock wd rid tries rd arbitrary: s rule: conn_tries.induct)
  case (1 sock wd rid tries rd)
  from 1(2) show ?case
    by (subst conn_tries.simps)
      (auto intro!: ok_bind [where R = "\<lambda>_. I", OF conn_attempt_ok] 1(1) I_log split: sum.split)
qed

lemma conn_test_ok: "I s \<Longrightarrow> ok (\<lambda>_. I) E (conn_test os sock h p s)"
  unfolding conn_test_def Let_def
  by (intro ok_bind [where R = "\<lambda>_. I", OF conn_remote_ok] ok_bind [where R = "\<lambda>_. I", OF conn_tries_ok])
    (auto intro!: ok_bind [where R = "\<lambda>_. I", OF conn_tries_ok] shut_I I_call)

end

text \<open>
  The contract holds for everything the supervisor keeps, signals sent included, for the
  disarmed state of the jump flag, and for the bytes received so far, which only grow.
\<close>

definition conn_frame :: "proc \<Rightarrow> _" where
  "conn_frame s = (config s, launch s, sigenv s, kills (trace s), cchild s, ssh_stderr_fd s,
     (pipe_lost_time s, last_stderr_time s, port_fwd_failed s, SECS_LEFT s),
     (n_time s, n_read s, n_alarm s, n_wait s, n_waitpid s, n_pipe s, n_fork s))"

fun received :: "effect list \<Rightarrow> string" where
  "received [] = []"
| "received (NetRead _ b # t) = b @ received t"
| "received (_ # t) = received t"

lemma received_append [simp]: "received (a @ b) = received a @ received b"
  by (induction a rule: received.induct) simp_all

lemma received_log [simp]: "received (log_trace os level m s) = received (trace s)"
  by (simp add: log_trace_def log_effects_def split: option.split)

lemma net_effect_kills: "io_effect e \<or> fd_effect e \<Longrightarrow> kills [e] = []"
  by (cases e) auto

lemma xerrlog_abrupt: "ok (\<lambda>_ _. False) (\<lambda>_ _. True) (xerrlog os l m s :: unit flow \<times> proc)"
  using xerrlog_never_returns [of os l m s "()"]
  by (cases "xerrlog os l m s :: unit flow \<times> proc"; cases "fst (xerrlog os l m s :: unit flow \<times> proc)") auto

lemma async_ok:
  assumes "\<And>s x. f (s\<lparr>restart_ssh := x\<rparr>) = f s" "\<And>s x. f (s\<lparr>exit_signalled := x\<rparr>) = f s"
    and "\<And>s x. f (s\<lparr>dolongjmp := x\<rparr>) = f s" "\<And>s x. f (s\<lparr>n_async := x\<rparr>) = f s"
  shows "ok (\<lambda>_ t. f t = f s) (\<lambda>_ t. f t = f s) (async_point os s)"
proof -
  obtain r t where run: "async_point os s = (r, t)" by fastforce
  then have "f t = f s" by (rule async_frame) (fact assms)+
  with run show ?thesis by (cases r) auto
qed

interpretation monitor_keeps: net_frame os "\<lambda>s. conn_frame s = c" "\<lambda>_ _. True" for os c
proof
  fix s
  assume c: "conn_frame s = c"
  show "ok (\<lambda>_ s. conn_frame s = c) (\<lambda>_ _. True) (async_point os s)"
    by (rule ok_mono [OF async_ok [of conn_frame s os]]) (use c in \<open>simp_all add: conn_frame_def\<close>)
  show "io_effect e \<Longrightarrow> conn_frame (emit e s) = c" "fd_effect e \<Longrightarrow> conn_frame (emit e s) = c" for e
    using c by (auto simp: conn_frame_def emit_def net_effect_kills simp del: kills.simps)
qed (auto simp: conn_frame_def errlog_upd net_call_def sigenv_def intro: xerrlog_abrupt)

interpretation monitor_calm: net_frame os calm "\<lambda>r t. calm t \<and> (r = Exit 1 \<or> ended os t r)" for os
proof
  fix s
  assume "calm s"
  then show "ok (\<lambda>_. calm) (\<lambda>r t. calm t \<and> (r = Exit 1 \<or> ended os t r)) (async_point os s)"
    by (rule ok_mono [OF ok_triple [OF triple_async_point]]) auto
qed (auto simp: calm_def emit_def errlog_upd net_call_def intro: xerrlog_calm [unfolded calm_def])

interpretation monitor_reads: net_frame os "\<lambda>s. \<exists>p. received (trace s) = c @ p" "\<lambda>_ _. True" for os c
proof
  fix s :: proc
  assume c: "\<exists>p. received (trace s) = c @ p"
  show "ok (\<lambda>_ s. \<exists>p. received (trace s) = c @ p) (\<lambda>_ _. True) (async_point os s)"
    by (rule ok_mono [OF async_ok [of "\<lambda>s. received (trace s)" s os]]) (use c in simp_all)
qed (auto simp: emit_def errlog_upd net_call_def intro: xerrlog_abrupt)

section \<open>What the verdict means\<close>

lemma net_read_spec:
  "net_read os fd k got s = (Inr (k', got'), t) \<Longrightarrow>
   \<exists>d. got' = got @ d \<and> received (trace t) = received (trace s) @ d \<and> length d + k' \<le> k"
proof (induction os fd k got s rule: net_read.induct)
  case (1 os fd k got s)
  show ?case
  proof (cases "k = 0 \<or> (\<forall>b. os_recv os (n_net s) = Got b \<longrightarrow> b = [])")
    case True
    with 1(2) show ?thesis
      by (subst (asm) net_read.simps) (auto simp: net_call_def split: io_read.splits if_splits)
  next
    case False
    then obtain b where b: "os_recv os (n_net s) = Got b" "b \<noteq> []" by auto
    with False 1(2) have "net_read os fd (k - length b) (got @ take k b)
        (emit (NetRead fd (take k b)) (net_call s)) = (Inr (k', got'), t)"
      by (subst (asm) net_read.simps) auto
    from 1(1) [OF _ b(1,2) this] False show ?thesis
      by (auto simp: emit_def net_call_def)
  qed
qed

lemma net_write_received: "received (trace (snd (net_write os fd wp s))) = received (trace s)"
proof (induction os fd wp s rule: net_write.induct)
  case (1 os fd wp s)
  then show ?case
    by (subst net_write.simps) (auto simp: emit_def net_call_def split: io_write.split)
qed

lemma io_round_spec:
  assumes "io_round os rd wr i rs wp k got s = (Inr (wp', k', got'), t)"
  shows "\<exists>d. got' = got @ d \<and> received (trace t) = received (trace s) @ d \<and> length d + k' \<le> k"
proof -
  obtain x u where w: "(if wp \<noteq> [] \<and> has_flag (revent rs i) POLLOUT then net_write os wr wp s else (Inr wp, s)) = (x, u)"
    by fastforce
  have u: "received (trace u) = received (trace s)"
    using w net_write_received [of os wr wp s] by (auto split: if_splits)
  show ?thesis
    using assms u net_read_spec [of os rd k got u k' got' t] unfolding io_round_def w
    by (auto split: sum.splits if_splits prod.splits)
qed

lemma net_poll_received:
  "ok (\<lambda>_ t. received (trace t) = received (trace s)) (\<lambda>_ _. True) (net_poll os s)"
  unfolding net_poll_def
  by (rule ok_then [where R = "\<lambda>t. received (trace t) = received (trace s)"])
    (rule ok_mono [OF async_ok [of "\<lambda>s. received (trace s)"]], auto simp: emit_def net_call_def)

definition round_ok ::
  "string \<Rightarrow> proc \<Rightarrow> nat \<Rightarrow> (int \<times> string \<times> int) + (string \<times> nat \<times> string) \<Rightarrow> proc \<Rightarrow> bool" where
  "round_ok got s k x t \<longleftrightarrow> (case x of Inl (c, _, _) \<Rightarrow> c = 1 \<or> c = -1
     | Inr (wp', k', got') \<Rightarrow>
         \<exists>d. got' = got @ d \<and> received (trace t) = received (trace s) @ d \<and> length d + k' \<le> k)"

lemma send_round_spec: "ok (round_ok got s k) (\<lambda>_ _. True) (send_round os rd wr i wp k got s)"
  unfolding send_round_def
proof (rule ok_bind [OF net_poll_received], clarify)
  fix n rs e and t :: proc
  assume t: "received (trace t) = received (trace s)"
  obtain q u where r: "io_round os rd wr i rs wp k got t = (q, u)" by fastforce
  show "ok (round_ok got s k) (\<lambda>_ _. True)
     (if n = 0 then (Return (Inl (1, got, 0)), t) else if n = -1 then (Return (Inl (-1, got, e)), t)
      else case io_round os rd wr i rs wp k got t of (Inl e, s) \<Rightarrow> (Return (Inl (-1, got, e)), s)
       | (Inr v, s) \<Rightarrow> (Return (Inr v), s))"
    using io_round_spec [of os rd wr i rs wp k got t] r t by (auto simp: round_ok_def split: sum.split)
qed

text \<open>What a successful exchange has received, and what an attempt that ends the test has seen.\<close>

definition got_all :: "string \<Rightarrow> proc \<Rightarrow> nat \<Rightarrow> int \<times> string \<times> int \<Rightarrow> proc \<Rightarrow> bool" where
  "got_all got s k r t \<longleftrightarrow> (case r of (c, got', e) \<Rightarrow> c = 0 \<longrightarrow>
     (\<exists>d. got' = got @ d \<and> received (trace t) = received (trace s) @ d \<and> length d \<le> k))"

definition echoed :: "proc \<Rightarrow> string \<Rightarrow> proc \<Rightarrow> bool" where
  "echoed s w t \<longleftrightarrow> (\<exists>p. received (trace t) = received (trace s) @ p @ w)"

definition verdict_ok :: "proc \<Rightarrow> string \<Rightarrow> int \<times> int + int \<Rightarrow> proc \<Rightarrow> bool" where
  "verdict_ok s w x t \<longleftrightarrow> (case x of Inl (v, rd) \<Rightarrow> v = 0 \<or> v = 1 \<and> echoed s w t | Inr _ \<Rightarrow> True)"

lemma send_loop_spec: "ok (got_all got s k) (\<lambda>_ _. True) (send_loop os rd wr i loops wp k got s)"
proof (induction os rd wr i loops wp k got arbitrary: s rule: send_loop.induct)
  case (1 os rd wr i loops wp k got)
  show ?case
  proof (cases "k = 0")
    case True
    then show ?thesis by (simp add: send_loop.simps got_all_def)
  next
    case False
    have IH: "ok (got_all got s k) (\<lambda>_ _. True) (send_loop os rd wr i (Suc loops) a b (got @ d) t)"
      if "received (trace t) = received (trace s) @ d" "length d + b \<le> k" "loops \<le> 9" for a b d and t :: proc
    proof -
      have "ok (got_all (got @ d) t b) (\<lambda>_ _. True) (send_loop os rd wr i (Suc loops) a b (got @ d) t)"
        using 1(1,2) [OF False] that(3) by (cases "4 < loops") auto
      then show ?thesis by (rule ok_mono) (use that in \<open>fastforce simp: got_all_def\<close>)+
    qed
    have sl: "ok (\<lambda>_ u. received (trace u) = received (trace t)) (\<lambda>_ _. True) (sleep_p os 1 t)"
      for t :: proc
      unfolding sleep_p_def by (rule ok_mono [OF async_ok [of "\<lambda>s. received (trace s)"]]) (auto simp: emit_def)
    from False show ?thesis
      by (subst send_loop.simps)
        (auto intro!: ok_bind [OF send_round_spec] IH ok_then [OF sl] simp: got_all_def round_ok_def
          split: sum.split)
  qed
qed

lemma c_text_full: "length got \<le> length (c_text got) \<Longrightarrow> c_text got = got"
  unfolding c_text_def by (metis le_antisym length_takeWhile_le takeWhile_eq_take take_all_iff)

lemma conn_exchange_sound: "ok (verdict_ok s w) (\<lambda>_ _. True) (conn_exchange os sock wd rd w s)"
proof -
  have sr: "ok (verdict_ok s w) (\<lambda>_ _. True)
     (bind_p (conn_send_and_receive os w a b n) (conn_check os c w) u)"
    if "\<exists>p. received (trace u) = received (trace s) @ p" for a b c n u
    unfolding conn_send_and_receive_def
    by (rule ok_bind [OF send_loop_spec])
      (use that in \<open>auto simp: conn_check_def verdict_ok_def got_all_def echoed_def errlog_upd dest!: c_text_full\<close>)
  show ?thesis
    unfolding conn_exchange_def
    by (rule ok_bind [OF monitor_reads.conn_rd_ok [where c = "received (trace s)"]])
      (auto intro: sr simp: verdict_ok_def)
qed

lemma conn_attempt_sound:
  "ok (verdict_ok s (conn_message os rid s)) (\<lambda>_ _. True) (conn_attempt os sock wd rid rd s)"
proof -
  have m: "conn_message os rid (shut rd s) = conn_message os rid s"
    and r: "verdict_ok (shut rd s) w = verdict_ok s w" for w
    by (auto simp: conn_message_def shut_def emit_def verdict_ok_def echoed_def fun_eq_iff
        split: sum.split)
  have e: "ok Q (\<lambda>_ _. True) (xerrlog os l m t)" for Q l m t
    by (rule xerrlog_ok [OF xerrlog_abrupt])
  show ?thesis
    using conn_exchange_sound [of "shut rd s" "conn_message os rid s" os sock wd "-1"]
    by (simp add: conn_attempt_def Let_def m e r conn_exchange_sound)
qed

lemma conn_message_frame: "conn_frame t = conn_frame s \<Longrightarrow> conn_message os rid t = conn_message os rid s"
  by (simp add: conn_message_def conn_frame_def config_def)

lemma conn_tries_sound:
  "ok (\<lambda>(v, rd') t. v = 0 \<or> v = 1 \<and> echoed s (conn_message os rid s) t) (\<lambda>_ _. True)
     (conn_tries os sock wd rid tries rd s)"
proof (induction os sock wd rid tries rd arbitrary: s rule: conn_tries.induct)
  case (1 os sock wd rid tries rd)
  have att: "ok (\<lambda>x t. verdict_ok s (conn_message os rid s) x t \<and>
      (\<exists>p. received (trace t) = received (trace s) @ p) \<and> conn_frame t = conn_frame s)
      (\<lambda>_ _. True) (conn_attempt os sock wd rid rd s)"
    using ok_conj [OF conn_attempt_sound [of s os rid sock wd rd] ok_conj [OF
        monitor_reads.conn_attempt_ok [of s "received (trace s)" os sock wd rid rd]
        monitor_keeps.conn_attempt_ok [of s "conn_frame s" os sock wd rid rd]]] by simp
  have go: "ok (\<lambda>(v, rd') t. v = 0 \<or> v = 1 \<and> echoed s (conn_message os rid s) t) (\<lambda>_ _. True)
      (conn_tries os sock wd rid (Suc tries) rd' u)"
    if "\<not> MAX_CONN_TRIES \<le> tries" "\<not> MAX_CONN_TRIES \<le> Suc tries"
      "received (trace u) = received (trace s) @ p" "conn_frame u = conn_frame s" for rd' p u
    by (rule ok_mono [OF 1 [OF that(1,2)]])
      (use that(3) conn_message_frame [OF that(4), of os rid] in \<open>auto simp: echoed_def\<close>)
  show ?case
    by (subst conn_tries.simps) (auto intro!: ok_bind [where R = "\<lambda>x t. verdict_ok s (conn_message os rid s) x t \<and>
      (\<exists>p. received (trace t) = received (trace s) @ p) \<and> conn_frame t = conn_frame s"] att go
      simp: verdict_ok_def split: sum.split)
qed

section \<open>Cost\<close>

fun polls :: "effect list \<Rightarrow> nat" where
  "polls [] = 0"
| "polls (NetPoll _ # t) = Suc (polls t)"
| "polls (_ # t) = polls t"

lemma polls_append [simp]: "polls (a @ b) = polls a + polls b"
  by (induction a rule: polls.induct) simp_all

lemma polls_log [simp]: "polls (log_trace os level m s) = polls (trace s)"
  by (simp add: log_trace_def log_effects_def split: option.split)

text \<open>\<open>spends m p n\<close>: however \<open>m\<close> ends, it has polled at most \<open>p\<close> times and slept at most \<open>n\<close>
  seconds.\<close>

definition spends :: "(proc, 'a) prog \<Rightarrow> nat \<Rightarrow> nat \<Rightarrow> bool" where
  "spends m p n \<longleftrightarrow> (\<forall>s. polls (trace (snd (m s))) \<le> polls (trace s) + p \<and>
     slept (trace (snd (m s))) \<le> slept (trace s) + int n)"

lemma spendsI:
  "(\<And>s. polls (trace (snd (m s))) \<le> polls (trace s) + p) \<Longrightarrow>
   (\<And>s. slept (trace (snd (m s))) \<le> slept (trace s) + int n) \<Longrightarrow> spends m p n"
  by (simp add: spends_def)

lemma spendsD:
  assumes "spends m p n"
  shows "polls (trace (snd (m s))) \<le> polls (trace s) + p" "slept (trace (snd (m s))) \<le> slept (trace s) + int n"
  using assms unfolding spends_def by blast+

lemma spends_mono: "spends m p n \<Longrightarrow> p \<le> p' \<Longrightarrow> n \<le> n' \<Longrightarrow> spends m p' n'"
  unfolding spends_def by (meson add_left_mono order_trans of_nat_mono)

lemma spends_free: "(\<And>s. polls (trace (snd (m s))) = polls (trace s)) \<Longrightarrow>
  (\<And>s. slept (trace (snd (m s))) = slept (trace s)) \<Longrightarrow> spends m p n"
  by (simp add: spends_def)

lemma spends_return: "spends (return_p a) p n"
  by (rule spends_free) (simp_all add: return_p_def)

lemma spends_bind:
  assumes "spends m p n" and "\<And>a. spends (f a) p' n'" and "p + p' \<le> p''" "n + n' \<le> n''"
  shows "spends (bind_p m f) p'' n''"
  unfolding spends_def
proof
  fix s
  obtain r t where m: "m s = (r, t)" by fastforce
  have 1: "polls (trace t) \<le> polls (trace s) + p" "slept (trace t) \<le> slept (trace s) + int n"
    using assms(1) m unfolding spends_def by (metis snd_conv)+
  have 2: "polls (trace (snd (f a t))) \<le> polls (trace t) + p'"
    "slept (trace (snd (f a t))) \<le> slept (trace t) + int n'" for a
    using assms(2) unfolding spends_def by blast+
  have 3: "polls (trace (snd (f a t))) \<le> polls (trace s) + p'' \<and>
    slept (trace (snd (f a t))) \<le> slept (trace s) + int n''" for a
    using 1 2 [of a] assms(3,4) by linarith
  show "polls (trace (snd (bind_p m f s))) \<le> polls (trace s) + p'' \<and>
    slept (trace (snd (bind_p m f s))) \<le> slept (trace s) + int n''"
    using m 1 3 assms(3,4) by (cases r) auto
qed

lemma spends_then:
  "spends m p n \<Longrightarrow> spends k p' n' \<Longrightarrow> p + p' \<le> p'' \<Longrightarrow> n + n' \<le> n'' \<Longrightarrow> spends (then_p m k) p'' n''"
  unfolding then_p_def by (rule spends_bind)

lemma spends_async: "spends (async_point os) 0 0"
proof (rule spends_free)
  fix s
  have "trace (snd (async_point os s)) = trace s"
    using async_frame [of os s "fst (async_point os s)" "snd (async_point os s)" trace] by simp
  then show "polls (trace (snd (async_point os s))) = polls (trace s)"
    "slept (trace (snd (async_point os s))) = slept (trace s)" by simp_all
qed

lemma spends_comp:
  assumes "spends m p n" and "\<And>s. polls (trace (f s)) \<le> polls (trace s) + pf"
    and "\<And>s. slept (trace (f s)) \<le> slept (trace s) + int nf" and "pf + p \<le> p'" "nf + n \<le> n'"
  shows "spends (\<lambda>s. m (f s)) p' n'"
  unfolding spends_def
proof
  fix s
  have "polls (trace (snd (m (f s)))) \<le> polls (trace (f s)) + p"
    "slept (trace (snd (m (f s)))) \<le> slept (trace (f s)) + int n"
    using assms(1) unfolding spends_def by blast+
  with assms(2) [of s] assms(3) [of s] assms(4,5)
  show "polls (trace (snd (m (f s)))) \<le> polls (trace s) + p' \<and>
    slept (trace (snd (m (f s)))) \<le> slept (trace s) + int n'" by linarith
qed

lemma spends_sleep: "spends (sleep_p os 1) 0 1"
  unfolding sleep_p_def [abs_def] by (rule spends_comp [OF spends_async, where pf = 0 and nf = 1]) (simp_all add: emit_def)

lemma spends_net_poll: "spends (net_poll os) 1 0"
proof -
  have "spends (\<lambda>s. (Return (os_poll os (n_net s)), net_call s)) 0 0"
    by (rule spends_free) (simp_all add: net_call_def)
  note m = spends_then [OF spends_async this, of 0 0, simplified]
  show ?thesis
    unfolding net_poll_def [abs_def]
    by (rule spends_comp [where f = "\<lambda>s. emit (NetPoll (net_timeout s)) s" and pf = 1 and nf = 0, OF m])
      (simp_all add: emit_def)
qed

lemma net_write_cost: "polls (trace (snd (net_write os fd wp s))) = polls (trace s) \<and>
  slept (trace (snd (net_write os fd wp s))) = slept (trace s)"
proof (induction os fd wp s rule: net_write.induct)
  case (1 os fd wp s)
  then show ?case
    by (subst (1 2) net_write.simps) (auto simp: emit_def net_call_def split: io_write.split)
qed

lemma net_read_cost: "polls (trace (snd (net_read os fd k got s))) = polls (trace s) \<and>
  slept (trace (snd (net_read os fd k got s))) = slept (trace s)"
proof (induction os fd k got s rule: net_read.induct)
  case (1 os fd k got s)
  then show ?case
    by (subst (1 2) net_read.simps) (auto simp: emit_def net_call_def split: io_read.split)
qed

lemma io_round_cost:
  assumes "io_round os rd wr i rs wp k got s = (q, t)"
  shows "polls (trace t) = polls (trace s)" "slept (trace t) = slept (trace s)"
proof -
  obtain x u where w: "(if wp \<noteq> [] \<and> has_flag (revent rs i) POLLOUT then net_write os wr wp s else (Inr wp, s)) = (x, u)"
    by fastforce
  have u: "polls (trace u) = polls (trace s)" "slept (trace u) = slept (trace s)"
    using w net_write_cost [of os wr wp s] by (auto split: if_splits)
  obtain y v where r: "net_read os rd k got u = (y, v)" by fastforce
  have v: "polls (trace v) = polls (trace u)" "slept (trace v) = slept (trace u)"
    using net_read_cost [of os rd k got u] r by auto
  have "t = u \<or> t = v"
    using assms r unfolding io_round_def w by (auto split: sum.splits if_splits)
  with u v show "polls (trace t) = polls (trace s)" "slept (trace t) = slept (trace s)" by auto
qed

lemma spends_send_round: "spends (send_round os rd wr i wp k got) 1 0"
  unfolding send_round_def
proof (rule spends_bind [OF spends_net_poll, where p' = 0 and n' = 0])
  fix x :: "int \<times> int list \<times> int"
  show "spends (case x of (n, revents, e) \<Rightarrow> \<lambda>s.
       if n = 0 then (Return (Inl (1, got, 0)), s)
       else if n = -1 then (Return (Inl (-1, got, e)), s)
       else case io_round os rd wr i revents wp k got s of
         (Inl e, s) \<Rightarrow> (Return (Inl (-1, got, e)), s)
       | (Inr v, s) \<Rightarrow> (Return (Inr v), s)) 0 0"
    by (rule spends_free) (auto split: prod.split sum.split dest: io_round_cost)
qed simp_all

lemma spends_send_loop:
  "loops \<le> 10 \<Longrightarrow> spends (send_loop os rd wr i loops wp k got) (11 - loops) (min 6 (11 - loops))"
proof (induction os rd wr i loops wp k got rule: send_loop.induct)
  case (1 os rd wr i loops wp k got)
  have last: "spends (\<lambda>s. (Return v, errlog os l m s)) p n" for v l m p n
    by (rule spends_free) (simp_all add: errlog_upd)
  have last': "spends (\<lambda>s. (Return (c, g, os_errno os (n_net s)), errlog os l m s)) p n" for c g l m p n
    by (rule spends_free) (simp_all add: errlog_upd)
  have go: "spends (send_loop os rd wr i (Suc loops) a b c) (10 - loops) (min 6 (10 - loops))"
    if "k \<noteq> 0" "loops \<le> 9" for a b c
    using 1(1,2) [OF that(1)] that(2) by (cases "4 < loops") auto
  have slp: "spends (then_p (sleep_p os 1) (if 10 < Suc loops
       then (\<lambda>s. (Return (-1, c, os_errno os (n_net s)), errlog os LOG_INFO ''too many loops without data'' s))
       else send_loop os rd wr i (Suc loops) a b c)) (10 - loops) (min 6 (11 - loops))"
    if "k \<noteq> 0" "4 < loops" for a b c
    using that 1(3) by (intro spends_then [OF spends_sleep, where p' = "10 - loops" and n' = "10 - loops"])
      (auto intro!: last' intro: spends_mono [OF go])
  show ?case
  proof (cases "k = 0")
    case True
    then show ?thesis by (simp add: send_loop.simps spends_return)
  next
    case False
    have step: "spends (case x of Inl v \<Rightarrow> return_p v
      | Inr (wp', rleft', got') \<Rightarrow>
          if 5 < Suc loops then then_p (sleep_p os 1) (if 10 < Suc loops
               then (\<lambda>s. (Return (-1, got', os_errno os (n_net s)), errlog os LOG_INFO ''too many loops without data'' s))
               else send_loop os rd wr i (Suc loops) wp' rleft' got')
          else send_loop os rd wr i (Suc loops) wp' rleft' got') (10 - loops) (min 6 (11 - loops))" for x
      using False slp go by (auto intro: spends_return spends_mono split: sum.split)
    show ?thesis
      by (subst send_loop.simps, subst if_not_P [OF False], rule spends_bind [OF spends_send_round step])
        (use 1(3) in auto)
  qed
qed

lemma reap_polls: "stable (\<lambda>t. polls (trace t) = c) (reap_with_grace os k a)"
proof (induction k)
  case (Suc k)
  have "stable (\<lambda>t. polls (trace t) = c) (then_p (sleep_p os 1) (reap_with_grace os k a))"
    by (intro stable_then stable_sleep Suc) (auto simp: emit_def flag_free_def)
  then show ?case
    by (auto simp: stable_def Let_def emit_def errlog_upd split: prod.split)
qed (simp add: stable_def)

lemma ssh_kill_polls:
  assumes "ssh_kill os s = (q, t)"
  shows "polls (trace t) = polls (trace s)"
proof -
  note r = stableD [OF reap_polls]
  have c: "polls (trace (kill_child SIGTERM (close_stderr s))) = polls (trace s)"
    by (simp add: kill_child_def close_stderr_def emit_def)
  from assms show ?thesis
  proof (cases rule: ssh_kill_cases)
    case no_child
    then show ?thesis by (simp add: close_stderr_def emit_def)
  next
    case (first p)
    then show ?thesis using r [OF c first(2)] by simp
  next
    case (second p s1 s2)
    have "polls (trace s1) = polls (trace s)" by (rule r [OF c second(2)])
    then have "polls (trace s2) = polls (trace s)"
      by (intro r [OF _ second(3)]) (simp add: kill_child_def emit_def errlog_upd)
    with second show ?thesis by (simp add: errlog_upd)
  qed
qed

lemma spends_ssh_kill: "spends (ssh_kill os) 0 4"
proof (rule spendsI)
  fix s
  obtain q t where k: "ssh_kill os s = (q, t)" by fastforce
  show "polls (trace (snd (ssh_kill os s))) \<le> polls (trace s) + 0"
    "slept (trace (snd (ssh_kill os s))) \<le> slept (trace s) + int 4"
    using ssh_kill_polls [OF k] ssh_kill_effect(3) [OF k] k by simp_all
qed

lemma spends_xerrlog: "spends (xerrlog os l m) 0 4"
proof -
  have a: "spends (modify_p (errlog os l x)) 0 0" for x
    by (rule spends_free) (simp_all add: modify_p_def errlog_upd)
  have b: "spends (then_p (modify_p unlink_pid_file) (exit_p 1)) 0 0"
    by (rule spends_free) (simp_all add: exit_p_def unlink_pid_file_def emit_def split: option.split)
  show ?thesis
    unfolding xerrlog_def by (rule spends_then [OF a spends_then [OF spends_ssh_kill b, of 0 4]]) simp_all
qed

text \<open>The leaves of the monitor that may exit: free when they go on, four seconds when they exit.\<close>

lemma xerrlog_net_call:
  "polls (trace (snd (xerrlog os l m (net_call s)))) \<le> polls (trace s) \<and>
   slept (trace (snd (xerrlog os l m (net_call s)))) \<le> slept (trace s) + 4"
  using spendsD [OF spends_xerrlog, of os l m "net_call s"] by (simp add: net_call_def)

lemma spends_leaf:
  "(\<And>s. polls (trace (snd (m s))) \<le> polls (trace s) \<and> slept (trace (snd (m s))) \<le> slept (trace s) + 4) \<Longrightarrow>
   spends m 0 4"
  by (simp add: spends_def)

lemma spends_conn_addr: "spends (conn_addr os) 0 4"
  by (rule spends_leaf) (simp add: conn_addr_def Let_def xerrlog_net_call, simp add: net_call_def)

lemma spends_conn_socket: "spends (conn_socket os) 0 4"
  by (rule spends_leaf)
    (auto simp: conn_socket_def Let_def xerrlog_net_call split: prod.split, simp_all add: net_call_def emit_def)

lemma spends_conn_remote: "spends (conn_remote os h p) 0 8"
proof -
  have "spends (modify_p (\<lambda>s. s\<lparr>conn_res := True\<rparr>)) 0 0"
    by (rule spends_free) (simp_all add: modify_p_def)
  from spends_then [OF spends_conn_addr this, of 0 4]
  have "spends (then_p (conn_addr os) (modify_p (\<lambda>s. s\<lparr>conn_res := True\<rparr>))) 0 4" by simp
  then have r: "spends (conn_resolve os) 0 4"
    by (auto simp: spends_def conn_resolve_def)
  have c: "spends (conn_connect os h p k) 0 0" for k
    by (rule spends_free) (simp_all add: conn_connect_def Let_def net_call_def emit_def errlog_upd split: prod.split)
  show ?thesis unfolding conn_remote_def
    by (rule spends_then [OF r spends_bind [OF spends_conn_socket c, of 0 4]]) simp_all
qed

lemma spends_conn_rd: "spends (conn_rd os sock rd) 1 0"
proof -
  have a: "spends (conn_accept os) 0 0"
    by (rule spends_free) (simp_all add: conn_accept_def Let_def net_call_def emit_def errlog_upd split: prod.split)
  have "spends (\<lambda>s. if n = 0 then (Return (-1), errlog os l m s) else if n = -1 then (Return (-1), errlog os l' m' s)
       else if b then conn_accept os s else (Return 0, s)) 0 0" for n :: int and b l m l' m'
    using a by (auto simp: spends_def errlog_upd)
  then have "spends (conn_poll_for_accept os) 1 0"
    unfolding conn_poll_for_accept_def by (auto intro!: spends_bind [OF spends_net_poll, where p' = 0 and n' = 0])
  then show ?thesis by (simp add: conn_rd_def spends_return)
qed

lemma spends_conn_exchange: "spends (conn_exchange os sock wd rd w) 12 6"
proof -
  have c: "spends (conn_check os x w r) 0 0" for x r
    by (rule spends_free) (auto simp: conn_check_def errlog_upd split: prod.split)
  have "spends (conn_send_and_receive os w a b n) 11 6" for a b n
    using spends_send_loop [of 0] unfolding conn_send_and_receive_def by simp
  from spends_bind [OF this c, of 11 6] show ?thesis
    unfolding conn_exchange_def
    by (auto intro!: spends_bind [OF spends_conn_rd, where p' = 11 and n' = 6] intro: spends_return)
qed

lemma spends_conn_attempt: "spends (conn_attempt os sock wd rid rd) 12 6"
proof -
  define stale where "stale = (sock \<noteq> NO_RD_SOCK \<and> rd \<noteq> -1)"
  have "spends (\<lambda>s. if length (conn_message os rid s) \<ge> BUF_SZ
      then xerrlog os LOG_ERR ''conn_test: buffer overflow'' s
      else conn_exchange os sock wd (if stale then -1 else rd) (conn_message os rid s) s) 12 6"
    using spendsD [OF spends_conn_exchange]
    by (simp add: spends_def spendsD [OF spends_mono [OF spends_xerrlog, of 12 6], simplified])
  then show ?thesis
    unfolding conn_attempt_def [abs_def] Let_def stale_def
    by (rule spends_comp [where pf = 0 and nf = 0 and f = "\<lambda>s. if stale then shut rd s else s", unfolded stale_def])
      (simp_all add: shut_def emit_def)
qed

lemma spends_conn_tries: "spends (conn_tries os sock wd rid tries rd) (12 * (2 - tries)) (6 * (2 - tries))"
proof (induction os sock wd rid tries rd rule: conn_tries.induct)
  case (1 os sock wd rid tries rd)
  show ?case
  proof (cases "MAX_CONN_TRIES \<le> Suc tries")
    case True
    then show ?thesis
      by (subst conn_tries.simps) (auto simp: spends_def return_p_def errlog_upd)
  next
    case False
    have "spends (case x of Inl v \<Rightarrow> return_p v | Inr rd \<Rightarrow> conn_tries os sock wd rid (Suc tries) rd)
        (12 * (1 - tries)) (6 * (1 - tries))" for x
      using 1 False by (auto intro: spends_return split: sum.split)
    from spends_bind [OF spends_conn_attempt this, of "12 * (2 - tries)" "6 * (2 - tries)"] False show ?thesis
      by (subst conn_tries.simps) (simp add: MAX_CONN_TRIES_def)
  qed
qed

section \<open>A healthy tunnel\<close>

text \<open>
  A network on which the monitor must succeed: no signal arrives, every call goes through, each
  poll reports the read side readable and the write side writable, a write takes any positive
  number of bytes, and a read returns the message.
\<close>

definition cooperative :: "os \<Rightarrow> int \<Rightarrow> string \<Rightarrow> bool" where
  "cooperative os sock w \<longleftrightarrow>
     (\<forall>k. os_async os k = [] \<and> os_gai os k = 0 \<and> fst (os_socket os k) \<noteq> -1 \<and>
        fst (os_connect os k) \<noteq> -1 \<and> 0 \<le> fst (os_accept os k) \<and>
        (\<exists>n > 0. os_write os k = Wrote n) \<and> os_recv os k = Got w \<and>
        (case os_poll os k of (n, rs, e) \<Rightarrow> n \<noteq> 0 \<and> n \<noteq> -1 \<and> has_flag (revent rs 0) POLLIN \<and>
           has_flag (revent rs (if sock = NO_RD_SOCK then 0 else 1)) POLLOUT))"

lemma net_write_all:
  assumes "cooperative os sock w"
  shows "\<exists>t. net_write os fd wp s = (Inr [], t)"
proof (induction os\<equiv>os fd wp s rule: net_write.induct)
  case (1 fd wp s)
  obtain n where n: "os_write os (n_net s) = Wrote n" "0 < n"
    using assms by (auto simp: cooperative_def)
  with 1 show ?case by (subst net_write.simps) auto
qed

lemma net_read_all:
  assumes "cooperative os sock w" "w \<noteq> []"
  shows "\<exists>t. net_read os fd (length w) [] s = (Inr (0, w), t)"
  using assms by (simp add: cooperative_def net_read.simps)

lemma net_poll_now:
  assumes "cooperative os sock w"
  shows "\<exists>t. net_poll os s = (Return (os_poll os (n_net s)), t)"
  using assms
  by (simp add: net_poll_def cooperative_def async_point_def return_p_def emit_def)

lemma send_and_receive_all:
  assumes "cooperative os sock w" "w \<noteq> []" "ntopoll = (if sock = NO_RD_SOCK then 1 else 2)"
  shows "\<exists>t. conn_send_and_receive os w rd wr ntopoll s = (Return (0, w, 0), t)"
proof -
  let ?i = "if ntopoll = 2 then 1 else 0 :: nat"
  obtain t where p: "net_poll os s = (Return (os_poll os (n_net s)), t)"
    using net_poll_now [OF assms(1)] by blast
  obtain n rs e where pl: "os_poll os (n_net s) = (n, rs, e)" by (metis prod_cases3)
  then have ev: "n \<noteq> 0" "n \<noteq> -1" "has_flag (revent rs 0) POLLIN" "has_flag (revent rs ?i) POLLOUT"
    using assms(1) [unfolded cooperative_def, THEN spec, of "n_net s"] assms(3) by auto
  obtain u where wr: "net_write os wr w t = (Inr [], u)" using net_write_all [OF assms(1)] by blast
  obtain v where rd: "net_read os rd (length w) [] u = (Inr (0, w), v)"
    using net_read_all [OF assms(1,2)] by blast
  have "send_round os rd wr ?i w (length w) [] s = (Return (Inr ([], 0, w)), v)"
    using p pl ev wr rd assms(2) by (simp add: send_round_def io_round_def)
  then show ?thesis
    using assms(2)
    by (subst conn_send_and_receive_def, subst send_loop.simps) (simp add: send_loop.simps return_p_def)
qed

lemma conn_rd_now:
  assumes "cooperative os sock w"
  shows "\<exists>rd' t. conn_rd os sock rd s = (Return rd', t) \<and> (sock \<noteq> NO_RD_SOCK \<longrightarrow> 0 \<le> rd')"
proof (cases "sock = NO_RD_SOCK")
  case True
  then show ?thesis by (simp add: conn_rd_def return_p_def)
next
  case False
  obtain t where p: "net_poll os s = (Return (os_poll os (n_net s)), t)"
    using net_poll_now [OF assms] by blast
  obtain n rs e where pl: "os_poll os (n_net s) = (n, rs, e)" by (metis prod_cases3)
  obtain a d where ac: "os_accept os (n_net t) = (a, d)" by fastforce
  have "n \<noteq> 0" "n \<noteq> -1" "has_flag (revent rs 0) POLLIN" "0 \<le> a"
    using assms [unfolded cooperative_def, THEN spec, of "n_net s"]
      assms [unfolded cooperative_def, THEN spec, of "n_net t"] pl ac by auto
  with False p pl ac show ?thesis
    by (simp add: conn_rd_def conn_poll_for_accept_def conn_accept_def)
qed

lemma conn_remote_now:
  assumes "cooperative os sock w"
  shows "\<exists>wd t. conn_remote os h p s = (Return wd, t) \<and> wd \<noteq> -1"
proof -
  have "\<exists>t. conn_resolve os s = (Return (), t)"
    using assms by (simp add: conn_resolve_def conn_addr_def cooperative_def modify_p_def)
  then obtain t where t: "conn_resolve os s = (Return (), t)" by blast
  obtain k e where k: "os_socket os (n_net t) = (k, e)" by fastforce
  with assms have "k \<noteq> -1" by (auto simp: cooperative_def dest: spec [where x = "n_net t"])
  then have "conn_socket os t = (Return k, emit (Socket k) (net_call t))"
    using k by (simp add: conn_socket_def)
  moreover have "\<exists>u. conn_connect os h p k v = (Return k, u)" for v
  proof -
    have "fst (os_connect os (n_net v)) \<noteq> -1" using assms by (simp add: cooperative_def)
    then show ?thesis by (cases "os_connect os (n_net v)") (simp add: conn_connect_def)
  qed
  ultimately show ?thesis using t \<open>k \<noteq> -1\<close> unfolding conn_remote_def by (simp add: ) blast
qed

lemma conn_tries_now:
  assumes "cooperative os sock w" "w = conn_message os rid s" "CHR 0x00 \<notin> set w" "length w < BUF_SZ"
  shows "\<exists>rd t. conn_tries os sock wd rid 0 (-1) s = (Return (1, rd), t)"
proof -
  have w: "w \<noteq> []" by (simp add: assms(2) conn_message_def)
  have ct: "c_text w = w" using assms(3) by (auto simp: c_text_def takeWhile_eq_all_conv)
  obtain rd t where r: "conn_rd os sock (-1) s = (Return rd, t)" "sock \<noteq> NO_RD_SOCK \<longrightarrow> 0 \<le> rd"
    using conn_rd_now [OF assms(1)] by blast
  have sr: "\<exists>t'. conn_send_and_receive os w a wd (if sock = NO_RD_SOCK then 1 else 2) u = (Return (0, w, 0), t')" for a u
    by (rule send_and_receive_all [OF assms(1) w refl])
  obtain u where u: "conn_exchange os sock wd (-1) w s = (Return (Inl (1, rd)), u)"
    using r sr [of rd t] sr [of wd t] by (auto simp: conn_exchange_def conn_check_def ct split: if_splits)
  have "conn_attempt os sock wd rid (-1) s = (Return (Inl (1, rd)), u)"
    using assms(2,4) u by (simp add: conn_attempt_def)
  then show ?thesis
    by (subst conn_tries.simps) (simp add: MAX_CONN_TRIES_def return_p_def)
qed

lemma conn_test_now:
  assumes "cooperative os sock (conn_message os (os_random os (n_net s)) s)"
    and "CHR 0x00 \<notin> set (conn_message os (os_random os (n_net s)) s)"
    and "length (conn_message os (os_random os (n_net s)) s) < BUF_SZ"
  shows "fst (conn_test os sock host port s) = Return 1"
proof -
  let ?m = "conn_message os (os_random os (n_net s)) s"
  obtain wd t where r: "conn_remote os host port (net_call s) = (Return wd, t)" "wd \<noteq> -1"
    using conn_remote_now [OF assms(1)] by blast
  have "conn_frame t = conn_frame s"
    using monitor_keeps.conn_remote_ok [of "net_call s" "conn_frame s" os host port] r(1)
    by (simp add: net_call_def conn_frame_def sigenv_def)
  then have m: "?m = conn_message os (os_random os (n_net s)) t" by (rule conn_message_frame [symmetric])
  obtain rd u where "conn_tries os sock wd (os_random os (n_net s)) 0 (-1) t = (Return (1, rd), u)"
    using conn_tries_now [OF assms(1) m assms(2,3)] by blast
  with r show ?thesis by (simp add: conn_test_def Let_def)
qed

definition echo_os :: os where
  "echo_os = idle_os\<lparr>os_poll := (\<lambda>_. (2, [POLLIN, POLLOUT], 0)), os_write := (\<lambda>_. Wrote 7),
     os_recv := (\<lambda>_. Got (conn_message idle_os 12345 initial_proc))\<rparr>"

lemma conn_message_echo:
  "conn_message echo_os 12345 initial_proc = ''host autossh 7 12345 '' @ [CHR 0x0D, CHR 0x0A]"
  "conn_message idle_os 12345 initial_proc = ''host autossh 7 12345 '' @ [CHR 0x0D, CHR 0x0A]"
  by (simp_all add: conn_message_def echo_os_def show_int_def in_i32_def digit_chars show_nat.simps)

lemma echo_os_random: "os_random echo_os (n_net initial_proc) = 12345"
  by (simp add: echo_os_def)

lemma echo_os_cooperative:
  "cooperative echo_os 4 (conn_message echo_os (os_random echo_os (n_net initial_proc)) initial_proc)"
  "CHR 0x00 \<notin> set (conn_message echo_os (os_random echo_os (n_net initial_proc)) initial_proc)"
  "length (conn_message echo_os (os_random echo_os (n_net initial_proc)) initial_proc) < BUF_SZ"
  unfolding echo_os_random conn_message_echo
  by (auto simp: cooperative_def echo_os_def conn_message_echo has_flag_def revent_def BUF_SZ_def MAX_MESSAGE_def)

section \<open>Descriptors\<close>

text \<open>How often a descriptor has been handed out and not given back.\<close>

fun held :: "effect list \<Rightarrow> int \<Rightarrow> int" where
  "held [] fd = 0"
| "held (Socket k # t) fd = held t fd + (if k = fd then 1 else 0)"
| "held (Close k # t) fd = held t fd - (if k = fd then 1 else 0)"
| "held (_ # t) fd = held t fd"

lemma held_append [simp]: "held (a @ b) fd = held a fd + held b fd"
  by (induction a fd rule: held.induct) simp_all

lemma held_log [simp]: "held (log_trace os level m s) fd = held (trace s) fd"
  by (simp add: log_trace_def log_effects_def split: option.split)

lemma io_effect_held: "io_effect e \<Longrightarrow> held [e] fd = 0"
  by (cases e) auto

interpretation io_holds: io_frame os "\<lambda>s. held (trace s) = h" "\<lambda>_ _. True" for os h
proof
  fix s :: proc
  assume h: "held (trace s) = h"
  show "ok (\<lambda>_ s. held (trace s) = h) (\<lambda>_ _. True) (async_point os s)"
    by (rule ok_mono [OF async_ok [of "\<lambda>s. held (trace s)" s os]]) (use h in simp_all)
  show "io_effect e \<Longrightarrow> held (trace (emit e s)) = h" for e
    using h by (auto simp: emit_def io_effect_held fun_eq_iff simp del: held.simps)
qed (auto simp: errlog_upd net_call_def fun_eq_iff)

text \<open>
  \<open>opens rd s t\<close>: between \<open>s\<close> and \<open>t\<close> exactly \<open>rd\<close> has been acquired (nothing, when it is -1).
  Descriptor 0 is left out: the monitor uses it for a poll that reports no readable connection.
\<close>

definition opens :: "int \<Rightarrow> proc \<Rightarrow> proc \<Rightarrow> bool" where
  "opens rd s t \<longleftrightarrow> (\<forall>fd. fd \<noteq> 0 \<longrightarrow>
     held (trace t) fd = held (trace s) fd + (if fd = rd \<and> rd \<noteq> -1 then 1 else 0))"

lemma opens_same: "held (trace u) = held (trace t) \<Longrightarrow> opens rd s u = opens rd s t"
  by (simp add: opens_def)

lemma opens_shut: "opens rd s t \<Longrightarrow> rd \<noteq> -1 \<Longrightarrow> opens (-1) s (shut rd t)"
  by (simp add: opens_def shut_def emit_def)

lemma conn_remote_opens: "ok (\<lambda>wd t. opens wd s t) (\<lambda>_ _. True) (conn_remote os h p s)"
proof -
  have e: "ok Q (\<lambda>_ _. True) (xerrlog os l m t)" for Q :: "'a \<Rightarrow> proc \<Rightarrow> bool" and l m t
    by (rule xerrlog_ok [OF xerrlog_abrupt])
  have r: "ok (\<lambda>_ t. held (trace t) = held (trace s)) (\<lambda>_ _. True) (conn_resolve os s)"
    by (auto simp: conn_resolve_def conn_addr_def Let_def net_call_def modify_p_def
        intro!: ok_then [where R = "\<lambda>t. held (trace t) = held (trace s)"] xerrlog_ok [OF xerrlog_abrupt])
  have k: "ok (\<lambda>k u. k \<noteq> -1 \<and> held (trace u) = (\<lambda>fd. held (trace s) fd + (if k = fd then 1 else 0)))
      (\<lambda>_ _. True) (conn_socket os t)" if "held (trace t) = held (trace s)" for t
    using that by (auto simp: conn_socket_def net_call_def emit_def fun_eq_iff split: prod.split
        intro!: xerrlog_ok [OF xerrlog_abrupt])
  have c: "ok (\<lambda>wd u. opens wd s u) (\<lambda>_ _. True) (conn_connect os h p k t)"
    if "k \<noteq> -1" "held (trace t) = (\<lambda>fd. held (trace s) fd + (if k = fd then 1 else 0))" for k t
    using that by (auto simp: conn_connect_def net_call_def emit_def errlog_upd opens_def split: prod.split)
  show ?thesis unfolding conn_remote_def
    by (rule ok_then, rule r, rule ok_bind, erule k) (auto intro: c)
qed

lemma conn_poll_for_accept_opens:
  assumes "opens (-1) s0 s"
  shows "ok (\<lambda>rd t. opens rd s0 t) (\<lambda>_ _. True) (conn_poll_for_accept os s)"
  unfolding conn_poll_for_accept_def
  by (rule ok_bind, rule io_holds.net_poll_ok [where h = "held (trace s)", OF refl])
    (use assms in \<open>auto simp: conn_accept_def net_call_def emit_def errlog_upd opens_def split: prod.split\<close>)

text \<open>The read descriptor an attempt leaves behind.\<close>

definition rd_of :: "int \<times> int + int \<Rightarrow> int" where
  "rd_of x = (case x of Inl (v, rd) \<Rightarrow> rd | Inr rd \<Rightarrow> rd)"

lemma rd_of_simps [simp]: "rd_of (Inl (v, rd)) = rd" "rd_of (Inr rd) = rd"
  by (simp_all add: rd_of_def)

definition leaves :: "int \<Rightarrow> proc \<Rightarrow> int \<times> int + int \<Rightarrow> proc \<Rightarrow> bool" where
  "leaves sock s0 x t \<longleftrightarrow> opens (rd_of x) s0 t \<and> (sock = NO_RD_SOCK \<longrightarrow> rd_of x = -1)"

lemma conn_exchange_opens:
  assumes "opens (-1) s0 s"
  shows "ok (leaves sock s0) (\<lambda>_ _. True) (conn_exchange os sock wd (-1) w s)"
proof -
  have rd: "ok (\<lambda>rd t. opens rd s0 t \<and> (sock = NO_RD_SOCK \<longrightarrow> rd = -1)) (\<lambda>_ _. True) (conn_rd os sock (-1) s)"
    using assms ok_mono [OF conn_poll_for_accept_opens [OF assms, of os]] by (simp add: conn_rd_def)
  have sr: "ok (leaves sock s0) (\<lambda>_ _. True) (bind_p (conn_send_and_receive os w a b n) (conn_check os rd w) t)"
    if "opens rd s0 t" "sock = NO_RD_SOCK \<longrightarrow> rd = -1" for a b n rd t
    by (rule ok_bind, rule io_holds.conn_send_and_receive_ok [where h = "held (trace t)", OF refl])
      (use that in \<open>auto simp: conn_check_def leaves_def opens_def errlog_upd\<close>)
  show ?thesis
    unfolding conn_exchange_def by (rule ok_bind, rule rd) (use sr in \<open>auto simp: leaves_def [of _ _ "Inl _"]\<close>)
qed

lemma conn_attempt_opens:
  assumes "opens rd s0 s" "sock = NO_RD_SOCK \<longrightarrow> rd = -1"
  shows "ok (leaves sock s0) (\<lambda>_ _. True) (conn_attempt os sock wd rid rd s)"
proof -
  have e: "ok Q (\<lambda>_ _. True) (xerrlog os l m t)" for Q l m t
    by (rule xerrlog_ok [OF xerrlog_abrupt])
  show ?thesis
  proof (cases "rd = -1")
    case True
    with assms show ?thesis by (simp add: conn_attempt_def Let_def e conn_exchange_opens)
  next
    case False
    with assms conn_exchange_opens [OF opens_shut, of rd s0 s sock] show ?thesis
      by (simp add: conn_attempt_def Let_def e)
  qed
qed

lemma conn_tries_opens:
  assumes "opens rd s0 s" "sock = NO_RD_SOCK \<longrightarrow> rd = -1"
  shows "ok (\<lambda>(v, rd') t. opens rd' s0 t \<and> (sock = NO_RD_SOCK \<longrightarrow> rd' = -1)) (\<lambda>_ _. True)
    (conn_tries os sock wd rid tries rd s)"
  using assms
proof (induction os sock wd rid tries rd arbitrary: s rule: conn_tries.induct)
  case (1 os sock wd rid tries rd)
  show ?case
  proof (cases "MAX_CONN_TRIES \<le> Suc tries")
    case True
    with 1(2,3) show ?thesis
      by (subst conn_tries.simps) (auto simp: opens_def errlog_upd)
  next
    case False
    have IH: "ok (\<lambda>(v, rd') t. opens rd' s0 t \<and> (sock = NO_RD_SOCK \<longrightarrow> rd' = -1)) (\<lambda>_ _. True)
        (conn_tries os sock wd rid (Suc tries) rd' t)"
      if "opens rd' s0 t" "sock = NO_RD_SOCK \<longrightarrow> rd' = -1" for rd' t
      using 1(1) False that by simp
    from False show ?thesis
      by (subst conn_tries.simps, simp, rule_tac ok_bind, rule_tac conn_attempt_opens [OF 1(2,3)])
        (auto simp: leaves_def split: sum.splits intro!: IH)
  qed
qed

section \<open>Claims\<close>

text \<open>C12: The monitor reports a live tunnel only on proof: whenever the connection test returns, its
  verdict is 0 or 1, and it is 1 only if the last bytes received during the test are exactly the
  message that was sent, whatever the network does.\<close>

theorem conn_test_sound:
  assumes "conn_test os sock host port s = (Return v, s')"
  shows "v = 0 \<or> v = 1 \<and>
    (\<exists>p. received (trace s') = received (trace s) @ p @ conn_message os (os_random os (n_net s)) s)"
proof -
  let ?rid = "os_random os (n_net s)"
  have rem: "ok (\<lambda>_ t. (\<exists>p. received (trace t) = received (trace s) @ p) \<and> conn_frame t = conn_frame s)
      (\<lambda>_ _. True) (conn_remote os host port (net_call s))"
    using ok_conj [OF monitor_reads.conn_remote_ok [of "net_call s" "received (trace s)" os host port]
        monitor_keeps.conn_remote_ok [of "net_call s" "conn_frame s" os host port]]
    by (simp add: net_call_def conn_frame_def sigenv_def)
  have tries: "ok (\<lambda>(v, rd') t. v = 0 \<or> v = 1 \<and> echoed s (conn_message os ?rid s) t) (\<lambda>_ _. True)
      (conn_tries os sock wd ?rid 0 (-1) u)"
    if "received (trace u) = received (trace s) @ p" "conn_frame u = conn_frame s" for wd u p
    by (rule ok_mono [OF conn_tries_sound])
      (use that(1) conn_message_frame [OF that(2), of os ?rid] in \<open>auto simp: echoed_def\<close>)
  have "ok (\<lambda>v t. v = 0 \<or> v = 1 \<and> echoed s (conn_message os ?rid s) t) (\<lambda>_ _. True)
      (conn_test os sock host port s)"
    unfolding conn_test_def Let_def
    by (rule ok_bind, rule rem) (auto intro!: ok_bind [where R = "\<lambda>(v, rd') t. v = 0 \<or>
      v = 1 \<and> echoed s (conn_message os ?rid s) t"] tries simp: echoed_def shut_def emit_def)
  with assms show ?thesis by (auto simp: echoed_def)
qed

theorem conn_test_sound_witness:
  "\<exists>s' p. conn_test echo_os 4 ''127.0.0.1'' ''20000'' initial_proc = (Return 1, s') \<and>
     received (trace s') = p @ ''host autossh 7 12345 '' @ [CHR 0x0D, CHR 0x0A]"
proof -
  obtain s' where r: "conn_test echo_os 4 ''127.0.0.1'' ''20000'' initial_proc = (Return 1, s')"
    using conn_test_now [OF echo_os_cooperative] by (metis prod.collapse)
  from conn_test_sound [OF r] show ?thesis
    unfolding echo_os_random conn_message_echo by (auto intro!: exI [of _ s'] simp: r)
qed

text \<open>C14: The connection test is bounded for every network: it polls at most 24 times (each poll
  with the configured timeout) and sleeps at most 20 seconds, however it ends.\<close>

theorem conn_test_bounded:
  "polls (trace (snd (conn_test os sock host port s))) \<le> polls (trace s) + 24 \<and>
   slept (trace (snd (conn_test os sock host port s))) \<le> slept (trace s) + 20"
proof -
  let ?tail = "\<lambda>wd (rval, rd) s. let s = shut wd s in
    (Return rval, if sock \<noteq> NO_RD_SOCK \<and> rd \<noteq> -1 then shut rd s else s)"
  have e: "spends (?tail wd x) 0 0" for wd and x :: "int \<times> int"
    by (cases x) (simp add: spends_def shut_def emit_def Let_def)
  have b: "spends (bind_p (conn_tries os sock wd rid 0 (-1)) (?tail wd)) 24 12" for wd rid
    using spends_bind [OF spends_conn_tries [of os sock wd rid 0 "-1"] e, of 24 12] by simp
  have c: "spends (if wd = -1 then return_p 0
      else bind_p (conn_tries os sock wd (os_random os (n_net s)) 0 (-1)) (?tail wd)) 24 12" for wd
    using b by (simp add: spends_return)
  note t = spends_bind [OF spends_conn_remote [of os host port] c, where p'' = 24 and n'' = 20, simplified]
  from spendsD [OF t, where s = "net_call s"] show ?thesis by (simp add: conn_test_def net_call_def)
qed



text \<open>C15: The connection test gives back every descriptor it acquires: when it returns, each
  descriptor other than 0 has been closed exactly as often as it has been handed out, whatever
  the network does and on every path.\<close>

theorem conn_test_closes_descriptors:
  assumes "conn_test os sock host port s = (Return v, s')" and "fd \<noteq> 0"
  shows "held (trace s') fd = held (trace s) fd"
proof -
  have s: "opens wd s t = opens wd (net_call s) t" for wd t by (simp add: opens_def net_call_def)
  have t: "ok (\<lambda>(v, rd') u. opens rd' t u \<and> (sock = NO_RD_SOCK \<longrightarrow> rd' = -1)) (\<lambda>_ _. True)
      (conn_tries os sock wd rid 0 (-1) t)" for wd rid t
    by (rule conn_tries_opens) (simp_all add: opens_def)
  have "ok (\<lambda>_ t. \<forall>fd. fd \<noteq> 0 \<longrightarrow> held (trace t) fd = held (trace s) fd) (\<lambda>_ _. True)
      (conn_test os sock host port s)"
    unfolding conn_test_def Let_def
    by (rule ok_bind, rule conn_remote_opens)
      (auto intro!: ok_bind [OF t] simp: opens_def net_call_def shut_def emit_def)
  with assms show ?thesis by simp
qed

theorem conn_test_closes_descriptors_witness:
  "\<exists>s'. conn_test echo_os 4 ''127.0.0.1'' ''20000'' initial_proc = (Return 1, s') \<and> held (trace s') 9 = 0"
proof -
  obtain s' where r: "conn_test echo_os 4 ''127.0.0.1'' ''20000'' initial_proc = (Return 1, s')"
    using conn_test_now [OF echo_os_cooperative] by (metis prod.collapse)
  from conn_test_closes_descriptors [OF r, of 9] r show ?thesis by simp
qed

end
