(* ===== verification/Env.thy ===== *)
theory Env
  imports Conn
begin

text \<open>
  \<^verbatim>\<open>src/env.rs\<close>: the AUTOSSH variables. \<open>host\<close> is what the program asks of its environment before
  it starts: the variables, and whether the log file can be opened (\<open>Some\<close> errno when not). Each
  block of \<^verbatim>\<open>get_env_args\<close> is one definition, in the order of the code; a malformed value ends the
  program through \<open>xerrlog\<close>.
\<close>

section \<open>Reading numbers\<close>

record host =
  getenv :: "string \<Rightarrow> cstr"
  fopen_append :: "string \<Rightarrow> int option"

definition parse_ul :: "string \<Rightarrow> int \<times> string" where
  "parse_ul s = strtoul 0 s"

definition parse_l :: "string \<Rightarrow> int \<times> string" where
  "parse_l s = strtol 0 s"

definition is_empty_cstr :: "cstr \<Rightarrow> bool" where
  "is_empty_cstr s \<longleftrightarrow> s = Some []"

definition quoted :: "string \<Rightarrow> string \<Rightarrow> string" where
  "quoted what s = what @ '' \"'' @ cstr_or (Some s) [] @ ''\"''"

section \<open>The variables\<close>

definition env_path :: "'z host_scheme \<Rightarrow> proc \<Rightarrow> proc" where
  "env_path h s = (case getenv h ''AUTOSSH_PATH'' of None \<Rightarrow> s | Some p \<Rightarrow> s\<lparr>ssh_path := p\<rparr>)"

definition env_loglevel :: "'z host_scheme \<Rightarrow> os \<Rightarrow> (proc, unit) prog" where
  "env_loglevel h os s =
     (case getenv h ''AUTOSSH_DEBUG'' of
        Some _ \<Rightarrow> (Return (), s\<lparr>syslog_perror := LOG_PERROR, loglevel := LOG_DEBUG\<rparr>)
      | None \<Rightarrow>
          (case getenv h ''AUTOSSH_LOGLEVEL'' of
             None \<Rightarrow> (Return (), s)
           | Some x \<Rightarrow>
               let (v, t) = parse_l x in
               if is_empty_cstr (Some x) \<or> t \<noteq> [] \<or> v < LOG_EMERG \<or> v > LOG_DEBUG
               then xerrlog os LOG_ERR (quoted ''invalid log level'' x) s
               else (Return (), s\<lparr>loglevel := i32 v\<rparr>)))"

text \<open>The two poll times: a value that does not fit a positive \<^verbatim>\<open>c_int\<close> becomes the default.\<close>

definition poll_value :: "int \<Rightarrow> int" where
  "poll_value v = (if i32 v \<le> 0 then POLL_TIME_DEFAULT else i32 v)"

definition env_poll :: "'z host_scheme \<Rightarrow> os \<Rightarrow> (proc, unit) prog" where
  "env_poll h os s =
     (case getenv h ''AUTOSSH_POLL'' of
        None \<Rightarrow> (Return (), s)
      | Some x \<Rightarrow>
          let (v, t) = parse_ul x in
          if is_empty_cstr (Some x) \<or> v = 0 \<or> t \<noteq> []
          then xerrlog os LOG_ERR (quoted ''invalid poll time'' x) s
          else (Return (), s\<lparr>poll_time := poll_value v\<rparr>))"

definition env_first_poll :: "'z host_scheme \<Rightarrow> os \<Rightarrow> (proc, unit) prog" where
  "env_first_poll h os s =
     (case getenv h ''AUTOSSH_FIRST_POLL'' of
        None \<Rightarrow> (Return (), s\<lparr>first_poll_time := poll_time s\<rparr>)
      | Some x \<Rightarrow>
          let (v, t) = parse_ul x in
          if is_empty_cstr (Some x) \<or> v = 0 \<or> t \<noteq> []
          then xerrlog os LOG_ERR (quoted ''invalid first poll time'' x) s
          else (Return (), s\<lparr>first_poll_time := poll_value v\<rparr>))"

definition env_gatetime :: "'z host_scheme \<Rightarrow> os \<Rightarrow> (proc, unit) prog" where
  "env_gatetime h os s =
     (case getenv h ''AUTOSSH_GATETIME'' of
        None \<Rightarrow> (Return (), s)
      | Some x \<Rightarrow>
          let (v, t) = parse_l x in
          if is_empty_cstr (Some x) \<or> f64_of_int v < 0 \<or> t \<noteq> []
          then xerrlog os LOG_ERR (quoted ''invalid gate time'' x) s
          else (Return (), s\<lparr>gate_time := f64_of_int v\<rparr>))"

definition env_maxstart :: "'z host_scheme \<Rightarrow> os \<Rightarrow> (proc, unit) prog" where
  "env_maxstart h os s =
     (case getenv h ''AUTOSSH_MAXSTART'' of
        None \<Rightarrow> (Return (), s)
      | Some x \<Rightarrow>
          let (v, t) = parse_l x in
          if is_empty_cstr (Some x) \<or> v < -1 \<or> t \<noteq> []
          then xerrlog os LOG_ERR (quoted ''invalid max start number'' x) s
          else (Return (), s\<lparr>max_start := i32 v\<rparr>))"

definition env_message :: "'z host_scheme \<Rightarrow> os \<Rightarrow> (proc, unit) prog" where
  "env_message h os s0 =
     (case getenv h ''AUTOSSH_MESSAGE'' of
        None \<Rightarrow> (Return (), s0)
      | Some x \<Rightarrow>
          let s = (if x \<noteq> [] then s0\<lparr>echo_message := x\<rparr> else s0) in
          if length (echo_message s) > MAX_MESSAGE
          then xerrlog os LOG_ERR (''echo message may only be '' @ show_nat MAX_MESSAGE @ '' bytes long'') s
          else (Return (), s))"

definition env_port_var :: "'z host_scheme \<Rightarrow> proc \<Rightarrow> proc" where
  "env_port_var h s =
     (case getenv h ''AUTOSSH_PORT'' of None \<Rightarrow> s | Some x \<Rightarrow> if x \<noteq> [] then s\<lparr>env_port := Some x\<rparr> else s)"

definition msg_poll_drop :: "string \<Rightarrow> rat \<Rightarrow> string" where
  "msg_poll_drop what d =
     what @ '' is greater than lifetime, dropping '' @ what @ '' to '' @ show_int (f64_trunc d)"

text \<open>The poll times are cut down to the lifetime, and its start is now.\<close>

definition lifetime_set :: "os \<Rightarrow> rat \<Rightarrow> proc \<Rightarrow> proc" where
  "lifetime_set os life s0 =
     (let s1 = (if f64_of_int (poll_time s0) > life
                then (errlog os LOG_INFO (msg_poll_drop ''poll time'' life) s0)\<lparr>poll_time := f64_to_i32 life\<rparr> else s0);
          s2 = (if f64_of_int (first_poll_time s1) > life
                then (errlog os LOG_INFO (msg_poll_drop ''first poll time'' life) s1)\<lparr>first_poll_time := f64_to_i32 life\<rparr>
                else s1)
      in (tick s2)\<lparr>pid_start_time := now os s2\<rparr>)"

definition env_maxlifetime :: "'z host_scheme \<Rightarrow> os \<Rightarrow> (proc, unit) prog" where
  "env_maxlifetime h os s =
     (case getenv h ''AUTOSSH_MAXLIFETIME'' of
        None \<Rightarrow> (Return (), s)
      | Some x \<Rightarrow>
          let (v, t) = parse_ul x in
          if is_empty_cstr (Some x) \<or> t \<noteq> []
          then xerrlog os LOG_ERR (quoted ''invalid max lifetime'' x) s
          else let life = f64_of_int v in
            if life \<le> 0 then (Return (), s\<lparr>max_lifetime := 0\<rparr>)
            else (Return (), lifetime_set os life (s\<lparr>max_lifetime := life\<rparr>)))"

definition env_max_session :: "'z host_scheme \<Rightarrow> os \<Rightarrow> (proc, unit) prog" where
  "env_max_session h os s =
     (case getenv h ''AUTOSSH_MAX_SESSION'' of
        None \<Rightarrow> (Return (), s)
      | Some x \<Rightarrow>
          let (v, t) = parse_ul x in
          if is_empty_cstr (Some x) \<or> t \<noteq> []
          then xerrlog os LOG_ERR (quoted ''invalid max session time'' x) s
          else (Return (), s\<lparr>max_session := f64_of_int v\<rparr>))"

definition env_pidfile :: "'z host_scheme \<Rightarrow> proc \<Rightarrow> proc" where
  "env_pidfile h s =
     (case getenv h ''AUTOSSH_PIDFILE'' of None \<Rightarrow> s | Some x \<Rightarrow> if x \<noteq> [] then s\<lparr>pid_file_name := Some x\<rparr> else s)"

definition env_logfile :: "'z host_scheme \<Rightarrow> os \<Rightarrow> (proc, unit) prog" where
  "env_logfile h os s =
     (case getenv h ''AUTOSSH_LOGFILE'' of
        None \<Rightarrow> (Return (), s)
      | Some x \<Rightarrow>
          (case fopen_append h x of
             Some e \<Rightarrow> xerrlog os LOG_ERR (cstr_or (Some x) [] @ '': '' @ errno_str os e) s
           | None \<Rightarrow> (Return (), s\<lparr>flog := Some x, logtype := L_FILELOG\<rparr>)))"

definition get_env_args :: "'z host_scheme \<Rightarrow> os \<Rightarrow> (proc, unit) prog" where
  "get_env_args h os =
     then_p (modify_p (env_path h))
       (then_p (env_loglevel h os)
         (then_p (env_poll h os)
           (then_p (env_first_poll h os)
             (then_p (env_gatetime h os)
               (then_p (env_maxstart h os)
                 (then_p (env_message h os)
                   (then_p (modify_p (env_port_var h))
                     (then_p (env_maxlifetime h os)
                       (then_p (env_max_session h os)
                         (then_p (modify_p (env_pidfile h))
                           (env_logfile h os)))))))))))"

section \<open>Valid settings\<close>

definition settings_ok :: "proc \<Rightarrow> bool" where
  "settings_ok s \<longleftrightarrow>
     0 < poll_time s \<and> in_i32 (poll_time s) \<and> 0 < first_poll_time s \<and> in_i32 (first_poll_time s) \<and>
     0 \<le> gate_time s \<and> 0 \<le> loglevel s \<and> loglevel s \<le> 7 \<and> in_i32 (max_start s) \<and>
     length (echo_message s) \<le> MAX_MESSAGE \<and> 0 \<le> max_lifetime s \<and> 0 \<le> max_session s"

definition polls_in_life :: "proc \<Rightarrow> bool" where
  "polls_in_life s \<longleftrightarrow> max_lifetime s > 0 \<longrightarrow>
     of_int (poll_time s) \<le> max_lifetime s \<and> of_int (first_poll_time s) \<le> max_lifetime s"

text \<open>A variable is accepted when it is unset or its value passes a test.\<close>

definition accepted :: "'z host_scheme \<Rightarrow> string \<Rightarrow> (string \<Rightarrow> bool) \<Rightarrow> bool" where
  "accepted h name good \<longleftrightarrow> (case getenv h name of None \<Rightarrow> True | Some x \<Rightarrow> good x)"

definition is_ul :: "string \<Rightarrow> bool" where
  "is_ul x \<longleftrightarrow> x \<noteq> [] \<and> snd (strtoul 0 x) = []"

definition is_l :: "string \<Rightarrow> bool" where
  "is_l x \<longleftrightarrow> x \<noteq> [] \<and> snd (strtol 0 x) = []"

definition env_accepted :: "'z host_scheme \<Rightarrow> bool" where
  "env_accepted h \<longleftrightarrow>
     (getenv h ''AUTOSSH_DEBUG'' \<noteq> None \<or>
      accepted h ''AUTOSSH_LOGLEVEL'' (\<lambda>x. is_l x \<and> 0 \<le> fst (strtol 0 x) \<and> fst (strtol 0 x) \<le> 7)) \<and>
     accepted h ''AUTOSSH_POLL'' (\<lambda>x. is_ul x \<and> fst (strtoul 0 x) \<noteq> 0) \<and>
     accepted h ''AUTOSSH_FIRST_POLL'' (\<lambda>x. is_ul x \<and> fst (strtoul 0 x) \<noteq> 0) \<and>
     accepted h ''AUTOSSH_GATETIME'' (\<lambda>x. is_l x \<and> 0 \<le> fst (strtol 0 x)) \<and>
     accepted h ''AUTOSSH_MAXSTART'' (\<lambda>x. is_l x \<and> -1 \<le> fst (strtol 0 x)) \<and>
     accepted h ''AUTOSSH_MESSAGE'' (\<lambda>x. length x \<le> MAX_MESSAGE) \<and>
     accepted h ''AUTOSSH_MAXLIFETIME'' is_ul \<and>
     accepted h ''AUTOSSH_MAX_SESSION'' is_ul \<and>
     accepted h ''AUTOSSH_LOGFILE'' (\<lambda>x. fopen_append h x = None)"

section \<open>Deciding programs\<close>

text \<open>
  \<open>decides P a m Q\<close>: from a state with \<open>P\<close> and no child, \<open>m\<close> returns in a state with \<open>Q\<close> when the
  condition \<open>a\<close> holds and otherwise exits with status 1; it never sends a signal.
\<close>

definition quiet :: "(int \<times> int) list \<Rightarrow> proc \<Rightarrow> bool" where
  "quiet ks s \<longleftrightarrow> cchild s = 0 \<and> kills (trace s) = ks"

definition decides :: "(proc \<Rightarrow> bool) \<Rightarrow> bool \<Rightarrow> (proc, unit) prog \<Rightarrow> (proc \<Rightarrow> bool) \<Rightarrow> bool" where
  "decides P a m Q \<longleftrightarrow> (\<forall>s ks. P s \<longrightarrow> quiet ks s \<longrightarrow>
     (\<exists>t. m s = (if a then Return () else Exit 1, t) \<and> quiet ks t \<and> (a \<longrightarrow> Q t)))"

lemma decides_then:
  assumes "decides P a m R" "decides R b k Q"
  shows "decides P (a \<and> b) (then_p m k) Q"
  unfolding decides_def
proof (intro allI impI)
  fix s ks
  assume "P s" "quiet ks s"
  with assms(1) obtain t where t: "m s = (if a then Return () else Exit 1, t)" "quiet ks t" "a \<longrightarrow> R t"
    unfolding decides_def by blast
  show "\<exists>u. then_p m k s = (if a \<and> b then Return () else Exit 1, u) \<and> quiet ks u \<and> (a \<and> b \<longrightarrow> Q u)"
  proof (cases a)
    case True
    with t assms(2) obtain u where "k t = (if b then Return () else Exit 1, u)" "quiet ks u" "b \<longrightarrow> Q u"
      unfolding decides_def by blast
    with True t show ?thesis by auto
  qed (use t in auto)
qed

lemma decides_cong: "decides P a m Q \<Longrightarrow> a = b \<Longrightarrow> decides P b m Q"
  by simp

lemma decides_modify:
  "(\<And>s. P s \<Longrightarrow> Q (f s)) \<Longrightarrow> (\<And>s ks. quiet ks s \<Longrightarrow> quiet ks (f s)) \<Longrightarrow> decides P True (modify_p f) Q"
  by (simp add: decides_def modify_p_def)

lemma ssh_kill_idle: "cchild s = 0 \<Longrightarrow> ssh_kill os s = (Return (), close_stderr s)"
  by (simp add: ssh_kill_def close_stderr_def emit_def)

lemma xerrlog_quiet:
  assumes "quiet ks s"
  shows "\<exists>t. xerrlog os level m s = (Exit 1, t) \<and> quiet ks t"
proof -
  have "ssh_kill os (errlog os level u s) = (Return (), close_stderr (errlog os level u s))" for u
    using assms by (intro ssh_kill_idle) (simp add: errlog_upd quiet_def)
  moreover have "quiet ks (unlink_pid_file (close_stderr (errlog os level u s)))" for u
    using assms by (simp add: quiet_def unlink_pid_file_def close_stderr_def emit_def errlog_upd split: option.split)
  ultimately show ?thesis by (simp add: xerrlog_def exit_p_def)
qed

lemma xerrlog_exit:
  assumes "cchild s = 0"
  shows "fst (xerrlog os level m s :: 'a flow \<times> proc) = Exit 1"
proof -
  have "quiet (kills (trace s)) s" using assms by (simp add: quiet_def)
  then obtain t where "(xerrlog os level m s :: 'a flow \<times> proc) = (Exit 1, t)" using xerrlog_quiet by blast
  then show ?thesis by simp
qed

definition rejects :: "os \<Rightarrow> proc \<Rightarrow> unit flow \<times> proc \<Rightarrow> bool" where
  "rejects os s p \<longleftrightarrow>
     (\<exists>lvl msg t. p = xerrlog os lvl msg t \<and> cchild t = cchild s \<and> kills (trace t) = kills (trace s))"

lemma rejects_xerrlog [simp]:
  "cchild t = cchild s \<Longrightarrow> kills (trace t) = kills (trace s) \<Longrightarrow> rejects os s (xerrlog os lvl msg t)"
  unfolding rejects_def by blast

lemma decides_block:
  assumes "\<And>s. P s \<Longrightarrow> if a then \<exists>t. m s = (Return (), t) \<and> Q t \<and> cchild t = cchild s \<and> kills (trace t) = kills (trace s)
      else rejects os s (m s)"
  shows "decides P a m Q"
  unfolding decides_def
proof (intro allI impI)
  fix s ks
  assume P: "P s" and q: "quiet ks s"
  show "\<exists>t. m s = (if a then Return () else Exit 1, t) \<and> quiet ks t \<and> (a \<longrightarrow> Q t)"
  proof (cases a)
    case True
    with assms [OF P] q show ?thesis by (auto simp: quiet_def)
  next
    case False
    with assms [OF P] obtain lvl msg t where "m s = xerrlog os lvl msg t" "quiet ks t"
      using q by (auto simp: quiet_def rejects_def)
    with False xerrlog_quiet [of ks t os lvl msg] show ?thesis by auto
  qed
qed

lemma poll_value_pos: "0 < poll_value v \<and> in_i32 (poll_value v)"
  using i32_bounds [of v] by (auto simp: poll_value_def POLL_TIME_DEFAULT_def in_i32_def)

lemma f64_of_int_nonneg: "0 \<le> v \<Longrightarrow> 0 \<le> f64_of_int v"
  using f64.rnd_nonneg [of "of_int v"] by (simp add: f64_of_int_def)

lemma f64_of_int_neg: "f64_of_int v < 0 \<longleftrightarrow> v < 0"
proof
  show "f64_of_int v < 0 \<Longrightarrow> v < 0" using f64_of_int_nonneg [of v] by linarith
  show "v < 0 \<Longrightarrow> f64_of_int v < 0"
    using f64_of_int_mono [of v "-1"] f64_of_int_exact [of "-1"] by simp
qed

section \<open>The blocks\<close>

definition early :: "proc \<Rightarrow> bool" where
  "early s \<longleftrightarrow> settings_ok s \<and> max_lifetime s = 0"

definition late :: "proc \<Rightarrow> bool" where
  "late s \<longleftrightarrow> settings_ok s \<and> polls_in_life s"

lemmas block_simps = early_def late_def settings_ok_def polls_in_life_def accepted_def is_ul_def is_l_def
  parse_l_def parse_ul_def is_empty_cstr_def

lemma decides_loglevel:
  "decides early (getenv h ''AUTOSSH_DEBUG'' \<noteq> None \<or>
      accepted h ''AUTOSSH_LOGLEVEL'' (\<lambda>x. is_l x \<and> 0 \<le> fst (strtol 0 x) \<and> fst (strtol 0 x) \<le> 7))
    (env_loglevel h os) early"
  by (rule decides_block [where os = os])
    (auto simp: env_loglevel_def block_simps in_i32_def split: option.splits prod.splits)

lemma decides_poll:
  "decides early (accepted h ''AUTOSSH_POLL'' (\<lambda>x. is_ul x \<and> fst (strtoul 0 x) \<noteq> 0)) (env_poll h os) early"
  by (rule decides_block [where os = os])
    (auto simp: env_poll_def block_simps poll_value_pos split: option.splits prod.splits)

lemma decides_first_poll:
  "decides early (accepted h ''AUTOSSH_FIRST_POLL'' (\<lambda>x. is_ul x \<and> fst (strtoul 0 x) \<noteq> 0)) (env_first_poll h os) early"
  by (rule decides_block [where os = os])
    (auto simp: env_first_poll_def block_simps poll_value_pos split: option.splits prod.splits)

lemma decides_gatetime:
  "decides early (accepted h ''AUTOSSH_GATETIME'' (\<lambda>x. is_l x \<and> 0 \<le> fst (strtol 0 x))) (env_gatetime h os) early"
  by (rule decides_block [where os = os])
    (auto simp: env_gatetime_def block_simps f64_of_int_neg f64_of_int_nonneg split: option.splits prod.splits)

lemma decides_maxstart:
  "decides early (accepted h ''AUTOSSH_MAXSTART'' (\<lambda>x. is_l x \<and> -1 \<le> fst (strtol 0 x))) (env_maxstart h os) early"
  by (rule decides_block [where os = os])
    (auto simp: env_maxstart_def block_simps split: option.splits prod.splits)

lemma decides_message:
  "decides early (accepted h ''AUTOSSH_MESSAGE'' (\<lambda>x. length x \<le> MAX_MESSAGE)) (env_message h os) early"
  by (rule decides_block [where os = os])
    (auto simp: env_message_def block_simps Let_def split: option.splits)

lemma strtoul_nonneg: "strtoul b x = (v, r) \<Longrightarrow> 0 \<le> v"
  using strtoul_range [of b x] by simp

lemma decides_max_session:
  "decides late (accepted h ''AUTOSSH_MAX_SESSION'' is_ul) (env_max_session h os) late"
  by (rule decides_block [where os = os])
    (auto simp: env_max_session_def block_simps intro!: f64_of_int_nonneg dest: strtoul_nonneg
      split: option.splits prod.splits)

definition cut :: "rat \<Rightarrow> int \<Rightarrow> int" where
  "cut life p = (if f64_of_int p > life then f64_to_i32 life else p)"

lemma cut_within:
  assumes "1 \<le> life" "0 < p" "in_i32 p"
  shows "0 < cut life p \<and> in_i32 (cut life p) \<and> of_int (cut life p) \<le> life"
proof (cases "f64_of_int p > life")
  case True
  have "f64_trunc life = \<lfloor>life\<rfloor>" using assms(1) by (simp add: f64_trunc_def)
  then have "f64_to_i32 life \<le> \<lfloor>life\<rfloor>" using assms(1) by (simp add: f64_to_i32_def)
  then have "of_int (f64_to_i32 life) \<le> life" by (simp add: le_floor_iff)
  moreover have "1 \<le> f64_to_i32 life" using assms(1) by (intro f64_to_i32_le) (simp_all add: in_i32_def)
  ultimately show ?thesis using True by (simp add: cut_def)
next
  case False
  with assms show ?thesis by (simp add: cut_def f64_of_int_i32)
qed

lemma lifetime_set_sel [simp]:
  "poll_time (lifetime_set os life s) = cut life (poll_time s)"
  "first_poll_time (lifetime_set os life s) = cut life (first_poll_time s)"
  "pid_start_time (lifetime_set os life s) = now os s"
  "gate_time (lifetime_set os life s) = gate_time s" "loglevel (lifetime_set os life s) = loglevel s"
  "max_start (lifetime_set os life s) = max_start s" "echo_message (lifetime_set os life s) = echo_message s"
  "max_lifetime (lifetime_set os life s) = max_lifetime s" "max_session (lifetime_set os life s) = max_session s"
  "cchild (lifetime_set os life s) = cchild s" "kills (trace (lifetime_set os life s)) = kills (trace s)"
  by (simp_all add: lifetime_set_def Let_def errlog_upd tick_def now_def cut_def)

lemma decides_maxlifetime: "decides early (accepted h ''AUTOSSH_MAXLIFETIME'' is_ul) (env_maxlifetime h os) late"
proof (rule decides_block [where os = os])
  fix s
  assume e: "early s"
  show "if accepted h ''AUTOSSH_MAXLIFETIME'' is_ul
    then \<exists>t. env_maxlifetime h os s = (Return (), t) \<and> late t \<and> cchild t = cchild s \<and> kills (trace t) = kills (trace s)
    else rejects os s (env_maxlifetime h os s)"
  proof (cases "getenv h ''AUTOSSH_MAXLIFETIME''")
    case None
    with e show ?thesis by (simp add: env_maxlifetime_def block_simps)
  next
    case (Some x)
    obtain v r where v: "strtoul 0 x = (v, r)" by fastforce
    show ?thesis
    proof (cases "f64_of_int v \<le> 0 \<or> x = [] \<or> r \<noteq> []")
      case True
      with Some v e show ?thesis by (auto simp: env_maxlifetime_def block_simps)
    next
      case False
      moreover have "v \<noteq> 0" using False f64_of_int_exact [of 0] by auto
      ultimately have "1 \<le> f64_of_int v"
        using f64.rnd_pos_int [of v] strtoul_nonneg [OF v] by (simp add: f64_of_int_def)
      with False Some v e cut_within [of "f64_of_int v"] show ?thesis
        by (auto simp: env_maxlifetime_def block_simps Let_def)
    qed
  qed
qed

lemma decides_logfile:
  "decides late (accepted h ''AUTOSSH_LOGFILE'' (\<lambda>x. fopen_append h x = None)) (env_logfile h os) late"
  by (rule decides_block [where os = os])
    (auto simp: env_logfile_def block_simps split: option.splits)

lemma get_env_args_decides: "decides early (env_accepted h) (get_env_args h os) late"
proof -
  have p: "decides early True (modify_p (env_path h)) early"
    by (rule decides_modify) (auto simp: env_path_def block_simps quiet_def split: option.split)
  have q: "decides early True (modify_p (env_port_var h)) early"
    by (rule decides_modify) (auto simp: env_port_var_def block_simps quiet_def split: option.split)
  have r: "decides late True (modify_p (env_pidfile h)) late"
    by (rule decides_modify) (auto simp: env_pidfile_def block_simps quiet_def split: option.split)
  note d = decides_then [OF p decides_then [OF decides_loglevel decides_then [OF decides_poll
    decides_then [OF decides_first_poll decides_then [OF decides_gatetime decides_then [OF decides_maxstart
    decides_then [OF decides_message decides_then [OF q decides_then [OF decides_maxlifetime
    decides_then [OF decides_max_session decides_then [OF r decides_logfile]]]]]]]]]]]
  show ?thesis
    unfolding get_env_args_def by (rule decides_cong, rule d) (simp add: env_accepted_def)
qed

section \<open>Claims\<close>

text \<open>C24: Reading the environment from valid initial settings is total and correct: it returns
  exactly when every variable that is set has an acceptable value, and otherwise exits with status
  1; it signals nobody. When it returns, the settings are valid: poll times are positive and fit
  32 bits, gate time, lifetime and session limit are not negative, the log level is a syslog level,
  the echo message fits its buffer, and with a lifetime no poll time exceeds it.\<close>

theorem get_env_args_valid:
  assumes "settings_ok s" "max_lifetime s = 0" "cchild s = 0"
  shows "\<exists>t. get_env_args h os s = (if env_accepted h then Return () else Exit 1, t) \<and>
    kills (trace t) = kills (trace s) \<and> (if env_accepted h then settings_ok t \<and> polls_in_life t else True)"
  using get_env_args_decides [of h os] assms
  by (fastforce simp: decides_def early_def late_def quiet_def)

theorem get_env_args_valid_witness:
  "let h = \<lparr>getenv = (\<lambda>n. if n = ''AUTOSSH_POLL'' then Some ''30'' else None), fopen_append = (\<lambda>_. None)\<rparr> in
   env_accepted h \<and> settings_ok initial_proc \<and>
   (\<exists>t. get_env_args h idle_os initial_proc = (Return (), t) \<and> settings_ok t)"
proof -
  let ?h = "\<lparr>getenv = (\<lambda>n. if n = ''AUTOSSH_POLL'' then Some ''30'' else None), fopen_append = (\<lambda>_. None)\<rparr> :: host"
  have "strtoul 0 ''30'' = (30, [])"
    using strtoul_show_nat [of 30] by (simp add: show_nat.simps digit_chars)
  then have a: "env_accepted ?h" by (simp add: env_accepted_def accepted_def is_ul_def is_l_def)
  have s: "settings_ok initial_proc" "max_lifetime initial_proc = 0" "cchild initial_proc = 0"
    by (simp_all add: settings_ok_def POLL_TIME_DEFAULT_def GATE_TIME_DEFAULT_def MAX_START_DEFAULT_def
        MAX_LIFETIME_DEFAULT_def MAX_SESSION_DEFAULT_def MAX_MESSAGE_def in_i32_def)
  from get_env_args_valid [OF s, of ?h idle_os] a s show ?thesis by auto
qed

end
