(* ===== verification/Wait.thy ===== *)
theory Wait
  imports Stderr_Drain
begin

text \<open>
  \<^verbatim>\<open>src/wait.rs\<close>: polling the child and turning its exit status into the verdict of the
  restart policy.
\<close>

section \<open>Wait statuses\<close>

text \<open>The Linux encoding behind libc's \<^verbatim>\<open>WIFEXITED\<close>, \<^verbatim>\<open>WEXITSTATUS\<close>, \<^verbatim>\<open>WIFSIGNALED\<close> and
  \<^verbatim>\<open>WTERMSIG\<close>: the low seven bits hold the signal, the next byte the exit code.\<close>

definition WTERMSIG :: "int \<Rightarrow> int" where "WTERMSIG status = status AND 127"
definition WIFEXITED :: "int \<Rightarrow> bool" where "WIFEXITED status \<longleftrightarrow> status AND 127 = 0"
definition WEXITSTATUS :: "int \<Rightarrow> int" where "WEXITSTATUS status = (drop_bit 8 status) AND 255"
definition WIFSIGNALED :: "int \<Rightarrow> bool" where
  "WIFSIGNALED status \<longleftrightarrow> 1 \<le> WTERMSIG status \<and> WTERMSIG status \<le> 126"

section \<open>The reaper\<close>

definition msg_prematurely :: "int \<Rightarrow> string \<Rightarrow> string" where
  "msg_prematurely v p = ''ssh exited prematurely with status '' @ show_int v @ ''; '' @ p @ '' exiting''"

definition msg_restarting :: "int \<Rightarrow> string" where
  "msg_restarting v = ''ssh exited with error status '' @ show_int v @ ''; restarting ssh''"

definition msg_exiting :: "int \<Rightarrow> string \<Rightarrow> string" where
  "msg_exiting v p = ''ssh exited with status '' @ show_int v @ ''; '' @ p @ '' exiting''"

definition msg_on_signal :: "int \<Rightarrow> string" where
  "msg_on_signal sig = ''ssh exited on signal '' @ show_int sig @ '', restarting ssh''"

text \<open>The \<^verbatim>\<open>match evalue\<close> at the end of \<^verbatim>\<open>ssh_wait\<close>.\<close>

definition exit_policy :: "os \<Rightarrow> int \<Rightarrow> string \<Rightarrow> proc \<Rightarrow> int \<times> proc" where
  "exit_policy os evalue progname s =
     (if evalue = 255 then (P_RESTART, errlog os LOG_INFO (msg_restarting evalue) s)
      else if evalue = 0 then (P_EXITOK, errlog os LOG_INFO (msg_exiting evalue progname) s)
      else if evalue = 1 \<or> evalue = 2 then
        (if start_count s > 1 \<or> gate_time s = 0
         then (P_RESTART, errlog os LOG_INFO (msg_restarting evalue) s)
         else (P_EXITERR, errlog os LOG_INFO (msg_exiting evalue progname) s))
      else (P_EXITERR, errlog os LOG_INFO (msg_exiting evalue progname) s))"

definition ssh_wait :: "os \<Rightarrow> int \<Rightarrow> proc \<Rightarrow> int \<times> proc" where
  "ssh_wait os options s0 =
     (let (r, status, e) = os_waitpid os (n_waitpid s0);
          s = emit (Waitpid (cchild s0) options) (s0\<lparr>n_waitpid := Suc (n_waitpid s0)\<rparr>)
      in if r \<le> 0 then (P_CONTINUE, s)
         else
           let s = snd (check_ssh_stderr os s) in
           if WIFSIGNALED status then
             (P_RESTART, errlog os LOG_INFO (msg_on_signal (WTERMSIG status)) s)
           else if WIFEXITED status then
             let evalue = WEXITSTATUS status;
                 progname = cstr_or (os_progname os) ''autossh''
             in if start_count s = 1 \<and> gate_time s \<noteq> 0 then
                  (if difftime (now os s) (start_time s) \<le> gate_time s
                   then (P_EXITERR, errlog os LOG_ERR (msg_prematurely evalue progname) (tick s))
                   else exit_policy os evalue progname (tick s))
                else exit_policy os evalue progname s
           else (P_CONTINUE, s))"

declare ssh_wait_def [run] exit_policy_def [run]

section \<open>Frame\<close>

lemma exit_policy_state:
  "exit_policy os v p s = (r, s') \<Longrightarrow> \<exists>l m. s' = errlog os l m s"
  by (auto simp: exit_policy_def split: if_splits)

lemma ssh_wait_cases:
  assumes "ssh_wait os options s = (r, s')"
  obtains (none) "s' = emit (Waitpid (cchild s) options) (s\<lparr>n_waitpid := Suc (n_waitpid s)\<rparr>)"
  | (reaped) d t l m where
      "check_ssh_stderr os (emit (Waitpid (cchild s) options) (s\<lparr>n_waitpid := Suc (n_waitpid s)\<rparr>)) = (d, t)"
      "s' = t \<or> s' = errlog os l m t \<or> s' = errlog os l m (tick t)"
proof -
  obtain w st e where w: "os_waitpid os (n_waitpid s) = (w, st, e)" by (metis prod_cases3)
  let ?s1 = "emit (Waitpid (cchild s) options) (s\<lparr>n_waitpid := Suc (n_waitpid s)\<rparr>)"
  obtain d t where d: "check_ssh_stderr os ?s1 = (d, t)" by fastforce
  have "s' = ?s1 \<or> (\<exists>l m. s' = t \<or> s' = errlog os l m t \<or> s' = errlog os l m (tick t))"
    using assms w d exit_policy_state [of os "WEXITSTATUS st" "cstr_or (os_progname os) ''autossh''" _ r s']
    unfolding ssh_wait_def by (auto simp add: Let_def split: if_splits)
  with d none reaped show thesis by blast
qed

text \<open>Reaping changes the log, the stderr bookkeeping and the call counters, nothing else: in
  particular not the child's pid, which the caller still holds.\<close>

lemma ssh_wait_kept:
  assumes "ssh_wait os options s = (r, s')"
  shows "config s' = config s" "launch s' = launch s" "sigenv s' = sigenv s"
    "kills (trace s') = kills (trace s)" "slept (trace s') = slept (trace s)"
    "cchild s' = cchild s" "ssh_stderr_fd s' = ssh_stderr_fd s" "pipe_lost_time s' = pipe_lost_time s"
    "exit_signalled s' = exit_signalled s" "restart_ssh s' = restart_ssh s"
    "dolongjmp s' = dolongjmp s" "SECS_LEFT s' = SECS_LEFT s" "n_wait s' = n_wait s" "n_fork s' = n_fork s"
proof -
  let ?f = "\<lambda>u. (config u, launch u, sigenv u, kills (trace u), slept (trace u), cchild u, ssh_stderr_fd u,
    pipe_lost_time u, exit_signalled u, restart_ssh u, dolongjmp u, SECS_LEFT u, n_wait u, n_fork u)"
  have "?f s' = ?f s"
    using assms
  proof (cases rule: ssh_wait_cases)
    case none
    then show ?thesis by (simp add: emit_def)
  next
    case (reaped d t l m)
    from reaped(2) check_ssh_stderr_kept [OF reaped(1)] show ?thesis
      by (auto simp: emit_def errlog_upd tick_def sigenv_def)
  qed
  then show "config s' = config s" "launch s' = launch s" "sigenv s' = sigenv s"
    "kills (trace s') = kills (trace s)" "slept (trace s') = slept (trace s)"
    "cchild s' = cchild s" "ssh_stderr_fd s' = ssh_stderr_fd s" "pipe_lost_time s' = pipe_lost_time s"
    "exit_signalled s' = exit_signalled s" "restart_ssh s' = restart_ssh s"
    "dolongjmp s' = dolongjmp s" "SECS_LEFT s' = SECS_LEFT s" "n_wait s' = n_wait s" "n_fork s' = n_fork s"
    by simp_all
qed

section \<open>The policy\<close>

text \<open>
  The policy stated on its own: how a child ended, and what the restart loop makes of it. A
  status that is neither an exit nor a death (stopped, continued) ends nothing.
\<close>

datatype ending = Running | Signalled int | Exited int

definition ending_of :: "int \<times> int \<times> int \<Rightarrow> ending" where
  "ending_of p = (case p of (w, st, e) \<Rightarrow>
     if w \<le> 0 then Running else if WIFSIGNALED st then Signalled (WTERMSIG st)
     else if WIFEXITED st then Exited (WEXITSTATUS st) else Running)"

text \<open>\<open>first\<close>: this is the first start. \<open>gated\<close>: the gate time is on. \<open>early\<close>: the child ended
  within it.\<close>

fun policy :: "ending \<Rightarrow> bool \<Rightarrow> bool \<Rightarrow> bool \<Rightarrow> int" where
  "policy Running _ _ _ = P_CONTINUE"
| "policy (Signalled _) _ _ _ = P_RESTART"
| "policy (Exited v) first gated early =
     (if first \<and> gated \<and> early then P_EXITERR
      else if v = 255 then P_RESTART
      else if v = 0 then P_EXITOK
      else if v \<in> {1, 2} \<and> \<not> (first \<and> gated) then P_RESTART
      else P_EXITERR)"

text \<open>The clock reading of the gate test: after the reads of the drain.\<close>

definition wait_clock :: "os \<Rightarrow> proc \<Rightarrow> int" where
  "wait_clock os s = os_time os (n_time s +
     (if ssh_stderr_fd s < 0 then 0 else length (consumed (os_drain os (n_read s)))))"

lemma check_ssh_stderr_clock:
  "check_ssh_stderr os s = (r, t) \<Longrightarrow> now os t = wait_clock os s"
  using drain_effect [of os "os_drain os (n_read s)" "s\<lparr>n_read := Suc (n_read s)\<rparr>" r t]
  by (auto simp: check_ssh_stderr_def wait_clock_def now_def split: if_splits)

lemma frame_sel:
  "config t = config s \<Longrightarrow> gate_time t = gate_time s"
  "launch t = launch s \<Longrightarrow> start_count t = start_count s"
  "launch t = launch s \<Longrightarrow> start_time t = start_time s"
  by (simp_all add: config_def launch_def)

section \<open>Claims\<close>

text \<open>C11: The verdict of a reap is the restart policy applied to how the child ended, for every
  start after the first one: restart on a signal and on 255, 1 or 2 past the first gated start,
  stop cleanly on 0, stop with an error otherwise and on any exit inside the gate time of the
  first start; a child that is still running, or only stopped, changes nothing.\<close>

theorem ssh_wait_policy:
  assumes "1 \<le> start_count s"
  shows "fst (ssh_wait os options s) =
    policy (ending_of (os_waitpid os (n_waitpid s))) (start_count s = 1) (gate_time s \<noteq> 0)
      (difftime (wait_clock os s) (start_time s) \<le> gate_time s)"
proof -
  obtain w st e where w: "os_waitpid os (n_waitpid s) = (w, st, e)" by (metis prod_cases3)
  let ?s1 = "emit (Waitpid (cchild s) options) (s\<lparr>n_waitpid := Suc (n_waitpid s)\<rparr>)"
  obtain d t where d: "check_ssh_stderr os ?s1 = (d, t)" by fastforce
  have c: "now os t = wait_clock os s"
    using check_ssh_stderr_clock [OF d] by (simp add: wait_clock_def emit_def)
  have k: "gate_time t = gate_time s" "start_count t = start_count s" "start_time t = start_time s"
    using frame_sel [of t s] check_ssh_stderr_kept(1,2) [OF d] by (simp_all add: emit_def)
  have k': "gate_time (tick t) = gate_time s" "start_count (tick t) = start_count s"
    using k by (simp_all add: tick_def)
  show ?thesis
    using assms w d by (simp add: ssh_wait_def ending_of_def exit_policy_def Let_def c k k')
qed

theorem ssh_wait_policy_witness:
  "let os = idle_os\<lparr>os_waitpid := (\<lambda>_. (42, 256, 0))\<rparr>; s = initial_proc\<lparr>cchild := 42, start_count := 2\<rparr>
   in 1 \<le> start_count s \<and> fst (ssh_wait os WNOHANG s) = P_RESTART"
  using ssh_wait_policy [of "initial_proc\<lparr>cchild := 42, start_count := 2\<rparr>"
      "idle_os\<lparr>os_waitpid := (\<lambda>_. (42, 256, 0))\<rparr>" WNOHANG]
  by (simp add: ending_of_def WIFSIGNALED_def WIFEXITED_def WTERMSIG_def WEXITSTATUS_def drop_bit_eq_div)

end
