(* ===== verification/Watch.thy ===== *)
theory Watch
  imports Wait Conn
begin

text \<open>
  \<^verbatim>\<open>src/watch.rs\<close>: the monitoring loop. One iteration blocks the handled signals, polls the
  child, arms the alarm and waits; a signal that arrives in the wait jumps back to the
  \<^verbatim>\<open>sigsetjmp\<close> and is dispatched in the second branch. The local \<^verbatim>\<open>my_poll_time\<close> keeps across the
  jump the value it had when the wait began.
\<close>

section \<open>Signal masks\<close>

definition build_blockmask :: "int list" where
  "build_blockmask = [SIGCHLD, SIGALRM, SIGINT, SIGTERM, SIGHUP, SIGUSR1, SIGUSR2]"

text \<open>\<^verbatim>\<open>sigprocmask(SIG_BLOCK, blockmask)\<close> and \<^verbatim>\<open>sigprocmask(SIG_SETMASK, savedmask)\<close>; the second
  unblocks, so what is pending is delivered there.\<close>

definition block_signals :: "proc \<Rightarrow> proc" where
  "block_signals s = s\<lparr>sigmask := sigmask s @ filter (\<lambda>g. g \<notin> set (sigmask s)) build_blockmask\<rparr>"

definition restore_mask :: "os \<Rightarrow> int list \<Rightarrow> (proc, unit) prog" where
  "restore_mask os savedmask s = async_point os (s\<lparr>sigmask := savedmask\<rparr>)"

section \<open>Leaving the loop\<close>

datatype watch_next = Again int | Verdict int

definition ret :: "os \<Rightarrow> int list \<Rightarrow> int \<Rightarrow> (proc, watch_next) prog" where
  "ret os savedmask rc = then_p (restore_mask os savedmask) (return_p (Verdict rc))"

definition kill_ret :: "os \<Rightarrow> int list \<Rightarrow> int \<Rightarrow> (proc, watch_next) prog" where
  "kill_ret os savedmask rc = then_p (ssh_kill os) (ret os savedmask rc)"

definition msg_release :: string where
  "msg_release = ''waiting '' @ show_int PORT_FWD_FAIL_DELAY @ '' seconds for port to be released''"

text \<open>The reaction to a fatal message on stderr, the same in both branches.\<close>

definition port_failed_ret :: "os \<Rightarrow> int list \<Rightarrow> (proc, watch_next) prog" where
  "port_failed_ret os savedmask =
     then_p (ssh_kill os)
       (then_p (modify_p (errlog os LOG_INFO msg_release))
         (then_p (sleep_p os PORT_FWD_FAIL_DELAY) (ret os savedmask P_RESTART)))"

section \<open>The alarm\<close>

text \<open>\<open>SECS_LEFT\<close> as the first branch computes it, from what the previous alarm left.\<close>

definition secs_poll :: "int \<Rightarrow> int \<Rightarrow> int" where
  "secs_poll left my_poll_time = (if i32 left = 0 then my_poll_time else i32 left)"

definition secs_lifetime :: "os \<Rightarrow> int \<Rightarrow> proc \<Rightarrow> int" where
  "secs_lifetime os secs s =
     (if max_lifetime s \<noteq> 0 then
        let secs_to_shutdown = f64_sub (max_lifetime s) (difftime (now os s) (pid_start_time s))
        in if secs_to_shutdown < f64_of_int (poll_time s) then f64_to_i32 secs_to_shutdown else secs
      else secs)"

definition secs_session :: "int \<Rightarrow> proc \<Rightarrow> int" where
  "secs_session secs s =
     (if max_session s > 0 \<and> f64_of_int secs > max_session s then f64_to_i32 (max_session s) else secs)"

definition arm_alarm :: "os \<Rightarrow> int \<Rightarrow> proc \<Rightarrow> proc" where
  "arm_alarm os my_poll_time s0 =
     (let (left, s) = clear_alarm_timer os s0;
          secs = secs_session (secs_lifetime os (secs_poll left my_poll_time) s) s;
          s = (if max_lifetime s \<noteq> 0 then tick s else s)
      in emit (Alarm (u32 secs)) (s\<lparr>SECS_LEFT := secs, dolongjmp := 1\<rparr>))"

section \<open>The wait\<close>

text \<open>
  \<^verbatim>\<open>ppoll\<close> or \<^verbatim>\<open>sigsuspend\<close> under the saved mask. The result is \<^verbatim>\<open>revents\<close>, 0 after a signal
  that did not jump; the previous mask is back when the call returns and, through
  \<^verbatim>\<open>siglongjmp\<close>, when a handler jumps.
\<close>

definition wait_point :: "os \<Rightarrow> int list \<Rightarrow> (proc, int) prog" where
  "wait_point os savedmask s =
     (let s1 = (emit Pause s)\<lparr>sigmask := savedmask, n_wait := Suc (n_wait s)\<rparr>
      in case os_wait os (n_wait s) of
           WakePoll revents \<Rightarrow> (Return revents, s1\<lparr>sigmask := sigmask s\<rparr>)
         | WakeSig g \<Rightarrow> (case deliver os g s1 of
              (Return _, s2) \<Rightarrow> (Return 0, s2\<lparr>sigmask := sigmask s\<rparr>)
            | (Exit c, s2) \<Rightarrow> (Exit c, s2)
            | (Killed k, s2) \<Rightarrow> (Killed k, s2)
            | (Longjmp k, s2) \<Rightarrow> (Longjmp k, s2\<lparr>sigmask := sigmask s\<rparr>)))"

definition pipe_closed :: "os \<Rightarrow> proc \<Rightarrow> proc" where
  "pipe_closed os s0 =
     (let s = (emit (Close (ssh_stderr_fd s0)) (errlog os LOG_INFO ''SSH stderr pipe closed'' s0))
                \<lparr>ssh_stderr_fd := -1\<rparr>
      in if pipe_lost_time s = 0 then (tick s)\<lparr>pipe_lost_time := now os s\<rparr> else s)"

text \<open>What follows the wait when the stderr descriptor was polled.\<close>

definition after_poll :: "os \<Rightarrow> int list \<Rightarrow> int \<Rightarrow> (proc, watch_next) prog" where
  "after_poll os savedmask revents s0 =
     (let (r, s) = (if has_flag revents POLLIN then check_ssh_stderr os s0 else (0, s0))
      in if r \<noteq> 0 then port_failed_ret os savedmask s
         else if has_flag revents (POLLHUP OR POLLERR) \<and> \<not> has_flag revents POLLIN
         then (Return (Again (poll_time s)), pipe_closed os s)
         else (Return (Again (poll_time s)), s))"

section \<open>The two branches\<close>

definition watch_wait :: "os \<Rightarrow> int list \<Rightarrow> (proc, watch_next) prog" where
  "watch_wait os savedmask s =
     (if exit_signalled s \<noteq> 0
      then kill_ret os savedmask P_EXITERR (errlog os LOG_INFO ''signalled to exit'' (s\<lparr>dolongjmp := 0\<rparr>))
      else bind_p (wait_point os savedmask) (\<lambda>revents t.
        let t = t\<lparr>dolongjmp := 0\<rparr> in
        if ssh_stderr_fd s \<ge> 0 then after_poll os savedmask revents t
        else (Return (Again (poll_time t)), t)) s)"

definition watch_try :: "os \<Rightarrow> int list \<Rightarrow> int \<Rightarrow> (proc, watch_next) prog" where
  "watch_try os savedmask my_poll_time s0 =
     (let (r, s) = ssh_wait os WNOHANG s0
      in if r \<noteq> P_CONTINUE then ret os savedmask r s
         else watch_wait os savedmask (arm_alarm os my_poll_time s))"

definition msg_pipe_stuck :: "rat \<Rightarrow> string" where
  "msg_pipe_stuck d = ''ssh child stuck for '' @ show_int (f64_trunc d)
     @ '' secs after stderr pipe lost; restarting''"

definition msg_connect_stuck :: "rat \<Rightarrow> string" where
  "msg_connect_stuck d = ''ssh produced no stderr in '' @ show_int (f64_trunc d)
     @ '' secs since start; assuming stuck in connect, restarting''"

text \<open>The two session watchdogs: \<open>Some\<close> message when one of them fires.\<close>

definition session_watchdog :: "int \<Rightarrow> proc \<Rightarrow> string option" where
  "session_watchdog t s =
     (if pipe_lost_time s \<noteq> 0 \<and> difftime t (pipe_lost_time s) \<ge> max_session s
      then Some (msg_pipe_stuck (difftime t (pipe_lost_time s)))
      else if last_stderr_time s = 0 \<and> difftime t (start_time s) \<ge> max_session s
      then Some (msg_connect_stuck (difftime t (start_time s)))
      else None)"

text \<open>The end of the SIGALRM case: the stderr drain and the connection test.\<close>

definition alarm_checks :: "os \<Rightarrow> int \<Rightarrow> int list \<Rightarrow> (proc, watch_next) prog" where
  "alarm_checks os sock savedmask s0 =
     (let (r, s) = check_ssh_stderr os s0 in
      if r \<noteq> 0 then port_failed_ret os savedmask s
      else case writep s of
        None \<Rightarrow> (Return (Again (poll_time s)), s)
      | Some wp \<Rightarrow>
          if sock = -1 then (Return (Again (poll_time s)), s)
          else bind_p (conn_test os sock (mhost s) wp) (\<lambda>up s.
            if up = 0 then kill_ret os savedmask P_RESTART (errlog os LOG_INFO ''port down, restarting ssh'' s)
            else (Return (Again (poll_time s)), s)) s)"

definition on_alarm :: "os \<Rightarrow> int \<Rightarrow> int list \<Rightarrow> (proc, watch_next) prog" where
  "on_alarm os sock savedmask s0 =
     (let (r, s) = exceeded_lifetime os s0 in
      if r \<noteq> 0 then kill_ret os savedmask P_EXITOK s
      else if max_session s > 0 then
        (case session_watchdog (now os s) s of
           Some m \<Rightarrow> kill_ret os savedmask P_RESTART (errlog os LOG_WARNING m (tick s))
         | None \<Rightarrow> alarm_checks os sock savedmask (tick s))
      else alarm_checks os sock savedmask s)"

definition msg_exit_signal :: "int \<Rightarrow> string" where
  "msg_exit_signal v = ''received signal to exit ('' @ show_int v @ '')''"

definition watch_catch :: "os \<Rightarrow> int \<Rightarrow> int list \<Rightarrow> int \<Rightarrow> (proc, watch_next) prog" where
  "watch_catch os sock savedmask val =
     then_p (restore_mask os savedmask) (\<lambda>s.
       if val \<in> {SIGINT, SIGTERM, SIGQUIT, SIGABRT}
       then kill_ret os savedmask P_EXITERR (errlog os LOG_INFO (msg_exit_signal val) s)
       else if val = SIGALRM then on_alarm os sock savedmask s
       else (Return (Again (poll_time s)), s))"

definition watch_iter :: "os \<Rightarrow> int \<Rightarrow> int list \<Rightarrow> int \<Rightarrow> (proc, watch_next) prog" where
  "watch_iter os sock savedmask my_poll_time s0 =
     (let s = block_signals s0 in
      if restart_ssh s \<noteq> 0
      then kill_ret os savedmask P_RESTART (errlog os LOG_INFO ''signalled to kill and restart ssh'' s)
      else case watch_try os savedmask my_poll_time s of
        (Longjmp val, s) \<Rightarrow> watch_catch os sock savedmask val s
      | (Return n, s) \<Rightarrow> (Return n, s)
      | (Exit c, s) \<Rightarrow> (Exit c, s)
      | (Killed g, s) \<Rightarrow> (Killed g, s))"

text \<open>The loop; \<open>None\<close> is a session that is watched forever.\<close>

partial_function (option) watch_loop ::
  "os \<Rightarrow> int \<Rightarrow> int list \<Rightarrow> int \<Rightarrow> proc \<Rightarrow> (int flow \<times> proc) option" where
  "watch_loop os sock savedmask my_poll_time s =
     (case watch_iter os sock savedmask my_poll_time s of
        (Return n, s') \<Rightarrow> (case n of
           Again p \<Rightarrow> watch_loop os sock savedmask p s'
         | Verdict v \<Rightarrow> Some (Return v, s'))
      | (Exit c, s') \<Rightarrow> Some (Exit c, s')
      | (Killed g, s') \<Rightarrow> Some (Killed g, s')
      | (Longjmp g, s') \<Rightarrow> Some (Longjmp g, s'))"

definition ssh_watch :: "os \<Rightarrow> int \<Rightarrow> proc \<Rightarrow> (int flow \<times> proc) option" where
  "ssh_watch os sock s = watch_loop os sock (sigmask s) (first_poll_time s) (block_signals s)"

declare block_signals_def [run] restore_mask_def [run] ret_def [run] kill_ret_def [run]
  port_failed_ret_def [run] secs_poll_def [run] secs_lifetime_def [run] secs_session_def [run]
  arm_alarm_def [run] wait_point_def [run] pipe_closed_def [run] after_poll_def [run]
  watch_wait_def [run] watch_try_def [run] session_watchdog_def [run] alarm_checks_def [run]
  on_alarm_def [run] watch_catch_def [run] watch_iter_def [run]

section \<open>What one iteration may do\<close>

text \<open>The part of the process that a session which goes on leaves alone: settings, start
  bookkeeping, dispositions, the child and the signals sent.\<close>

definition core :: "proc \<Rightarrow> _" where
  "core s = (config s, launch s, disp s, cchild s, kills (trace s), n_fork s)"

definition quits :: "os \<Rightarrow> unit flow \<Rightarrow> proc \<Rightarrow> bool" where
  "quits os r t \<longleftrightarrow> calm t \<and> (r = Exit 1 \<or> ended os t r)"

text \<open>The child was ended by the teardown: it got its signals and nothing else was signalled.\<close>

definition killed_from :: "proc \<Rightarrow> proc \<Rightarrow> bool" where
  "killed_from s t \<longleftrightarrow> cchild t = 0 \<and> ssh_stderr_fd t < 0 \<and>
     (\<exists>ks \<in> kill_sequences (cchild s). kills (trace t) = kills (trace s) @ ks) \<and>
     config t = config s \<and> launch t = launch s \<and> disp t = disp s \<and> n_fork t = n_fork s"

lemma killed_from_core: "core s = core s' \<Longrightarrow> killed_from s t = killed_from s' t"
  by (simp add: core_def killed_from_def)

lemma core_upd [simp]:
  "core (s\<lparr>sigmask := k\<rparr>) = core s" "core (s\<lparr>dolongjmp := i\<rparr>) = core s" "core (s\<lparr>SECS_LEFT := i\<rparr>) = core s"
  "core (s\<lparr>n_wait := n\<rparr>) = core s" "core (errlog os l m s) = core s" "core (tick s) = core s"
  "core (block_signals s) = core s" "core (s\<lparr>n_alarm := n\<rparr>) = core s"
  by (simp_all add: core_def errlog_upd tick_def block_signals_def)

lemma calm_upd [simp]:
  "calm (s\<lparr>sigmask := k\<rparr>) = calm s" "calm (s\<lparr>dolongjmp := 0\<rparr>)" "calm (s\<lparr>n_wait := n\<rparr>) = calm s"
  "calm (errlog os l m s) = calm s" "calm (tick s) = calm s" "calm (block_signals s) = calm s"
  by (simp_all add: calm_def errlog_upd tick_def block_signals_def)

lemma async_keeps:
  assumes "calm s"
  shows "ok (\<lambda>_ t. calm t \<and> (core t, sigmask t, ssh_stderr_fd t, n_wait t) = (core s, sigmask s, ssh_stderr_fd s, n_wait s))
    (quits os) (async_point os s)"
  using ok_conj [OF ok_triple [OF triple_async_point assms] async_ok
      [of "\<lambda>s. (core s, sigmask s, ssh_stderr_fd s, n_wait s)" s os]]
  by (rule ok_mono) (auto simp: core_def quits_def)

lemma restore_keeps:
  assumes "calm s"
  shows "ok (\<lambda>_ t. calm t \<and> core t = core s \<and> sigmask t = savedmask \<and> ssh_stderr_fd t = ssh_stderr_fd s \<and> n_wait t = n_wait s)
    (quits os) (restore_mask os savedmask s)"
  unfolding restore_mask_def
  by (rule ok_mono [OF async_keeps [of "s\<lparr>sigmask := savedmask\<rparr>" os]]) (use assms in auto)

lemma ret_keeps:
  assumes "calm s"
  shows "ok (\<lambda>x t. x = Verdict rc \<and> calm t \<and> core t = core s \<and> sigmask t = savedmask \<and>
      ssh_stderr_fd t = ssh_stderr_fd s \<and> n_wait t = n_wait s)
    (quits os) (ret os savedmask rc s)"
  unfolding ret_def by (rule ok_then, rule restore_keeps [OF assms]) simp

lemma kill_keeps:
  assumes "calm s"
  shows "ok (\<lambda>_ t. calm t \<and> killed_from s t \<and> n_wait t = n_wait s) (quits os) (ssh_kill os s)"
proof -
  obtain r t where k: "ssh_kill os s = (r, t)" by fastforce
  have q: "ok (\<lambda>_. calm) (quits os) (ssh_kill os s)"
    by (rule ok_mono [OF ok_triple [OF ssh.kill_calm assms]]) (auto simp: quits_def)
  show ?thesis
  proof (cases r)
    case (Return u)
    then have "killed_from s t" "n_wait t = n_wait s"
      using ssh.kill_gone [of os s t] ssh.kill_fd [OF k] ssh.kill_signals [OF k] ssh.kill_kept [OF k] k
      by (auto simp: killed_from_def kept_def sigenv_def)
    with q k Return show ?thesis by simp
  qed (use q k in auto)
qed

lemma killed_from_trans: "killed_from s t \<Longrightarrow> core u = core t \<Longrightarrow> ssh_stderr_fd u = ssh_stderr_fd t \<Longrightarrow> killed_from s u"
  by (simp add: killed_from_def core_def)

text \<open>The shape of every verdict that ends the child.\<close>

definition killed_verdict :: "int list \<Rightarrow> proc \<Rightarrow> int \<Rightarrow> watch_next \<Rightarrow> proc \<Rightarrow> bool" where
  "killed_verdict savedmask s rc x t \<longleftrightarrow>
     x = Verdict rc \<and> calm t \<and> sigmask t = savedmask \<and> killed_from s t \<and> n_wait t = n_wait s"

lemma errlog_fd [simp]: "ssh_stderr_fd (errlog os l m s) = ssh_stderr_fd s" "n_wait (tick s) = n_wait s"
  "n_wait (errlog os l m s) = n_wait s" "n_wait (block_signals s) = n_wait s"
  by (simp_all add: errlog_upd tick_def block_signals_def)

lemma ret_killed:
  assumes "calm t" "killed_from s t" "n_wait t = n_wait s"
  shows "ok (killed_verdict savedmask s rc) (quits os) (ret os savedmask rc t)"
  by (rule ok_mono [OF ret_keeps [OF assms(1)]])
    (use killed_from_trans [OF assms(2)] assms(3) in \<open>auto simp: killed_verdict_def\<close>)

lemma kill_ret_keeps:
  assumes "calm s"
  shows "ok (killed_verdict savedmask s rc) (quits os) (kill_ret os savedmask rc s)"
  unfolding kill_ret_def by (rule ok_then, rule kill_keeps [OF assms]) (simp add: ret_killed)

lemma port_failed_ret_keeps:
  assumes "calm s"
  shows "ok (killed_verdict savedmask s P_RESTART) (quits os) (port_failed_ret os savedmask s)"
proof -
  have sl: "ok (\<lambda>_ u. calm u \<and> killed_from s u \<and> n_wait u = n_wait s) (quits os)
      (sleep_p os PORT_FWD_FAIL_DELAY t)" if "calm t" "killed_from s t" "n_wait t = n_wait s" for t
    unfolding sleep_p_def
    by (rule ok_mono [OF async_keeps])
      (use that in \<open>auto simp: emit_def core_def calm_def intro!: killed_from_trans [OF that(2)]\<close>)
  have k: "killed_from s (errlog os l m t)" if "killed_from s t" for l m t
    by (rule killed_from_trans [OF that]) simp_all
  show ?thesis
    unfolding port_failed_ret_def
    by (rule ok_then, rule kill_keeps [OF assms], simp, rule ok_then, rule sl)
      (simp_all add: k ret_killed)
qed

text \<open>
  Every way an iteration can end, for a state whose jumps are disarmed: it goes on with nothing
  but bookkeeping changed and one more wait done, it leaves with the verdict of the reaper and
  the child untouched, or it leaves with a verdict after the teardown.
\<close>

definition iter_post :: "os \<Rightarrow> int list \<Rightarrow> proc \<Rightarrow> watch_next \<Rightarrow> proc \<Rightarrow> bool" where
  "iter_post os savedmask s x t \<longleftrightarrow> calm t \<and> (case x of
     Again p \<Rightarrow> p = poll_time s \<and> core t = core s \<and> n_wait t = Suc (n_wait s)
   | Verdict v \<Rightarrow> sigmask t = savedmask \<and> n_wait t \<le> Suc (n_wait s) \<and>
       (v \<in> {P_RESTART, P_EXITOK, P_EXITERR} \<and> core t = core s \<and> ssh_stderr_fd t = ssh_stderr_fd s \<or>
        v \<in> {P_RESTART, P_EXITOK, P_EXITERR} \<and> killed_from s t))"

lemma killed_iter_post:
  assumes "ok (killed_verdict savedmask s' rc) E p" "core s' = core s" "rc \<in> {P_RESTART, P_EXITOK, P_EXITERR}"
    "n_wait s' \<le> Suc (n_wait s)"
  shows "ok (iter_post os savedmask s) E p"
  using assms(1) by (rule ok_mono)
    (use killed_from_core [OF assms(2)] assms(3,4) in \<open>auto simp: killed_verdict_def iter_post_def\<close>)

lemma core_sel: "core t = core s \<Longrightarrow> poll_time t = poll_time s" "core t = core s \<Longrightarrow> cchild t = cchild s"
  "core t = core s \<Longrightarrow> disp t = disp s" "core t = core s \<Longrightarrow> max_session t = max_session s"
  "core t = core s \<Longrightarrow> config t = config s"
  by (simp_all add: core_def config_def)

lemma check_ssh_stderr_core:
  assumes "check_ssh_stderr os s = (r, t)"
  shows "core t = core s" "calm t = calm s" "n_wait t = n_wait s" "sigmask t = sigmask s"
  using check_ssh_stderr_kept [OF assms] by (simp_all add: core_def calm_def sigenv_def)

lemma pipe_closed_core:
  "core (pipe_closed os s) = core s" "calm (pipe_closed os s) = calm s" "n_wait (pipe_closed os s) = n_wait s"
  by (simp_all add: pipe_closed_def Let_def core_def calm_def emit_def errlog_upd tick_def)

lemma after_poll_keeps:
  assumes "calm s" "n_wait s = Suc (n_wait s0)" "core s = core s0"
  shows "ok (iter_post os savedmask s0) (quits os) (after_poll os savedmask revents s)"
proof -
  obtain r t where c: "(if has_flag revents POLLIN then check_ssh_stderr os s else (0, s)) = (r, t)"
    by fastforce
  have t: "core t = core s0" "calm t" "n_wait t = Suc (n_wait s0)"
    using c assms check_ssh_stderr_core [of os s r t] by (auto split: if_splits)
  then show ?thesis
    unfolding after_poll_def c
    using killed_iter_post [OF port_failed_ret_keeps, of t s0 os savedmask] core_sel(1) [OF t(1)]
    by (auto simp: iter_post_def pipe_closed_core)
qed

lemma arm_alarm_core:
  "core (arm_alarm os p s) = core s" "n_wait (arm_alarm os p s) = n_wait s" "dolongjmp (arm_alarm os p s) = 1"
  "ssh_stderr_fd (arm_alarm os p s) = ssh_stderr_fd s" "exit_signalled (arm_alarm os p s) = exit_signalled s"
  "disp (arm_alarm os p s) = disp s" "sigmask (arm_alarm os p s) = sigmask s"
  by (simp_all add: arm_alarm_def clear_alarm_timer_def Let_def core_def emit_def tick_def)

text \<open>
  The wait. A signal that wakes it either ends the process, or jumps, which disarms, or leaves
  the jump armed; the mask is the blocked one again in the last two cases.
\<close>

lemma deliver_core:
  "deliver os g s = (r, t) \<Longrightarrow> core t = core s \<and> n_wait t = n_wait s \<and> ssh_stderr_fd t = ssh_stderr_fd s"
  by (auto simp: deliver_def sig_catch_def jump_if_armed_def core_def split: if_splits disposition.splits)

lemma deliver_abrupt:
  assumes "deliver os g s = (r, t)"
  shows "case r of Return _ \<Rightarrow> True | Exit c \<Rightarrow> c = 1 | Killed k \<Rightarrow> disp t k = SIG_DFL \<and> os_dfl_term os k
    | Longjmp k \<Rightarrow> k = g \<and> calm t \<and> (\<exists>m b. disp s g = SIG_CATCH m b) \<and> g \<notin> set (sigmask s)"
  using assms
  by (auto simp: deliver_def sig_catch_def jump_if_armed_def calm_def split: if_splits disposition.splits)

definition gone :: "os \<Rightarrow> unit flow \<Rightarrow> proc \<Rightarrow> bool" where
  "gone os r t \<longleftrightarrow> r = Exit 1 \<or> (\<exists>g. r = Killed g \<and> disp t g = SIG_DFL \<and> os_dfl_term os g)"

lemma quits_gone: "quits os r t \<Longrightarrow> gone os r t"
  by (auto simp: quits_def ended_def gone_def)

text \<open>Abrupt ends inside the first branch: the process is gone, or the wait was jumped out of.\<close>

definition try_abrupt :: "os \<Rightarrow> proc \<Rightarrow> unit flow \<Rightarrow> proc \<Rightarrow> bool" where
  "try_abrupt os s r t \<longleftrightarrow> (case r of
     Longjmp g \<Rightarrow> calm t \<and> core t = core s \<and> n_wait t = Suc (n_wait s) \<and> os_wait os (n_wait s) = WakeSig g \<and>
       ssh_stderr_fd t = ssh_stderr_fd s
   | _ \<Rightarrow> gone os r t)"

lemma wait_point_keeps:
  "ok (\<lambda>_ t. core t = core s \<and> n_wait t = Suc (n_wait s) \<and> ssh_stderr_fd t = ssh_stderr_fd s \<and> sigmask t = sigmask s)
     (try_abrupt os s) (wait_point os savedmask s)"
proof (cases "os_wait os (n_wait s)")
  case (WakePoll rev)
  then show ?thesis by (simp add: wait_point_def core_def emit_def)
next
  case (WakeSig g)
  let ?s1 = "(emit Pause s)\<lparr>sigmask := savedmask, n_wait := Suc (n_wait s)\<rparr>"
  obtain r t where d: "deliver os g ?s1 = (r, t)" by fastforce
  have s1: "core ?s1 = core s" "n_wait ?s1 = Suc (n_wait s)" "ssh_stderr_fd ?s1 = ssh_stderr_fd s" "disp ?s1 = disp s"
    by (simp_all add: core_def emit_def)
  then show ?thesis
    using deliver_core [OF d] deliver_abrupt [OF d] core_sel(3) [of t s] WakeSig d
    by (cases r) (auto simp: wait_point_def Let_def try_abrupt_def gone_def)
qed

lemma quits_try: "quits os r t \<Longrightarrow> try_abrupt os s r t"
  by (cases r) (auto simp: quits_def ended_def try_abrupt_def gone_def)

lemma gone_try: "(\<And>g. r \<noteq> Longjmp g) \<Longrightarrow> gone os r t \<Longrightarrow> try_abrupt os s r t"
  by (cases r) (auto simp: try_abrupt_def)

lemma try_abrupt_cong:
  "core s' = core s \<Longrightarrow> n_wait s' = n_wait s \<Longrightarrow> ssh_stderr_fd s' = ssh_stderr_fd s \<Longrightarrow>
   try_abrupt os s' r t = try_abrupt os s r t"
  by (simp add: try_abrupt_def split: flow.split)

lemma watch_wait_keeps:
  assumes "core s = core s0" "n_wait s = n_wait s0" "ssh_stderr_fd s = ssh_stderr_fd s0"
  shows "ok (iter_post os savedmask s0) (try_abrupt os s0) (watch_wait os savedmask s)"
proof (cases "exit_signalled s = 0")
  case False
  then show ?thesis
    using assms(1,2)
    by (simp add: watch_wait_def)
      (rule ok_mono [OF killed_iter_post [OF kill_ret_keeps]], auto intro: quits_try)
next
  case True
  have w: "ok (\<lambda>_ t. core t = core s0 \<and> n_wait t = Suc (n_wait s0)) (try_abrupt os s0) (wait_point os savedmask s)"
    by (rule ok_mono [OF wait_point_keeps]) (use assms in \<open>auto simp: try_abrupt_cong [of s s0]\<close>)
  have a: "ok (iter_post os savedmask s0) (try_abrupt os s0) (after_poll os savedmask r (t\<lparr>dolongjmp := 0\<rparr>))"
    if "core t = core s0" "n_wait t = Suc (n_wait s0)" for r t
    by (rule ok_mono [OF after_poll_keeps]) (use that quits_try in auto)
  from True show ?thesis
    by (simp add: watch_wait_def) (rule ok_bind, rule w, auto simp: a Let_def iter_post_def intro: core_sel)
qed

lemma ssh_wait_core:
  assumes "ssh_wait os options s = (r, t)"
  shows "core t = core s" "n_wait t = n_wait s" "ssh_stderr_fd t = ssh_stderr_fd s" "calm t = calm s"
    "r \<in> {P_CONTINUE, P_RESTART, P_EXITOK, P_EXITERR}"
proof -
  show "core t = core s" "n_wait t = n_wait s" "ssh_stderr_fd t = ssh_stderr_fd s" "calm t = calm s"
    using ssh_wait_kept [OF assms] by (simp_all add: core_def calm_def sigenv_def)
  have "fst (ssh_wait os options s) \<in> {P_CONTINUE, P_RESTART, P_EXITOK, P_EXITERR}"
    by (simp add: ssh_wait_def exit_policy_def Let_def split: prod.split)
  with assms show "r \<in> {P_CONTINUE, P_RESTART, P_EXITOK, P_EXITERR}" by simp
qed

lemma watch_try_keeps:
  assumes "calm s"
  shows "ok (iter_post os savedmask s) (try_abrupt os s) (watch_try os savedmask p s)"
proof -
  obtain r t where w: "ssh_wait os WNOHANG s = (r, t)" by fastforce
  note c = ssh_wait_core [OF w]
  show ?thesis
  proof (cases "r = P_CONTINUE")
    case True
    with w c show ?thesis
      by (simp add: watch_try_def watch_wait_keeps arm_alarm_core)
  next
    case False
    have "ok (iter_post os savedmask s) (try_abrupt os s) (ret os savedmask r t)"
      by (rule ok_mono [OF ret_keeps]) (use c False assms quits_try in \<open>auto simp: iter_post_def\<close>)
    with w False show ?thesis by (simp add: watch_try_def)
  qed
qed

lemma conn_test_core:
  assumes "calm s"
  shows "ok (\<lambda>_ t. calm t \<and> core t = core s \<and> n_wait t = n_wait s \<and> ssh_stderr_fd t = ssh_stderr_fd s \<and> sigmask t = sigmask s)
    (quits os) (conn_test os sock h p s)"
  by (rule ok_mono [OF ok_conj [OF monitor_calm.conn_test_ok [OF assms, of os sock h p]
        monitor_keeps.conn_test_ok [of s "conn_frame s" os sock h p, OF refl]]])
    (auto simp: quits_def conn_frame_def core_def sigenv_def)

text \<open>The second branch: what it needs of the state the jump left, and what it leaves.\<close>

definition catch_pre :: "proc \<Rightarrow> proc \<Rightarrow> bool" where
  "catch_pre s0 s \<longleftrightarrow> calm s \<and> core s = core s0 \<and> n_wait s = Suc (n_wait s0)"

lemma alarm_checks_keeps:
  assumes "catch_pre s0 s"
  shows "ok (iter_post os savedmask s0) (gone os) (alarm_checks os sock savedmask s)"
proof -
  obtain r t where c: "check_ssh_stderr os s = (r, t)" by fastforce
  have t: "calm t" "core t = core s0" "n_wait t = Suc (n_wait s0)"
    using check_ssh_stderr_core [OF c] assms by (simp_all add: catch_pre_def)
  have again: "iter_post os savedmask s0 (Again (poll_time u)) u"
    if "calm u" "core u = core s0" "n_wait u = Suc (n_wait s0)" for u
    using that core_sel(1) [OF that(2)] by (simp add: iter_post_def)
  have down: "ok (iter_post os savedmask s0) (gone os) (kill_ret os savedmask P_RESTART (errlog os l m u))"
    if "calm u" "core u = core s0" "n_wait u = Suc (n_wait s0)" for u l m
    by (rule ok_mono [OF killed_iter_post [OF kill_ret_keeps]]) (use that quits_gone in auto)
  have port: "ok (iter_post os savedmask s0) (gone os) (port_failed_ret os savedmask t)"
    by (rule ok_mono [OF killed_iter_post [OF port_failed_ret_keeps]]) (use t quits_gone in auto)
  have test: "ok (\<lambda>_ u. calm u \<and> core u = core s0 \<and> n_wait u = Suc (n_wait s0)) (gone os)
      (conn_test os sock (mhost t) wp t)" for wp
    by (rule ok_mono [OF conn_test_core]) (use t quits_gone in auto)
  show ?thesis
    unfolding alarm_checks_def c
    by (auto simp: again t port split: option.split intro!: down
        ok_bind [where R = "\<lambda>_ u. calm u \<and> core u = core s0 \<and> n_wait u = Suc (n_wait s0)"] test)
qed

lemma exceeded_lifetime_core:
  assumes "exceeded_lifetime os s = (r, t)"
  shows "core t = core s" "calm t = calm s" "n_wait t = n_wait s" "last_stderr_time t = last_stderr_time s"
    "pipe_lost_time t = pipe_lost_time s" "sigmask t = sigmask s"
  using assms by (auto simp: exceeded_lifetime_def core_def calm_def errlog_upd tick_def split: if_splits)

lemma on_alarm_keeps:
  assumes "catch_pre s0 s"
  shows "ok (iter_post os savedmask s0) (gone os) (on_alarm os sock savedmask s)"
proof -
  obtain r t where c: "exceeded_lifetime os s = (r, t)" by fastforce
  have t: "calm t" "core t = core s0" "n_wait t = Suc (n_wait s0)"
    using exceeded_lifetime_core [OF c] assms by (simp_all add: catch_pre_def)
  have kill: "ok (iter_post os savedmask s0) (gone os) (kill_ret os savedmask rc u)"
    if "calm u" "core u = core s0" "n_wait u = Suc (n_wait s0)" "rc \<in> {P_RESTART, P_EXITOK, P_EXITERR}" for u rc
    by (rule ok_mono [OF killed_iter_post [OF kill_ret_keeps]]) (use that quits_gone in auto)
  have pre: "catch_pre s0 t" "catch_pre s0 (tick t)"
    using t by (auto simp: catch_pre_def)
  show ?thesis
    unfolding on_alarm_def c by (auto simp: t kill pre alarm_checks_keeps split: option.split)
qed

lemma watch_catch_keeps:
  assumes "catch_pre s0 s"
  shows "ok (iter_post os savedmask s0) (gone os) (watch_catch os sock savedmask val s)"
proof -
  have r: "ok (\<lambda>_. catch_pre s0) (gone os) (restore_mask os savedmask s)"
    by (rule ok_mono [OF restore_keeps]) (use assms quits_gone in \<open>auto simp: catch_pre_def\<close>)
  have kill: "ok (iter_post os savedmask s0) (gone os) (kill_ret os savedmask P_EXITERR (errlog os l m u))"
    if "catch_pre s0 u" for u l m
    by (rule ok_mono [OF killed_iter_post [OF kill_ret_keeps]]) (use that quits_gone in \<open>auto simp: catch_pre_def\<close>)
  have again: "iter_post os savedmask s0 (Again (poll_time u)) u" if "catch_pre s0 u" for u
    using that core_sel(1) [of u s0] by (simp add: iter_post_def catch_pre_def)
  show ?thesis
    unfolding watch_catch_def
    by (rule ok_then, rule r) (auto simp: kill on_alarm_keeps again)
qed

lemma watch_iter_keeps:
  assumes "calm s"
  shows "ok (iter_post os savedmask s) (gone os) (watch_iter os sock savedmask p s)"
proof -
  let ?b = "block_signals s"
  have b: "calm ?b" "core ?b = core s" "n_wait ?b = n_wait s" "restart_ssh ?b = restart_ssh s"
    "ssh_stderr_fd ?b = ssh_stderr_fd s" "poll_time ?b = poll_time s"
    using assms by (simp_all add: block_signals_def)
  have post: "iter_post os savedmask ?b = iter_post os savedmask s"
    using killed_from_core [of ?b s] b by (auto simp: iter_post_def fun_eq_iff split: watch_next.split)
  obtain r t where w: "watch_try os savedmask p ?b = (r, t)" by fastforce
  note tr = watch_try_keeps [OF b(1), of os savedmask p, unfolded w post]
  have "ok (iter_post os savedmask s) (gone os)
    (kill_ret os savedmask P_RESTART (errlog os LOG_INFO ''signalled to kill and restart ssh'' ?b))"
    by (rule ok_mono [OF killed_iter_post [OF kill_ret_keeps]]) (use b quits_gone in auto)
  moreover have "ok (iter_post os savedmask s) (gone os) (watch_catch os sock savedmask g t)" if "r = Longjmp g" for g
    by (rule watch_catch_keeps) (use tr that b in \<open>auto simp: try_abrupt_def catch_pre_def\<close>)
  ultimately show ?thesis
    using w tr by (cases r) (auto simp: watch_iter_def Let_def try_abrupt_def)
qed

section \<open>The loop\<close>

text \<open>The loop heads of one watch, and what every one of them satisfies.\<close>

inductive watch_head :: "os \<Rightarrow> int \<Rightarrow> int list \<Rightarrow> int \<Rightarrow> proc \<Rightarrow> int \<Rightarrow> proc \<Rightarrow> bool"
  for os sock savedmask p0 s0 where
  start: "watch_head os sock savedmask p0 s0 p0 s0"
| step: "watch_head os sock savedmask p0 s0 p s \<Longrightarrow>
    watch_iter os sock savedmask p s = (Return (Again p'), s') \<Longrightarrow> watch_head os sock savedmask p0 s0 p' s'"

lemma watch_head_inv:
  assumes "watch_head os sock savedmask p0 s0 p s" "calm s0"
  shows "calm s \<and> core s = core s0 \<and> n_wait s0 \<le> n_wait s \<and> (p = p0 \<or> p = poll_time s0)"
  using assms
proof induction
  case (step p s p' s')
  then have "iter_post os savedmask s (Again p') s'"
    using watch_iter_keeps [of s os savedmask sock p] by simp
  with step core_sel(1) [of s s0] show ?case by (auto simp: iter_post_def)
qed simp

lemma watch_head_cons:
  assumes "watch_iter os sock savedmask p s = (Return (Again p'), s')"
    and "watch_head os sock savedmask p' s' q t"
  shows "watch_head os sock savedmask p s q t"
  using assms(2)
proof induction
  case start
  show ?case by (rule watch_head.step [OF watch_head.start assms(1)])
next
  case (step q t q' t')
  then show ?case by (blast intro: watch_head.step)
qed

definition loop_exit :: "watch_next flow \<Rightarrow> int flow option" where
  "loop_exit r = (case r of Return (Again _) \<Rightarrow> None | Return (Verdict v) \<Rightarrow> Some (Return v)
     | Exit c \<Rightarrow> Some (Exit c) | Killed g \<Rightarrow> Some (Killed g) | Longjmp g \<Rightarrow> Some (Longjmp g))"

definition last_iter :: "os \<Rightarrow> int \<Rightarrow> int list \<Rightarrow> int \<Rightarrow> proc \<Rightarrow> int flow \<times> proc \<Rightarrow> bool" where
  "last_iter os sock savedmask p s v \<longleftrightarrow>
     (\<exists>q u x. watch_head os sock savedmask p s q u \<and>
        watch_iter os sock savedmask q u = (x, snd v) \<and> loop_exit x = Some (fst v))"

lemma watch_loop_last:
  "watch_loop os sock savedmask p s = Some v \<Longrightarrow> last_iter os sock savedmask p s v"
proof (rule watch_loop.raw_induct [where P = last_iter])
  fix f os sock savedmask p s v
  assume IH: "\<And>os sock savedmask p s v. f os sock savedmask p s = Some v \<Longrightarrow> last_iter os sock savedmask p s v"
    and run: "(case watch_iter os sock savedmask p s of
        (Return n, s') \<Rightarrow> (case n of Again p \<Rightarrow> f os sock savedmask p s' | Verdict v \<Rightarrow> Some (Return v, s'))
      | (Exit c, s') \<Rightarrow> Some (Exit c, s') | (Killed g, s') \<Rightarrow> Some (Killed g, s')
      | (Longjmp g, s') \<Rightarrow> Some (Longjmp g, s')) = Some v"
  obtain x s' where i: "watch_iter os sock savedmask p s = (x, s')" by fastforce
  show "last_iter os sock savedmask p s v"
  proof (cases "loop_exit x")
    case None
    then obtain p' where x: "x = Return (Again p')"
      by (auto simp: loop_exit_def split: flow.splits watch_next.splits)
    with run i have "f os sock savedmask p' s' = Some v" by simp
    from IH [OF this] watch_head_cons [OF i [unfolded x]] show ?thesis by (auto simp: last_iter_def)
  next
    case (Some y)
    with run i have "y = fst v" "s' = snd v" by (auto simp: loop_exit_def split: flow.splits watch_next.splits)
    with Some i show ?thesis unfolding last_iter_def by (blast intro: watch_head.start)
  qed
qed

lemma iter_post_head:
  assumes "core s = core s0" "iter_post os savedmask s (Verdict v) t"
  shows "v \<in> {P_RESTART, P_EXITOK, P_EXITERR} \<and> calm t \<and> sigmask t = savedmask \<and> (core t = core s0 \<or> killed_from s0 t)"
  using assms(2) killed_from_core [OF assms(1)] assms(1) by (auto simp: iter_post_def)

lemma watch_loop_post:
  assumes "calm s" "watch_loop os sock savedmask p s = Some (r, t)"
  shows "case r of Return v \<Rightarrow> v \<in> {P_RESTART, P_EXITOK, P_EXITERR} \<and> calm t \<and> sigmask t = savedmask \<and>
      (core t = core s \<or> killed_from s t)
    | _ \<Rightarrow> gone os (void r) t"
proof -
  obtain q u x where h: "watch_head os sock savedmask p s q u"
    and i: "watch_iter os sock savedmask q u = (x, t)" and e: "loop_exit x = Some r"
    using watch_loop_last [OF assms(2)] by (auto simp: last_iter_def)
  note inv = watch_head_inv [OF h assms(1)]
  from watch_iter_keeps [of u os savedmask sock q] inv i
  have "ok (iter_post os savedmask u) (gone os) (x, t)" by simp
  with e inv iter_post_head [of u s os savedmask _ t] show ?thesis
    by (auto simp: loop_exit_def split: flow.splits watch_next.splits)
qed

section \<open>Termination signals\<close>

text \<open>The handlers are installed for the termination signals and the caller's mask admits them.\<close>

definition stoppable :: "int list \<Rightarrow> proc \<Rightarrow> bool" where
  "stoppable savedmask s \<longleftrightarrow> (\<forall>g \<in> {SIGTERM, SIGINT}. g \<notin> set savedmask \<and> (\<exists>m b. disp s g = SIG_CATCH m b))"

text \<open>
  An iteration whose wait would be woken by a termination signal does not go on: it has a
  verdict before it waits, or it waits, and then the verdict is the error exit after a teardown.
\<close>

definition stop_post :: "int list \<Rightarrow> proc \<Rightarrow> watch_next \<Rightarrow> proc \<Rightarrow> bool" where
  "stop_post savedmask s x t \<longleftrightarrow> (case x of Again _ \<Rightarrow> False
     | Verdict v \<Rightarrow> n_wait t = n_wait s \<or> v = P_EXITERR \<and> killed_from s t \<and> sigmask t = savedmask)"

lemma killed_stop_post:
  "ok (killed_verdict savedmask s' rc) E p \<Longrightarrow> n_wait s' = n_wait s \<Longrightarrow> ok (stop_post savedmask s) E p"
  by (erule ok_mono) (auto simp: killed_verdict_def stop_post_def)

lemma wait_point_stop:
  assumes "os_wait os (n_wait s) = WakeSig g" "g \<in> {SIGTERM, SIGINT}" "stoppable savedmask s"
    and "dolongjmp s \<noteq> 0" "exit_signalled s = 0"
  shows "\<exists>t. wait_point os savedmask s = (Longjmp g, t)"
  using assms
  by (auto simp: wait_point_def stoppable_def deliver_def sig_catch_def jump_if_armed_def emit_def Let_def)

lemma watch_try_stop:
  assumes "calm s" "os_wait os (n_wait s) = WakeSig g" "g \<in> {SIGTERM, SIGINT}" "stoppable savedmask s"
  shows "ok (stop_post savedmask s) (\<lambda>_ _. True) (watch_try os savedmask p s)"
proof -
  obtain r t where w: "ssh_wait os WNOHANG s = (r, t)" by fastforce
  note c = ssh_wait_core [OF w]
  let ?a = "arm_alarm os p t"
  have d: "disp t = disp s" using c(1) by (rule core_sel)
  have a: "n_wait ?a = n_wait s" "calm t" "stoppable savedmask ?a" "dolongjmp ?a = 1"
    using assms(1,4) c d by (simp_all add: arm_alarm_core stoppable_def)
  have kill: "ok (stop_post savedmask s) (\<lambda>_ _. True)
      (kill_ret os savedmask P_EXITERR (errlog os LOG_INFO ''signalled to exit'' (?a\<lparr>dolongjmp := 0\<rparr>)))"
    by (rule ok_mono [OF killed_stop_post [OF kill_ret_keeps]]) (use a in auto)
  have "ok (stop_post savedmask s) (\<lambda>_ _. True) (watch_wait os savedmask ?a)"
  proof (cases "exit_signalled ?a = 0")
    case True
    obtain u where "wait_point os savedmask ?a = (Longjmp g, u)"
      using wait_point_stop [of os ?a g savedmask] assms(2,3) a True by auto
    with True show ?thesis by (simp add: watch_wait_def)
  qed (simp add: watch_wait_def kill)
  moreover have "ok (stop_post savedmask s) (\<lambda>_ _. True) (ret os savedmask r t)"
    by (rule ok_mono [OF ret_keeps]) (use c a(2) in \<open>auto simp: stop_post_def\<close>)
  ultimately show ?thesis using w by (simp add: watch_try_def)
qed

lemma watch_iter_stop:
  assumes "calm s" "os_wait os (n_wait s) = WakeSig g" "g \<in> {SIGTERM, SIGINT}" "stoppable savedmask s"
  shows "ok (stop_post savedmask s) (\<lambda>_ _. True) (watch_iter os sock savedmask p s)"
proof -
  let ?b = "block_signals s"
  have b: "calm ?b" "n_wait ?b = n_wait s" "stoppable savedmask ?b" "core ?b = core s"
    using assms(1,4) by (simp_all add: stoppable_def block_signals_def)
  have post: "stop_post savedmask ?b = stop_post savedmask s"
    using killed_from_core [of ?b s] b by (auto simp: stop_post_def fun_eq_iff split: watch_next.split)
  obtain r t where w: "watch_try os savedmask p ?b = (r, t)" by fastforce
  have tr: "ok (stop_post savedmask s) (\<lambda>_ _. True) (r, t)"
    using watch_try_stop [OF b(1) _ assms(3) b(3), of os p] assms(2) b(2) w post by simp
  have kr: "ok (stop_post savedmask s) (\<lambda>_ _. True)
      (kill_ret os savedmask P_RESTART (errlog os LOG_INFO ''signalled to kill and restart ssh'' ?b))"
    by (rule ok_mono [OF killed_stop_post [OF kill_ret_keeps]]) (use b in auto)
  have ca: "ok (stop_post savedmask s) (\<lambda>_ _. True) (watch_catch os sock savedmask g' t)" if "r = Longjmp g'" for g'
  proof -
    have t: "catch_pre s t" "g' = g"
      using watch_try_keeps [OF b(1), of os savedmask p, unfolded w] that b assms(2)
      by (auto simp: try_abrupt_def catch_pre_def)
    have k: "ok (stop_post savedmask s) (\<lambda>_ _. True) (kill_ret os savedmask P_EXITERR (errlog os l m u))"
      if "catch_pre s u" for u l m
      by (rule ok_mono [OF kill_ret_keeps])
        (use that killed_from_core [of "errlog os l m u" s] in \<open>auto simp: catch_pre_def killed_verdict_def stop_post_def\<close>)
    show ?thesis
      unfolding watch_catch_def
      by (rule ok_then [where R = "catch_pre s"], rule ok_mono [OF restore_keeps [of t savedmask os]])
        (use t assms(3) k in \<open>auto simp: catch_pre_def\<close>)
  qed
  show ?thesis
    using w tr kr ca by (cases r) (auto simp: watch_iter_def Let_def)
qed

lemma watch_loop_stops:
  assumes "calm s" "n_wait s \<le> k" "os_wait os k = WakeSig g" "g \<in> {SIGTERM, SIGINT}" "stoppable savedmask s"
  shows "\<exists>r t. watch_loop os sock savedmask p s = Some (r, t) \<and>
    (\<forall>v. r = Return v \<longrightarrow> n_wait t \<le> k \<or> v = P_EXITERR \<and> killed_from s t)"
  using assms(1,2,5)
proof (induction "k - n_wait s" arbitrary: s p rule: less_induct)
  case less
  obtain x t where i: "watch_iter os sock savedmask p s = (x, t)" by fastforce
  have post: "ok (iter_post os savedmask s) (gone os) (x, t)"
    using watch_iter_keeps [OF less(2), of os savedmask sock p] i by simp
  show ?case
  proof (cases "n_wait s = k")
    case True
    then have "ok (stop_post savedmask s) (\<lambda>_ _. True) (x, t)"
      using watch_iter_stop [OF less(2) _ assms(4) less(4), of os sock p] assms(3) i by simp
    with i True show ?thesis
      by (cases x) (auto simp: watch_loop.simps stop_post_def split: watch_next.splits)
  next
    case False
    show ?thesis
    proof (cases "loop_exit x")
      case None
      then obtain q where x: "x = Return (Again q)"
        by (auto simp: loop_exit_def split: flow.splits watch_next.splits)
      with post have t: "calm t" "core t = core s" "n_wait t = Suc (n_wait s)" by (auto simp: iter_post_def)
      have st: "stoppable savedmask t" using less(4) core_sel(3) [OF t(2)] by (simp add: stoppable_def)
      have lt: "k - n_wait t < k - n_wait s" and le: "n_wait t \<le> k" using t(3) False less(3) by auto
      from less(1) [OF lt t(1) le st] killed_from_core [OF t(2)] i x show ?thesis
        by (subst watch_loop.simps) simp
    next
      case (Some y)
      with i post False less(3) show ?thesis
        by (subst watch_loop.simps)
          (auto simp: loop_exit_def iter_post_def split: flow.splits watch_next.splits)
    qed
  qed
qed

section \<open>Clean exits\<close>

text \<open>The two reasons for a clean exit: the child exited with status 0, or the lifetime is over.\<close>

definition clean_end :: "os \<Rightarrow> proc \<Rightarrow> bool" where
  "clean_end os s \<longleftrightarrow> (\<exists>k. ending_of (os_waitpid os k) = Exited 0) \<or>
     0 < max_lifetime s \<and> (\<exists>k. max_lifetime s \<le> difftime (os_time os k) (pid_start_time s))"

definition clean_post :: "os \<Rightarrow> proc \<Rightarrow> watch_next \<Rightarrow> proc \<Rightarrow> bool" where
  "clean_post os s x t \<longleftrightarrow> (x = Verdict P_EXITOK \<longrightarrow> clean_end os s)"

lemma clean_end_core: "core s = core s' \<Longrightarrow> clean_end os s = clean_end os s'"
  by (simp add: clean_end_def core_def config_def)

lemma ok_trivial: "ok (\<lambda>_ _. True) (\<lambda>_ _. True) p"
  by (auto simp: ok_def split: flow.split)

lemma ret_clean: "rc \<noteq> P_EXITOK \<or> clean_end os s \<Longrightarrow> ok (clean_post os s) (\<lambda>_ _. True) (ret os savedmask rc u)"
  unfolding ret_def by (rule ok_then [OF ok_trivial]) (auto simp: clean_post_def)

lemma kill_ret_clean:
  "rc \<noteq> P_EXITOK \<or> clean_end os s \<Longrightarrow> ok (clean_post os s) (\<lambda>_ _. True) (kill_ret os savedmask rc u)"
  unfolding kill_ret_def by (rule ok_then [OF ok_trivial]) (rule ret_clean)

lemma port_failed_ret_clean: "ok (clean_post os s) (\<lambda>_ _. True) (port_failed_ret os savedmask u)"
  unfolding port_failed_ret_def
  by (intro ok_then [where R = "\<lambda>_. True"] ok_mono [OF ok_trivial] ret_clean) auto

lemma ssh_wait_clean: "ssh_wait os options s = (P_EXITOK, t) \<Longrightarrow> \<exists>k. ending_of (os_waitpid os k) = Exited 0"
  by (rule exI [of _ "n_waitpid s"])
    (auto simp: ssh_wait_def exit_policy_def ending_of_def Let_def split: prod.splits if_splits)

lemma again_clean [simp]: "clean_post os s (Again p) t"
  by (simp add: clean_post_def)

lemma watch_wait_clean: "ok (clean_post os s) (\<lambda>_ _. True) (watch_wait os savedmask u)"
proof -
  have a: "ok (clean_post os s) (\<lambda>_ _. True) (after_poll os savedmask r v)" for r v
    by (auto simp: after_poll_def port_failed_ret_clean split: prod.split)
  show ?thesis
    unfolding watch_wait_def
    by (auto simp: Let_def a intro!: kill_ret_clean ok_bind [where R = "\<lambda>_ _. True"] ok_trivial)
qed

lemma watch_try_clean: "ok (clean_post os s) (\<lambda>_ _. True) (watch_try os savedmask p u)"
proof -
  have "ok (clean_post os s) (\<lambda>_ _. True) (ret os savedmask r t)" if "ssh_wait os WNOHANG u = (r, t)" for r t
    by (rule ret_clean) (use that ssh_wait_clean [of os WNOHANG u t] in \<open>auto simp: clean_end_def\<close>)
  then show ?thesis by (auto simp: watch_try_def watch_wait_clean split: prod.split)
qed

lemma on_alarm_clean:
  assumes "core u = core s"
  shows "ok (clean_post os s) (\<lambda>_ _. True) (on_alarm os sock savedmask u)"
proof -
  have checks: "ok (clean_post os s) (\<lambda>_ _. True) (alarm_checks os sock savedmask v)" for v
    unfolding alarm_checks_def
    by (auto simp: port_failed_ret_clean split: prod.split option.split
        intro!: ok_bind [where R = "\<lambda>_ _. True"] ok_trivial kill_ret_clean)
  obtain r t where x: "exceeded_lifetime os u = (r, t)" by fastforce
  have "clean_end os s" if "r \<noteq> 0"
  proof -
    have "clean_end os u"
      using x that by (auto simp: exceeded_lifetime_def clean_end_def now_def split: if_splits)
    then show ?thesis using clean_end_core [OF assms] by simp
  qed
  then show ?thesis
    unfolding on_alarm_def x by (auto simp: checks split: option.split intro!: kill_ret_clean)
qed

lemma watch_catch_clean:
  assumes "catch_pre s u"
  shows "ok (clean_post os s) (\<lambda>_ _. True) (watch_catch os sock savedmask g u)"
proof -
  have r: "ok (\<lambda>_ t. core t = core s) (\<lambda>_ _. True) (restore_mask os savedmask u)"
    by (rule ok_mono [OF restore_keeps]) (use assms in \<open>auto simp: catch_pre_def\<close>)
  show ?thesis
    unfolding watch_catch_def
    by (rule ok_then, rule r) (auto simp: on_alarm_clean intro!: kill_ret_clean)
qed

lemma watch_iter_clean:
  assumes "calm s"
  shows "ok (clean_post os s) (\<lambda>_ _. True) (watch_iter os sock savedmask p s)"
proof -
  let ?b = "block_signals s"
  have b: "calm ?b" "core ?b = core s" using assms by simp_all
  obtain r t where w: "watch_try os savedmask p ?b = (r, t)" by fastforce
  have "catch_pre s t" if "r = Longjmp g" for g
    using watch_try_keeps [OF b(1), of os savedmask p, unfolded w] that b by (auto simp: try_abrupt_def catch_pre_def)
  with watch_try_clean [of os s savedmask p ?b] w show ?thesis
    by (cases r) (auto simp: watch_iter_def Let_def watch_catch_clean kill_ret_clean)
qed

section \<open>Alarm arithmetic\<close>

lemma arm_alarm_secs:
  "SECS_LEFT (arm_alarm os p s) =
     secs_session (secs_lifetime os (secs_poll (os_alarm os (n_alarm s)) p) s) s"
  "trace (arm_alarm os p s) = trace s @ [Alarm 0, Alarm (u32 (SECS_LEFT (arm_alarm os p s)))]"
  by (simp_all add: arm_alarm_def clear_alarm_timer_def Let_def emit_def tick_def
      secs_session_def secs_lifetime_def now_def)

text \<open>With integral settings inside the range of \<^verbatim>\<open>c_int\<close> no step of the computation rounds.\<close>

lemma secs_lifetime_exact:
  assumes "max_lifetime s = of_int L" "0 \<le> L" "L < 2 ^ 31" "in_i32 (poll_time s)"
    and "\<bar>now os s - pid_start_time s\<bar> < 2 ^ 31" "in_i32 (L - (now os s - pid_start_time s))"
  shows "secs_lifetime os n s =
    (if L \<noteq> 0 \<and> L - (now os s - pid_start_time s) < poll_time s then L - (now os s - pid_start_time s) else n)"
proof -
  let ?d = "now os s - pid_start_time s"
  have "difftime (now os s) (pid_start_time s) = of_int ?d"
    using assms(5) by (simp add: difftime_def f64_of_int_exact)
  moreover have "f64 (of_int L - of_int ?d) = of_int (L - ?d)"
    using f64.rnd_exact [of "L - ?d"] assms(2,3,5) by simp
  ultimately show ?thesis
    using assms(1,4) f64_to_i32_int [OF assms(6)]
    by (simp add: secs_lifetime_def f64_sub_def f64_of_int_i32 Let_def del: of_int_diff)
qed

lemma secs_session_exact:
  assumes "max_session s = of_int S" "0 \<le> S" "S < 2 ^ 31" "in_i32 n"
  shows "secs_session n s = (if 0 < S \<and> S < n then S else n)"
  using assms f64_to_i32_int [of S] by (simp add: secs_session_def f64_of_int_i32 in_i32_def)

section \<open>Claims\<close>

text \<open>C3: The contract of the watch loop, for every behaviour of kernel, child and network: no jump
  ever leaves it; if it returns, the verdict is restart, clean exit or error exit, the caller's
  signal mask is back, jumps are disarmed, settings and dispositions are untouched, and either
  the child was reaped without ever having been signalled or it went through one teardown.
  Otherwise the process has exited with status 1 or died of a signal left at its default.\<close>

theorem ssh_watch_contract:
  assumes "calm s" "ssh_watch os sock s = Some (r, t)"
  shows "case r of Return v \<Rightarrow> v \<in> {P_RESTART, P_EXITOK, P_EXITERR} \<and> sigmask t = sigmask s \<and> calm t \<and>
      (core t = core s \<or> killed_from s t)
    | _ \<Rightarrow> gone os (void r) t"
proof -
  have "killed_from (block_signals s) t = killed_from s t" by (rule killed_from_core) simp
  with watch_loop_post [of "block_signals s" os sock "sigmask s" "first_poll_time s" r t] assms show ?thesis
    by (simp add: ssh_watch_def split: flow.splits)
qed

definition exit0_os :: os where
  "exit0_os = idle_os\<lparr>os_waitpid := (\<lambda>_. (42, 0, 0))\<rparr>"

lemma watch_exit0:
  "\<exists>t. ssh_watch exit0_os (-1) (initial_proc\<lparr>cchild := 42, start_count := 2\<rparr>) = Some (Return P_EXITOK, t)"
  unfolding ssh_watch_def
  by (subst watch_loop.simps)
    (simp add: run exit0_os_def WIFSIGNALED_def WIFEXITED_def WTERMSIG_def WEXITSTATUS_def)

theorem ssh_watch_contract_witness:
  "\<exists>t. ssh_watch exit0_os (-1) (initial_proc\<lparr>cchild := 42, start_count := 2\<rparr>) = Some (Return P_EXITOK, t) \<and>
     sigmask t = [] \<and> calm t"
proof -
  let ?s = "initial_proc\<lparr>cchild := 42, start_count := 2\<rparr>"
  obtain t where r: "ssh_watch exit0_os (-1) ?s = Some (Return P_EXITOK, t)" using watch_exit0 by blast
  have "calm ?s" by (simp add: calm_def)
  from ssh_watch_contract [OF this r] r show ?thesis
    by (auto simp: core_def killed_from_def)
qed

text \<open>C4: Termination signals are honoured: with the handlers installed, if SIGTERM or SIGINT is
  what ends some wait of the watch, the watch terminates, and a verdict reached after that wait
  is the error exit with the child torn down.\<close>

theorem ssh_watch_stops:
  assumes "calm s" "stoppable (sigmask s) s"
    and "n_wait s \<le> k" "os_wait os k = WakeSig g" "g \<in> {SIGTERM, SIGINT}"
  shows "\<exists>r t. ssh_watch os sock s = Some (r, t) \<and>
    (\<forall>v. r = Return v \<longrightarrow> n_wait t \<le> k \<or> v = P_EXITERR \<and> killed_from s t)"
proof -
  have b: "calm (block_signals s)" "n_wait (block_signals s) \<le> k" "stoppable (sigmask s) (block_signals s)"
    using assms by (simp_all add: stoppable_def block_signals_def)
  have "killed_from (block_signals s) t = killed_from s t" for t by (rule killed_from_core) simp
  with watch_loop_stops [OF b(1,2) assms(4,5) b(3), of sock "first_poll_time s"] show ?thesis
    by (simp add: ssh_watch_def)
qed

theorem ssh_watch_stops_witness:
  "let os = idle_os\<lparr>os_wait := (\<lambda>_. WakeSig SIGTERM)\<rparr>; s = set_sig_handlers (initial_proc\<lparr>cchild := 42\<rparr>) in
   calm s \<and> stoppable (sigmask s) s \<and> (\<exists>r t. ssh_watch os (-1) s = Some (r, t))"
proof -
  let ?os = "idle_os\<lparr>os_wait := (\<lambda>_. WakeSig SIGTERM)\<rparr>" and ?s = "set_sig_handlers (initial_proc\<lparr>cchild := 42\<rparr>)"
  have c: "calm ?s" and st: "stoppable (sigmask ?s) ?s"
    by (auto simp: calm_def stoppable_def set_sig_handlers_def intro: exI [of _ False])
  from ssh_watch_stops [OF c st order_refl, of ?os SIGTERM "-1"] c st show ?thesis by (auto simp: Let_def)
qed

text \<open>C8: A clean exit is never reported without a reason: the watch returns it only if some poll
  found the child gone with exit status 0, or some reading of the clock is past a configured
  lifetime.\<close>

theorem ssh_watch_clean_exit:
  assumes "calm s" "ssh_watch os sock s = Some (Return P_EXITOK, t)"
  shows "(\<exists>k. ending_of (os_waitpid os k) = Exited 0) \<or>
    0 < max_lifetime s \<and> (\<exists>k. max_lifetime s \<le> difftime (os_time os k) (pid_start_time s))"
proof -
  let ?b = "block_signals s"
  obtain q u x where h: "watch_head os sock (sigmask s) (first_poll_time s) ?b q u"
    and i: "watch_iter os sock (sigmask s) q u = (x, t)" and e: "loop_exit x = Some (Return P_EXITOK)"
    using watch_loop_last [OF assms(2) [unfolded ssh_watch_def]] by (auto simp: last_iter_def)
  have inv: "calm u" "core u = core s" using watch_head_inv [OF h] assms(1) by simp_all
  from e have "x = Return (Verdict P_EXITOK)"
    by (auto simp: loop_exit_def split: flow.splits watch_next.splits)
  with watch_iter_clean [OF inv(1), of os sock "sigmask s" q] i have "clean_end os u"
    by (simp add: clean_post_def)
  with clean_end_core [OF inv(2)] show ?thesis by (simp add: clean_end_def)
qed

theorem ssh_watch_clean_exit_witness:
  "\<exists>t. ssh_watch exit0_os (-1) (initial_proc\<lparr>cchild := 42, start_count := 2\<rparr>) = Some (Return P_EXITOK, t) \<and>
     (\<exists>k. ending_of (os_waitpid exit0_os k) = Exited 0)"
proof -
  let ?s = "initial_proc\<lparr>cchild := 42, start_count := 2\<rparr>"
  obtain t where r: "ssh_watch exit0_os (-1) ?s = Some (Return P_EXITOK, t)" using watch_exit0 by blast
  have "calm ?s" by (simp add: calm_def)
  from ssh_watch_clean_exit [OF this r] r show ?thesis by (auto simp: MAX_LIFETIME_DEFAULT_def)
qed

text \<open>C32: The alarm that bounds the wait, while the lifetime is not over and with integral limits:
  the alarm is always set and is at least one second. It is what the previous alarm left, or else
  the poll time of this iteration; replaced by the seconds that remain of the lifetime when these
  are fewer than \<^verbatim>\<open>poll_time\<close>; cut to the session limit. So it never exceeds the session limit, and
  it does not outlast the lifetime unless the pending or first poll time exceeds \<^verbatim>\<open>poll_time\<close>. In
  that last case, \<^verbatim>\<open>AUTOSSH_FIRST_POLL\<close> above \<^verbatim>\<open>AUTOSSH_POLL\<close>, without a session limit, an alarm
  that outlasts a remaining lifetime of at least \<^verbatim>\<open>poll_time\<close> is left as it is.\<close>

theorem arm_alarm_interval:
  assumes "0 \<le> os_alarm os (n_alarm s)" "os_alarm os (n_alarm s) < 2 ^ 31"
    and "0 < p" "p < 2 ^ 31" "0 < poll_time s" "poll_time s < 2 ^ 31"
    and "max_session s = of_int S" "0 \<le> S" "S < 2 ^ 31"
    and "max_lifetime s = of_int L" "0 \<le> L" "L < 2 ^ 31"
    and "0 \<le> now os s - pid_start_time s" "L \<noteq> 0 \<Longrightarrow> now os s - pid_start_time s < L"
    and "now os s - pid_start_time s < 2 ^ 31"
  shows "let pending = (if os_alarm os (n_alarm s) = 0 then p else os_alarm os (n_alarm s));
      remaining = L - (now os s - pid_start_time s);
      base = (if L \<noteq> 0 \<and> remaining < poll_time s then remaining else pending);
      n = (if S \<noteq> 0 \<and> S < base then S else base)
    in trace (arm_alarm os p s) = trace s @ [Alarm 0, Alarm n] \<and> 1 \<le> n \<and> (S \<noteq> 0 \<longrightarrow> n \<le> S) \<and>
      (L \<noteq> 0 \<and> (pending \<le> poll_time s \<or> remaining < poll_time s) \<longrightarrow> n \<le> remaining) \<and>
      (L \<noteq> 0 \<and> S = 0 \<and> poll_time s \<le> remaining \<and> remaining < pending \<longrightarrow> n = pending)"
proof -
  let ?d = "now os s - pid_start_time s"
  define a where "a = secs_poll (os_alarm os (n_alarm s)) p"
  define b where "b = (if L \<noteq> 0 \<and> L - ?d < poll_time s then L - ?d else a)"
  have a: "a = (if os_alarm os (n_alarm s) = 0 then p else os_alarm os (n_alarm s))" "1 \<le> a" "a < 2 ^ 31"
    using assms(1-4) by (auto simp: a_def secs_poll_def in_i32_def)
  have "secs_lifetime os a s = b"
    unfolding b_def using assms by (intro secs_lifetime_exact) (auto simp: in_i32_def)
  moreover have b: "1 \<le> b" "b < 2 ^ 31"
    using a assms by (auto simp: b_def)
  moreover have "secs_session b s = (if 0 < S \<and> S < b then S else b)"
    using assms(7-9) b by (intro secs_session_exact) (auto simp: in_i32_def)
  ultimately have n: "SECS_LEFT (arm_alarm os p s) = (if S \<noteq> 0 \<and> S < b then S else b)"
    using assms(8) by (simp add: arm_alarm_secs(1) a_def)
  have "trace (arm_alarm os p s) = trace s @ [Alarm 0, Alarm (if S \<noteq> 0 \<and> S < b then S else b)]"
    using b assms(8,9) n by (simp add: arm_alarm_secs(2) u32_id)
  with b assms(8) show ?thesis by (auto simp: Let_def a(1) [symmetric] b_def split: if_splits)
qed

theorem arm_alarm_interval_witness:
  "let s = initial_proc\<lparr>max_session := 30, max_lifetime := 1020, pid_start_time := 10\<rparr>;
       late = initial_proc\<lparr>poll_time := 10, max_session := 0, max_lifetime := 110, pid_start_time := 990\<rparr>
   in trace (arm_alarm idle_os 600 s) = trace s @ [Alarm 0, Alarm 30] \<and>
     trace (arm_alarm idle_os 600 late) = trace late @ [Alarm 0, Alarm 600]"
  using arm_alarm_interval [of idle_os "initial_proc\<lparr>max_session := 30, max_lifetime := 1020, pid_start_time := 10\<rparr>"
      600 30 1020]
    arm_alarm_interval [of idle_os "initial_proc\<lparr>poll_time := 10, max_session := 0, max_lifetime := 110, pid_start_time := 990\<rparr>"
      600 0 110]
  by (simp add: POLL_TIME_DEFAULT_def now_def)

text \<open>C33: Once the lifetime has run out, the same computation arms no useful alarm: with integral
  settings the value passed to \<^verbatim>\<open>alarm\<close> is 0, which cancels it, or at least \<open>2 ^ 31\<close> seconds. An
  iteration entered at or after the deadline therefore waits without a deadline.\<close>

theorem arm_alarm_lapsed:
  assumes "max_lifetime s = of_int L" "0 < L" "L < 2 ^ 31" "0 < poll_time s" "poll_time s < 2 ^ 31"
    and "max_session s = of_int S" "0 \<le> S" "S < 2 ^ 31"
    and "L \<le> now os s - pid_start_time s" "now os s - pid_start_time s < 2 ^ 31"
  shows "\<exists>n. trace (arm_alarm os p s) = trace s @ [Alarm 0, Alarm n] \<and> (n = 0 \<or> 2 ^ 31 \<le> n)"
proof -
  let ?d = "now os s - pid_start_time s"
  have l: "secs_lifetime os a s = L - ?d" for a
    using secs_lifetime_exact [of s L os a] assms by (simp add: in_i32_def)
  have "secs_session (L - ?d) s = L - ?d"
    using secs_session_exact [of s S "L - ?d"] assms by (simp add: in_i32_def)
  then have n: "SECS_LEFT (arm_alarm os p s) = L - ?d" by (simp add: arm_alarm_secs(1) l)
  have "u32 (L - ?d) = 0 \<or> 2 ^ 31 \<le> u32 (L - ?d)"
  proof (cases "L = ?d")
    case False
    have "u32 (L - ?d) = (L - ?d + 2 ^ 32) mod 2 ^ 32" by (simp add: u32_def)
    also have "\<dots> = L - ?d + 2 ^ 32" using False assms by (intro mod_pos_pos_trivial) simp_all
    finally have "u32 (L - ?d) = L - ?d + 2 ^ 32" .
    then show ?thesis using assms by simp
  qed (simp add: u32_def)
  then show ?thesis by (intro exI [of _ "u32 (L - ?d)"]) (simp add: arm_alarm_secs(2) n)
qed

theorem arm_alarm_lapsed_witness:
  "let s = initial_proc\<lparr>max_lifetime := 600, pid_start_time := 400\<rparr> in
   \<exists>n. trace (arm_alarm idle_os 600 s) = trace s @ [Alarm 0, Alarm n] \<and> (n = 0 \<or> 2 ^ 31 \<le> n)"
  using arm_alarm_lapsed [of "initial_proc\<lparr>max_lifetime := 600, pid_start_time := 400\<rparr>" 600 0 idle_os 600]
  by (simp add: POLL_TIME_DEFAULT_def MAX_SESSION_DEFAULT_def now_def)

text \<open>C34: The decision of the session watchdog at an alarm, for a session without monitor port and
  lifetime whose stderr shows nothing fatal: the child is torn down for a restart exactly when its
  stderr pipe has been lost, or it has been silent since its start, for the session limit; a
  session that has spoken and kept its pipe goes on untouched, however long it stays silent (the
  usage text promises more: that \<^verbatim>\<open>AUTOSSH_MAX_SESSION\<close> bounds any silence on stderr).\<close>

theorem on_alarm_watchdog:
  assumes "calm s" "max_lifetime s \<le> 0" "writep s = None" "0 < max_session s"
    and "\<And>b. b \<in> set (consumed (os_drain os (n_read s))) \<Longrightarrow> \<not> fatal b"
  shows "if pipe_lost_time s \<noteq> 0 \<and> max_session s \<le> difftime (now os s) (pipe_lost_time s) \<or>
       last_stderr_time s = 0 \<and> max_session s \<le> difftime (now os s) (start_time s)
     then ok (killed_verdict savedmask s P_RESTART) (quits os) (on_alarm os sock savedmask s)
     else \<exists>t. on_alarm os sock savedmask s = (Return (Again (poll_time s)), t) \<and> core t = core s"
proof -
  have x: "exceeded_lifetime os s = (0, s)" using assms(2) by (simp add: exceeded_lifetime_def)
  obtain r t where c: "check_ssh_stderr os (tick s) = (r, t)" by fastforce
  have "r = 0"
    using drain_effect [of os "os_drain os (n_read s)" "(tick s)\<lparr>n_read := Suc (n_read s)\<rparr>" r t] c assms(5)
    by (auto simp: check_ssh_stderr_def tick_def split: if_splits)
  moreover have t: "core t = core s" using check_ssh_stderr_core [OF c] by simp
  moreover have "poll_time t = poll_time s" "writep t = writep s"
    using t by (simp_all add: core_def config_def)
  ultimately have checks: "alarm_checks os sock savedmask (tick s) = (Return (Again (poll_time s)), t)"
    using assms(3) c by (simp add: alarm_checks_def)
  have kill: "ok (killed_verdict savedmask s P_RESTART) (quits os)
      (kill_ret os savedmask P_RESTART (errlog os l m (tick s)))" for l m
    by (rule ok_mono [OF kill_ret_keeps])
      (use assms(1) killed_from_core [of "errlog os l m (tick s)" s] in \<open>auto simp: killed_verdict_def\<close>)
  show ?thesis
    using assms(4) x checks kill t by (auto simp: on_alarm_def session_watchdog_def)
qed

theorem on_alarm_watchdog_witness:
  "let s = initial_proc\<lparr>cchild := 42, max_session := 30, last_stderr_time := 5, start_time := 1\<rparr> in
   \<exists>t. on_alarm idle_os (-1) [] s = (Return (Again 600), t) \<and> core t = core s"
  using on_alarm_watchdog [of "initial_proc\<lparr>cchild := 42, max_session := 30, last_stderr_time := 5, start_time := 1\<rparr>"
      idle_os "[]" "-1"]
  by (simp add: calm_def MAX_LIFETIME_DEFAULT_def POLL_TIME_DEFAULT_def)

end
