(* ===== verification/Stuck_Detector.thy ===== *)
theory Stuck_Detector
  imports Globals
begin

text \<open>
  \<^verbatim>\<open>src/stuck_detector.rs\<close>: writing the embedded preload library to a file once, and putting
  its path in front of \<^verbatim>\<open>LD_PRELOAD\<close>. The library's bytes are built elsewhere; the model knows
  their number (\<open>os_so_len\<close>) and the results of the \<^verbatim>\<open>open\<close> and the \<^verbatim>\<open>write\<close> calls.
\<close>

definition so_file :: "os \<Rightarrow> string" where
  "so_file os = ''/tmp/autossh-stuck-detector-'' @ show_int (os_pid os) @ ''.so''"

text \<open>The write loop: whether all bytes are out, from the number written so far.\<close>

function so_write :: "os \<Rightarrow> nat \<Rightarrow> nat \<Rightarrow> bool" where
  "so_write os k written =
     (if written < os_so_len os then
        (if os_so_write os k \<le> 0 then False
         else so_write os (Suc k) (written + nat (os_so_write os k)))
      else True)"
  by pat_completeness auto
termination by (relation "measure (\<lambda>(os, _, written). os_so_len os - written)") auto

declare so_write.simps [simp del]

definition extract_once :: "os \<Rightarrow> string" where
  "extract_once os = (if os_so_open os < 0 then [] else if so_write os 0 0 then so_file os else [])"

definition path :: "os \<Rightarrow> proc \<Rightarrow> string \<times> proc" where
  "path os s = (case so_path s of
     Some p \<Rightarrow> (p, s)
   | None \<Rightarrow> (extract_once os, s\<lparr>so_path := Some (extract_once os)\<rparr>))"

definition to_string_lossy :: "os \<Rightarrow> string \<Rightarrow> string" where
  "to_string_lossy os x = (if utf8_valid x then x else os_lossy os x)"

text \<open>\<^verbatim>\<open>putenv\<close> of a string that \<^verbatim>\<open>CString::new\<close> accepts.\<close>

definition putenv_preload :: "string \<Rightarrow> proc \<Rightarrow> proc" where
  "putenv_preload v s = (if CHR 0x00 \<in> set v then s else s\<lparr>ld_preload := Some v\<rparr>)"

definition install_for_child :: "os \<Rightarrow> proc \<Rightarrow> proc" where
  "install_for_child os s0 =
     (let (so, s) = path os s0 in
      if so = [] then s
      else case ld_preload s of
        None \<Rightarrow> putenv_preload (to_string_lossy os so) s
      | Some cur \<Rightarrow>
          if cur = [] then putenv_preload (to_string_lossy os so) s
          else if strstr (to_string_lossy os cur) ''autossh-stuck-detector'' then s
          else putenv_preload (to_string_lossy os so @ '':'' @ to_string_lossy os cur) s)"

definition cleanup :: "proc \<Rightarrow> proc" where
  "cleanup s = (case so_path s of
     None \<Rightarrow> s
   | Some p \<Rightarrow> if p = [] then s else emit (Unlink p) s)"

declare install_for_child_def [run] path_def [run] extract_once_def [run] to_string_lossy_def [run]
  putenv_preload_def [run]

section \<open>Lemmas\<close>

text \<open>Only the two fields of the preload bookkeeping change.\<close>

lemma install_for_child_upd:
  "\<exists>p v. install_for_child os s = s\<lparr>so_path := p, ld_preload := v\<rparr>"
proof -
  have same: "\<exists>p v. u = s\<lparr>so_path := p, ld_preload := v\<rparr>" if "u = s\<lparr>so_path := so_path u, ld_preload := ld_preload u\<rparr>" for u
    using that by blast
  show ?thesis
    by (rule same) (cases "so_path s"; cases "ld_preload s"; simp add: install_for_child_def path_def putenv_preload_def)
qed

lemma so_file_ascii: "c \<in> set (so_file os) \<Longrightarrow> 45 \<le> (of_char c :: nat) \<and> (of_char c :: nat) < 128"
  using show_int_ascii [of c "os_pid os"] by (auto simp: so_file_def)

lemma so_file_text: "CHR 0x00 \<notin> set (so_file os)" "utf8_valid (so_file os)"
  "strstr (so_file os @ x) ''autossh-stuck-detector''" "so_file os \<noteq> []"
proof -
  show "CHR 0x00 \<notin> set (so_file os)" using so_file_ascii by fastforce
  show "utf8_valid (so_file os)" using so_file_ascii by (auto intro: utf8_ascii)
  have "so_file os @ x = ''/tmp/'' @ ''autossh-stuck-detector'' @ ''-'' @ show_int (os_pid os) @ ''.so'' @ x"
    by (simp add: so_file_def)
  then show "strstr (so_file os @ x) ''autossh-stuck-detector''" using strstr_iff by blast
  show "so_file os \<noteq> []" by (simp add: so_file_def)
qed

lemma extract_once_cases: "extract_once os = [] \<or> extract_once os = so_file os"
  by (simp add: extract_once_def)

text \<open>The name of the library, alone or in front of a converted value, is text already.\<close>

lemma so_lossy: "to_string_lossy os (so_file os) = so_file os"
  by (simp add: to_string_lossy_def so_file_text)

lemma joined_lossy:
  assumes "\<And>x. utf8_valid (os_lossy os x)"
  shows "to_string_lossy os (so_file os @ '':'' @ to_string_lossy os y) = so_file os @ '':'' @ to_string_lossy os y"
proof -
  have "utf8_valid '':''" by (rule utf8_ascii) simp
  moreover have "utf8_valid (to_string_lossy os y)" using assms by (simp add: to_string_lossy_def)
  ultimately have "utf8_valid (so_file os @ '':'' @ to_string_lossy os y)" by (intro utf8_append so_file_text)
  then show ?thesis unfolding to_string_lossy_def [of os "so_file os @ _"] by simp
qed

text \<open>What one call does to the variable, and that a second call changes nothing.\<close>

lemma install_for_child_once:
  assumes "so_path s = None" and "\<And>x. utf8_valid (os_lossy os x)"
    and "\<And>cur. ld_preload s = Some cur \<Longrightarrow> CHR 0x00 \<notin> set (to_string_lossy os cur)"
  shows "(extract_once os = [] \<longrightarrow> ld_preload (install_for_child os s) = ld_preload s) \<and>
    (extract_once os \<noteq> [] \<longrightarrow>
      (case ld_preload s of
         Some (c # cs) \<Rightarrow> ld_preload (install_for_child os s) =
           (if strstr (to_string_lossy os (c # cs)) ''autossh-stuck-detector'' then Some (c # cs)
            else Some (so_file os @ '':'' @ to_string_lossy os (c # cs)))
       | _ \<Rightarrow> ld_preload (install_for_child os s) = Some (so_file os))) \<and>
    install_for_child os (install_for_child os s) = install_for_child os s"
proof (cases "extract_once os = []")
  case True
  with assms(1) show ?thesis by (simp add: install_for_child_def path_def)
next
  case False
  then have x: "extract_once os = so_file os" using extract_once_cases by blast
  note so = so_lossy and v = joined_lossy [OF assms(2)]
  have plain: "strstr (so_file os) ''autossh-stuck-detector''" using so_file_text(3) [of os "[]"] by simp
  show ?thesis
  proof (cases "ld_preload s")
    case None
    with assms(1) x show ?thesis
      by (simp add: install_for_child_def path_def putenv_preload_def so so_file_text plain)
  next
    case (Some cur)
    have nn: "CHR 0x00 \<notin> set (to_string_lossy os cur)" using assms(3) Some by simp
    show ?thesis
    proof (cases cur)
      case Nil
      with Some assms(1) x show ?thesis
        by (simp add: install_for_child_def path_def putenv_preload_def so so_file_text plain)
    next
      case (Cons c cs)
      with Some assms(1) x nn v [of cur] so_file_text(3) [of os "'':'' @ to_string_lossy os cur"] show ?thesis
        by (simp add: install_for_child_def path_def putenv_preload_def so so_file_text)
    qed
  qed
qed

lemma install_for_child_again:
  assumes "so_path s = None" and "\<And>x. utf8_valid (os_lossy os x)"
    and "\<And>cur. ld_preload s = Some cur \<Longrightarrow> CHR 0x00 \<notin> set (to_string_lossy os cur)"
  shows "(install_for_child os ^^ Suc k) s = install_for_child os s"
proof (induction k)
  case (Suc k)
  then show ?case using install_for_child_once [OF assms] by simp
qed simp

section \<open>The list of preloads\<close>

text \<open>The entries of the variable, separated by colons.\<close>

fun colon_split :: "string \<Rightarrow> string list" where
  "colon_split [] = [[]]"
| "colon_split (c # cs) = (if c = CHR '':'' then [] # colon_split cs
     else (c # hd (colon_split cs)) # tl (colon_split cs))"

definition preloads :: "string option \<Rightarrow> string list" where
  "preloads v = (case v of None \<Rightarrow> [] | Some x \<Rightarrow> if x = [] then [] else colon_split x)"

lemma colon_split_not_Nil [simp]: "colon_split x \<noteq> []"
  by (cases x) simp_all

lemma colon_split_append: "colon_split (a @ CHR '':'' # b) = colon_split a @ colon_split b"
  by (induction a) auto

lemma colon_split_plain: "CHR '':'' \<notin> set a \<Longrightarrow> colon_split a = [a]"
  by (induction a) auto

lemma colon_split_part: "e \<in> set (colon_split x) \<Longrightarrow> \<exists>a b. x = a @ e @ b"
proof (induction x arbitrary: e)
  case (Cons c x)
  show ?case
  proof (cases "c = CHR '':''")
    case True
    with Cons.prems have "e = [] \<or> e \<in> set (colon_split x)" by auto
    with Cons.IH [of e] show ?thesis by (metis append_Cons append_Nil)
  next
    case False
    have hd: "\<exists>b. x = hd (colon_split x) @ b" for x
      by (induction x) auto
    have "e = c # hd (colon_split x) \<or> e \<in> set (colon_split x)"
      using Cons.prems False by (cases "colon_split x") auto
    then show ?thesis
    proof
      assume "e = c # hd (colon_split x)"
      with hd [of x] show ?thesis by (metis append_Cons append_Nil)
    next
      assume "e \<in> set (colon_split x)"
      with Cons.IH [of e] show ?thesis by (metis append_Cons)
    qed
  qed
qed simp

lemma marker_part:
  assumes "\<not> strstr x m"
  shows "filter (\<lambda>e. strstr e m) (colon_split x) = []"
  using assms colon_split_part [of _ x] by (auto simp: filter_empty_conv strstr_iff) (metis append.assoc)

lemma show_int_no_colon: "CHR '':'' \<notin> set (show_int i)"
proof -
  have "CHR '':'' \<noteq> digit_char d" if "d < 10" for d
  proof
    assume "CHR '':'' = digit_char d"
    then have "(of_char (CHR '':'') :: nat) = of_char (digit_char d)" by simp
    with that show False by simp
  qed
  then show ?thesis using show_nat_digits [of "CHR '':''"] by (auto simp: show_int_def)
qed

lemma so_file_no_colon: "CHR '':'' \<notin> set (so_file os)"
  using show_int_no_colon by (simp add: so_file_def)

section \<open>Claims\<close>

text \<open>C38: The set-up of \<^verbatim>\<open>LD_PRELOAD\<close> for the child, after any positive number of calls (the variable
  is inherited by autossh as it was). If the library could not be written, or if the old value
  contains the text \<^verbatim>\<open>autossh-stuck-detector\<close> anywhere, the variable is as it was. Otherwise the
  library comes first, the old entries follow in their order (in the lossy conversion, which is the
  value itself when it is UTF-8), and the library is the only entry with that text. Of the conversion
  it is used that it gives UTF-8 and is not empty for a non-empty value.\<close>

theorem install_for_child_effect:
  assumes "so_path s = None" and "\<And>x. utf8_valid (os_lossy os x)"
    and "\<And>x. x \<noteq> [] \<Longrightarrow> os_lossy os x \<noteq> []"
    and "\<And>cur. ld_preload s = Some cur \<Longrightarrow> CHR 0x00 \<notin> set (to_string_lossy os cur)"
  shows "let v = ld_preload ((install_for_child os ^^ Suc k) s);
      old = (case ld_preload s of None \<Rightarrow> None | Some x \<Rightarrow> Some (if x = [] then [] else to_string_lossy os x));
      named = (\<lambda>e. strstr e ''autossh-stuck-detector'')
    in if extract_once os = [] \<or> (case old of None \<Rightarrow> False | Some x \<Rightarrow> named x) then v = ld_preload s
       else preloads v = so_file os # preloads old \<and> filter named (preloads v) = [so_file os]"
proof -
  note o = install_for_child_once [OF assms(1,2,4)]
  have k: "(install_for_child os ^^ Suc k) s = install_for_child os s" by (rule install_for_child_again [OF assms(1,2,4)])
  have plain: "strstr (so_file os) ''autossh-stuck-detector''" using so_file_text(3) [of os "[]"] by simp
  have j: "colon_split (so_file os @ CHR '':'' # x) = so_file os # colon_split x" for x
    by (simp add: colon_split_append colon_split_plain so_file_no_colon)
  show ?thesis
  proof (cases "ld_preload s")
    case None
    with o plain show ?thesis
      unfolding k Let_def by (simp add: preloads_def colon_split_plain so_file_no_colon so_file_text)
  next
    case (Some cur)
    show ?thesis
    proof (cases cur)
      case Nil
      with Some o plain show ?thesis
        unfolding k Let_def by (simp add: preloads_def colon_split_plain so_file_no_colon so_file_text strstr_iff)
    next
      case (Cons c cs)
      with Some o plain assms(3) [of cur] marker_part [of "to_string_lossy os cur" "''autossh-stuck-detector''"] show ?thesis
        unfolding k Let_def by (auto simp: preloads_def j to_string_lossy_def split: if_splits)
    qed
  qed
qed

theorem install_for_child_effect_witness:
  "let os = idle_os\<lparr>os_lossy := \<lambda>_. ''?''\<rparr>; s = initial_proc\<lparr>ld_preload := Some ''x.so:y.so''\<rparr> in
   so_path s = None \<and> (\<forall>x. utf8_valid (os_lossy os x) \<and> os_lossy os x \<noteq> []) \<and>
   preloads (ld_preload (install_for_child os s)) = [''/tmp/autossh-stuck-detector-7.so'', ''x.so'', ''y.so'']"
proof -
  let ?os = "idle_os\<lparr>os_lossy := \<lambda>_. ''?''\<rparr>"
  have u: "utf8_valid ''x.so:y.so''" "utf8_valid ''?''" by (rule utf8_ascii, auto)+
  have e: "extract_once ?os = so_file ?os" by (simp add: extract_once_def so_write.simps)
  have f: "so_file ?os = ''/tmp/autossh-stuck-detector-7.so''"
    by (simp add: so_file_def show_int_def show_nat.simps digit_chars)
  have n: "\<not> strstr ''x.so:y.so'' ''autossh-stuck-detector''" by code_simp
  show ?thesis
    using install_for_child_effect [of "initial_proc\<lparr>ld_preload := Some ''x.so:y.so''\<rparr>" ?os 0] u e f n
    by (simp add: to_string_lossy_def preloads_def Let_def)
qed

end
