(* ===== verification/Run.thy ===== *)
theory Run
  imports Watch Stuck_Detector
begin

text \<open>
  \<^verbatim>\<open>src/run.rs\<close>: the start and restart loop. \<^verbatim>\<open>fork\<close> returns twice; \<open>ssh_run\<close> follows the
  parent (\<open>os_fork\<close> gives the child's pid or errno), \<open>run_child\<close> is the branch taken in the
  child. Seeding the random generator and making the pipe non-blocking have no counterpart in
  the state: the generator's values and the reads are the kernel's choice.
\<close>

section \<open>Starting a child\<close>

definition msg_starting :: "int \<Rightarrow> int \<Rightarrow> string" where
  "msg_starting count limit =
     (if limit < 0 then ''starting ssh (count '' @ show_int count @ '')''
      else ''starting ssh (count '' @ show_int count @ '' of '' @ show_int limit @ '')'')"

text \<open>One turn up to the pipe: \<open>Some\<close> verdict ends the loop.\<close>

definition run_prepare :: "os \<Rightarrow> (proc, int option) prog" where
  "run_prepare os s0 =
     (let (x, s) = exceeded_lifetime os s0 in
      if x \<noteq> 0 then (Return (Some P_EXITOK), s)
      else then_p (grace_time os (start_time s))
        (\<lambda>s. if exit_signalled s \<noteq> 0
             then (Return (Some P_EXITERR), errlog os LOG_ERR ''signalled to exit'' s)
             else (Return None,
                   errlog os LOG_INFO (msg_starting (start_count s) (max_start s))
                     ((tick s)\<lparr>start_time := now os s, port_fwd_failed := 0, pipe_lost_time := 0,
                               last_stderr_time := 0\<rparr>)))
        (s\<lparr>restart_ssh := 0, start_count := i32 (start_count s + 1)\<rparr>))"

definition run_pipe :: "os \<Rightarrow> proc \<Rightarrow> (int \<times> int) \<times> proc" where
  "run_pipe os s =
     (case os_pipe os (n_pipe s) of
        Inr p \<Rightarrow> (p, s\<lparr>n_pipe := Suc (n_pipe s)\<rparr>)
      | Inl e \<Rightarrow> ((-1, -1), errlog os LOG_ERR (''pipe: '' @ cstr_or (Some (os_strerror os e)) ''?'')
                            (s\<lparr>n_pipe := Suc (n_pipe s)\<rparr>)))"

definition close_if_open :: "int \<Rightarrow> proc \<Rightarrow> proc" where
  "close_if_open fd s = (if fd \<ge> 0 then emit (Close fd) s else s)"

text \<open>The branch of the child: the calls it makes, and whether it is replaced (\<open>None\<close>) or, when
  \<^verbatim>\<open>execvp\<close> fails, exits.\<close>

definition run_child :: "int \<Rightarrow> int \<times> int \<Rightarrow> bool \<Rightarrow> effect list \<times> int option" where
  "run_child parent pipe exec_ok =
     (let setup = (if snd pipe \<ge> 0 then [Close (fst pipe), Dup2 (snd pipe) 2, Close (snd pipe)] else [])
      in if exec_ok then (setup @ [Execvp], None)
         else (setup @ [Execvp, WriteStderr (''autossh: execvp failed'' @ [CHR 0x0A]), Kill parent SIGTERM], Some 1))"

text \<open>The parent after \<^verbatim>\<open>fork\<close>, up to the call of \<^verbatim>\<open>ssh_watch\<close>.\<close>

definition run_fork :: "os \<Rightarrow> (proc, unit) prog" where
  "run_fork os s0 =
     (let (p, s) = run_pipe os s0;
          s = s\<lparr>n_fork := Suc (n_fork s)\<rparr>
      in case os_fork os (n_fork s0) of
           Inl e \<Rightarrow>
             xerrlog os LOG_ERR (''fork: '' @ cstr_or (Some (os_strerror os e)) ''?'')
               (close_if_open (snd p) (close_if_open (fst p) (s\<lparr>cchild := 0\<rparr>)))
         | Inr pid \<Rightarrow>
             (Return (), set_sig_handlers
                (errlog os LOG_INFO (''ssh child pid is '' @ show_int pid)
                  ((close_if_open (snd p) (emit (Fork pid) (s\<lparr>cchild := pid\<rparr>)))\<lparr>ssh_stderr_fd := fst p\<rparr>))))"

definition run_after :: "os \<Rightarrow> proc \<Rightarrow> proc" where
  "run_after os s = close_stderr (unset_sig_handlers (snd (clear_alarm_timer os (s\<lparr>dolongjmp := 0\<rparr>))))"

section \<open>The loop\<close>

datatype run_next = Restart | Done int

definition run_iter :: "os \<Rightarrow> int \<Rightarrow> proc \<Rightarrow> (run_next flow \<times> proc) option" where
  "run_iter os sock s =
     (if max_start s < 0 \<or> start_count s < max_start s then
        (case run_prepare os s of
           (Return (Some v), s) \<Rightarrow> Some (Return (Done v), s)
         | (Return None, s) \<Rightarrow>
             (case run_fork os s of
                (Return _, s) \<Rightarrow>
                  (case ssh_watch os sock s of
                     None \<Rightarrow> None
                   | Some (Return v, s) \<Rightarrow>
                       Some (Return (if v = P_EXITOK \<or> v = P_EXITERR then Done v else Restart), run_after os s)
                   | Some (Exit c, s) \<Rightarrow> Some (Exit c, s)
                   | Some (Killed g, s) \<Rightarrow> Some (Killed g, s)
                   | Some (Longjmp g, s) \<Rightarrow> Some (Longjmp g, s))
              | (Exit c, s) \<Rightarrow> Some (Exit c, s)
              | (Killed g, s) \<Rightarrow> Some (Killed g, s)
              | (Longjmp g, s) \<Rightarrow> Some (Longjmp g, s))
         | (Exit c, s) \<Rightarrow> Some (Exit c, s)
         | (Killed g, s) \<Rightarrow> Some (Killed g, s)
         | (Longjmp g, s) \<Rightarrow> Some (Longjmp g, s))
      else Some (Return (Done P_EXITOK), errlog os LOG_INFO ''max start count reached; exiting'' s))"

partial_function (option) run_loop :: "os \<Rightarrow> int \<Rightarrow> proc \<Rightarrow> (int flow \<times> proc) option" where
  "run_loop os sock s =
     (case run_iter os sock s of
        None \<Rightarrow> None
      | Some (Return n, s') \<Rightarrow> (case n of Restart \<Rightarrow> run_loop os sock s' | Done v \<Rightarrow> Some (Return v, s'))
      | Some (Exit c, s') \<Rightarrow> Some (Exit c, s')
      | Some (Killed g, s') \<Rightarrow> Some (Killed g, s')
      | Some (Longjmp g, s') \<Rightarrow> Some (Longjmp g, s'))"

definition ssh_run :: "os \<Rightarrow> int \<Rightarrow> proc \<Rightarrow> (int flow \<times> proc) option" where
  "ssh_run os sock s = run_loop os sock (install_for_child os (set_exit_sig_handler s))"

declare run_prepare_def [run] run_pipe_def [run] close_if_open_def [run] run_fork_def [run]
  run_after_def [run] run_iter_def [run]

section \<open>One turn\<close>

text \<open>What a turn may not change, and the signals it may have sent.\<close>

definition run_frame :: "proc \<Rightarrow> _" where
  "run_frame s = (config s, sigmask s, calm s)"

definition own_kills :: "os \<Rightarrow> proc \<Rightarrow> proc \<Rightarrow> bool" where
  "own_kills os s t \<longleftrightarrow> (\<forall>(p, g) \<in> set (kills (trace t)). (p, g) \<in> set (kills (trace s)) \<or> (\<exists>k. os_fork os k = Inr p))"

lemma own_kills_refl: "kills (trace t) = kills (trace s) \<Longrightarrow> own_kills os s t"
  by (auto simp: own_kills_def)

lemma own_kills_trans: "own_kills os s t \<Longrightarrow> own_kills os t u \<Longrightarrow> own_kills os s u"
  unfolding own_kills_def by fastforce

lemma run_prepare_post:
  assumes "calm s" "run_prepare os s = (r, t)"
  shows "case r of Return x \<Rightarrow> run_frame t = run_frame s \<and> kills (trace t) = kills (trace s) \<and> n_fork t = n_fork s \<and>
      ssh_stderr_fd t = ssh_stderr_fd s \<and> disp t = disp s \<and> (case x of Some v \<Rightarrow> v \<in> {P_EXITOK, P_EXITERR}
        | None \<Rightarrow> start_count t = i32 (start_count s + 1) \<and> exit_signalled t = 0)
    | _ \<Rightarrow> gone os (void r) t"
proof -
  obtain x u where x: "exceeded_lifetime os s = (x, u)" by fastforce
  note u = exceeded_lifetime_core [OF x]
  have u': "config u = config s" "launch u = launch s" "kills (trace u) = kills (trace s)" "n_fork u = n_fork s"
    "disp u = disp s" "ssh_stderr_fd u = ssh_stderr_fd s"
    using u(1) x by (auto simp: core_def exceeded_lifetime_def errlog_upd tick_def split: if_splits)
  let ?s1 = "u\<lparr>restart_ssh := 0, start_count := i32 (start_count u + 1)\<rparr>"
  obtain q v where g: "grace_time os (start_time u) ?s1 = (q, v)" by fastforce
  note k = grace_time_kept [OF g]
  have calm1: "calm ?s1" using assms(1) u(2) by (simp add: calm_def)
  have "ok (\<lambda>_. calm) (gone os) (grace_time os (start_time u) ?s1)"
    by (rule ok_mono [OF ok_triple [OF triple_grace_time calm1]]) (auto simp: gone_def ended_def)
  then show ?thesis
    using assms x g u u' k frame_sel(2) [OF u'(2)]
    by (cases q) (auto simp: run_prepare_def Let_def run_frame_def calm_def errlog_upd tick_def sigenv_def
        launch_def split: if_splits)
qed

lemma run_prepare_quiet:
  assumes "run_prepare os s = (r, t)"
  shows "n_fork t = n_fork s" "kills (trace t) = kills (trace s)"
proof -
  obtain x u where x: "exceeded_lifetime os s = (x, u)" by fastforce
  have u: "n_fork u = n_fork s" "kills (trace u) = kills (trace s)"
    using x by (auto simp: exceeded_lifetime_def errlog_upd tick_def split: if_splits)
  obtain q v where g: "grace_time os (start_time u) (u\<lparr>restart_ssh := 0, start_count := i32 (start_count u + 1)\<rparr>) = (q, v)"
    by fastforce
  show "n_fork t = n_fork s" "kills (trace t) = kills (trace s)"
    using assms x u g grace_time_kept [OF g]
    by (cases q; auto simp: run_prepare_def Let_def errlog_upd tick_def split: if_splits)+
qed

lemma run_fork_post:
  assumes "calm s" "run_fork os s = (r, t)"
  shows "case r of Return _ \<Rightarrow> run_frame t = run_frame s \<and> kills (trace t) = kills (trace s) \<and>
      n_fork t = Suc (n_fork s) \<and> os_fork os (n_fork s) = Inr (cchild t) \<and> start_count t = start_count s \<and>
      disp t = disp (set_sig_handlers s)
    | _ \<Rightarrow> gone os (void r) t"
proof -
  obtain p u where p: "run_pipe os s = (p, u)" by fastforce
  have u: "run_frame u = run_frame s" "kills (trace u) = kills (trace s)" "n_fork u = n_fork s"
    "start_count u = start_count s" "disp u = disp s"
    using p by (auto simp: run_pipe_def run_frame_def calm_def errlog_upd split: sum.splits)
  let ?x = "close_if_open (snd p) (close_if_open (fst p) (u\<lparr>n_fork := Suc (n_fork u), cchild := 0\<rparr>))"
  have "calm ?x"
    using assms(1) u(1) by (simp add: run_frame_def calm_def close_if_open_def emit_def)
  from xerrlog_calm [OF this, of "\<lambda>_ _. False" os]
  have x: "ok (\<lambda>_ _. False) (gone os) (xerrlog os l m ?x :: unit flow \<times> proc)" for l m
    by (rule ok_mono) (auto simp: gone_def ended_def)
  show ?thesis
  proof (cases "os_fork os (n_fork s)")
    case (Inl e)
    with assms(2) p have "xerrlog os LOG_ERR (''fork: '' @ cstr_or (Some (os_strerror os e)) ''?'') ?x = (r, t)"
      by (simp add: run_fork_def Let_def)
    with x [of LOG_ERR "''fork: '' @ cstr_or (Some (os_strerror os e)) ''?''"] show ?thesis
      by (cases r) auto
  next
    case (Inr pid)
    with assms(2) p u show ?thesis
      by (auto simp: run_fork_def Let_def run_frame_def calm_def close_if_open_def emit_def errlog_upd set_sig_handlers_def)
  qed
qed

lemma run_after_post:
  "config (run_after os s) = config s" "sigmask (run_after os s) = sigmask s" "calm (run_after os s)"
  "kills (trace (run_after os s)) = kills (trace s)" "n_fork (run_after os s) = n_fork s"
  "start_count (run_after os s) = start_count s" "ssh_stderr_fd (run_after os s) < 0"
  by (simp_all add: run_after_def close_stderr_def unset_sig_handlers_def clear_alarm_timer_def emit_def calm_def)

text \<open>A turn that ends: how, and with which bookkeeping.\<close>

definition run_post :: "os \<Rightarrow> proc \<Rightarrow> run_next flow \<times> proc \<Rightarrow> bool" where
  "run_post os s p \<longleftrightarrow> (case p of (r, t) \<Rightarrow> (case r of
     Return n \<Rightarrow> run_frame t = run_frame s \<and> own_kills os s t \<and> (ssh_stderr_fd s < 0 \<longrightarrow> ssh_stderr_fd t < 0) \<and>
       (case n of
          Restart \<Rightarrow> start_count t = i32 (start_count s + 1) \<and> n_fork t = Suc (n_fork s) \<and>
            (max_start s < 0 \<or> start_count s < max_start s)
        | Done v \<Rightarrow> v \<in> {P_EXITOK, P_EXITERR} \<and>
            (n_fork t = n_fork s \<or> n_fork t = Suc (n_fork s) \<and> (max_start s < 0 \<or> start_count s < max_start s)))
   | _ \<Rightarrow> gone os (void r) t))"

text \<open>The watch of a freshly forked child signals nothing but that child.\<close>

lemma watched_child:
  assumes "calm v" "os_fork os k = Inr (cchild v)" "ssh_watch os sock v = Some (r, w)"
  shows "case r of Return rc \<Rightarrow> rc \<in> {P_RESTART, P_EXITOK, P_EXITERR} \<and> sigmask w = sigmask v \<and>
      own_kills os v w \<and> n_fork w = n_fork v \<and> start_count w = start_count v \<and> config w = config v
    | _ \<Rightarrow> gone os (void r) w"
proof -
  have "killed_from (block_signals v) w = killed_from v w" by (rule killed_from_core) simp
  with watch_loop_post [of "block_signals v" os sock "sigmask v" "first_poll_time v" r w] assms(1,3)
  have W: "case r of Return rc \<Rightarrow> rc \<in> {P_RESTART, P_EXITOK, P_EXITERR} \<and> calm w \<and> sigmask w = sigmask v \<and>
      (core w = core v \<or> killed_from v w) | _ \<Rightarrow> gone os (void r) w"
    by (simp add: ssh_watch_def split: flow.splits)
  show ?thesis
  proof (cases r)
    case (Return rc)
    have "own_kills os v w" if "killed_from v w"
      using that assms(2) by (auto simp: killed_from_def own_kills_def kill_sequences_def split: if_splits)
    moreover have "own_kills os v w" if "core w = core v"
      using that by (intro own_kills_refl) (simp add: core_def)
    ultimately show ?thesis using W Return by (auto simp: core_def killed_from_def launch_def)
  qed (use W in auto)
qed

text \<open>A turn from the fork on.\<close>

lemma run_watched_post:
  assumes s: "calm s" "max_start s < 0 \<or> start_count s < max_start s"
    and v: "run_frame v = run_frame s" "kills (trace v) = kills (trace s)" "n_fork v = Suc (n_fork s)"
      "os_fork os (n_fork s) = Inr (cchild v)" "start_count v = i32 (start_count s + 1)"
    and w: "ssh_watch os sock v = Some (r, w)"
  shows "run_post os s (case r of Return rc \<Rightarrow> (Return (if rc = P_EXITOK \<or> rc = P_EXITERR then Done rc else Restart), run_after os w)
      | Exit c \<Rightarrow> (Exit c, w) | Killed g \<Rightarrow> (Killed g, w) | Longjmp g \<Rightarrow> (Longjmp g, w))"
proof -
  have "calm v" using v(1) s(1) by (auto simp: run_frame_def)
  note W = watched_child [OF this v(4) w]
  show ?thesis
  proof (cases r)
    case (Return rc)
    with W have vw: "own_kills os v w" by simp
    have "own_kills os s (run_after os w)"
      by (rule own_kills_trans [OF own_kills_refl [OF v(2)] own_kills_trans [OF vw own_kills_refl]])
        (simp add: run_after_post)
    then show ?thesis
      using Return W v s by (auto simp: run_post_def run_frame_def run_after_post)
  qed (use W in \<open>auto simp: run_post_def\<close>)
qed

lemma run_iter_post:
  assumes "calm s" "run_iter os sock s = Some p"
  shows "run_post os s p"
proof (cases "max_start s < 0 \<or> start_count s < max_start s")
  case False
  with assms(2) show ?thesis
    by (auto simp: run_iter_def run_post_def run_frame_def errlog_upd calm_def intro!: own_kills_refl)
next
  case True
  obtain x u where prep: "run_prepare os s = (x, u)" by fastforce
  note P = run_prepare_post [OF assms(1) prep]
  show ?thesis
  proof (cases "x = Return None")
    case False
    with assms(2) True prep P show ?thesis
      by (cases x) (auto simp: run_iter_def run_post_def intro!: own_kills_refl split: option.splits)
  next
    case go: True
    then have u: "run_frame u = run_frame s" "kills (trace u) = kills (trace s)" "n_fork u = n_fork s"
      "start_count u = i32 (start_count s + 1)" and cu: "calm u"
      using P assms(1) by (auto simp: run_frame_def)
    obtain y v where fork: "run_fork os u = (y, v)" by fastforce
    note F = run_fork_post [OF cu fork]
    show ?thesis
    proof (cases y)
      case (Return z)
      obtain r w where w: "ssh_watch os sock v = Some (r, w)"
        using assms(2) True prep go fork Return by (auto simp: run_iter_def split: option.splits)
      from run_watched_post [OF assms(1) True _ _ _ _ _ w] assms(2) True prep go fork Return w F u show ?thesis
        by (auto simp: run_iter_def split: flow.splits)
    qed (use assms(2) True prep go fork F in \<open>auto simp: run_iter_def run_post_def\<close>)
  qed
qed

section \<open>The loop\<close>

definition run_exit :: "run_next flow \<Rightarrow> int flow option" where
  "run_exit r = (case r of Return Restart \<Rightarrow> None | Return (Done v) \<Rightarrow> Some (Return v)
     | Exit c \<Rightarrow> Some (Exit c) | Killed g \<Rightarrow> Some (Killed g) | Longjmp g \<Rightarrow> Some (Longjmp g))"

text \<open>The turns of one run, and the one it ends with.\<close>

inductive run_head :: "os \<Rightarrow> int \<Rightarrow> proc \<Rightarrow> proc \<Rightarrow> bool" for os sock s0 where
  start: "run_head os sock s0 s0"
| step: "run_head os sock s0 s \<Longrightarrow> run_iter os sock s = Some (Return Restart, s') \<Longrightarrow> run_head os sock s0 s'"

lemma run_head_cons:
  assumes "run_iter os sock s = Some (Return Restart, s')" and "run_head os sock s' t"
  shows "run_head os sock s t"
  using assms(2)
proof induction
  case start
  show ?case by (rule run_head.step [OF run_head.start assms(1)])
next
  case (step t t')
  then show ?case by (blast intro: run_head.step)
qed

definition last_turn :: "os \<Rightarrow> int \<Rightarrow> proc \<Rightarrow> int flow \<times> proc \<Rightarrow> bool" where
  "last_turn os sock s v \<longleftrightarrow>
     (\<exists>u x. run_head os sock s u \<and> run_iter os sock u = Some (x, snd v) \<and> run_exit x = Some (fst v))"

lemma run_loop_last: "run_loop os sock s = Some v \<Longrightarrow> last_turn os sock s v"
proof (rule run_loop.raw_induct [where P = last_turn])
  fix f os sock s v
  assume IH: "\<And>os sock s v. f os sock s = Some v \<Longrightarrow> last_turn os sock s v"
    and run: "(case run_iter os sock s of
        None \<Rightarrow> None
      | Some (Return n, s') \<Rightarrow> (case n of Restart \<Rightarrow> f os sock s' | Done v \<Rightarrow> Some (Return v, s'))
      | Some (Exit c, s') \<Rightarrow> Some (Exit c, s') | Some (Killed g, s') \<Rightarrow> Some (Killed g, s')
      | Some (Longjmp g, s') \<Rightarrow> Some (Longjmp g, s')) = Some v"
  then obtain x s' where i: "run_iter os sock s = Some (x, s')" by (auto split: option.splits)
  show "last_turn os sock s v"
  proof (cases "run_exit x")
    case None
    then have x: "x = Return Restart" by (auto simp: run_exit_def split: flow.splits run_next.splits)
    with run i have "f os sock s' = Some v" by simp
    from IH [OF this] run_head_cons [OF i [unfolded x]] show ?thesis by (auto simp: last_turn_def)
  next
    case (Some y)
    with run i have "y = fst v" "s' = snd v" by (auto simp: run_exit_def split: flow.splits run_next.splits)
    with Some i show ?thesis unfolding last_turn_def by (blast intro: run_head.start)
  qed
qed

text \<open>The invariant of the turns: nothing fixed has changed, only own children were signalled, and
  the starts are counted exactly.\<close>

definition run_inv :: "os \<Rightarrow> proc \<Rightarrow> proc \<Rightarrow> bool" where
  "run_inv os s0 s \<longleftrightarrow> run_frame s = run_frame s0 \<and> own_kills os s0 s \<and> ssh_stderr_fd s < 0 \<and>
     (0 \<le> max_start s0 \<and> max_start s0 < 2 ^ 31 \<and> 0 \<le> start_count s0 \<longrightarrow>
        start_count s0 \<le> start_count s \<and> start_count s - start_count s0 = int (n_fork s) - int (n_fork s0) \<and>
        (start_count s = start_count s0 \<or> start_count s \<le> max_start s0))"

lemma run_frame_sel: "run_frame t = run_frame s \<Longrightarrow> max_start t = max_start s" "run_frame t = run_frame s \<Longrightarrow> calm t = calm s"
  by (simp_all add: run_frame_def config_def)

lemma run_head_inv:
  assumes "run_head os sock s0 s" "calm s0" "ssh_stderr_fd s0 < 0"
  shows "run_inv os s0 s"
  using assms
proof induction
  case start
  then show ?case by (auto simp: run_inv_def intro: own_kills_refl)
next
  case (step s s')
  then have inv: "run_inv os s0 s" by simp
  then have f: "run_frame s = run_frame s0" "calm s"
    using step.prems run_frame_sel(2) [of s s0] by (auto simp: run_inv_def)
  note P = run_iter_post [OF f(2) step.hyps(2), unfolded run_post_def, simplified]
  have m: "max_start s = max_start s0" by (rule run_frame_sel [OF f(1)])
  have "i32 (start_count s + 1) = start_count s + 1"
    if "0 \<le> max_start s0" "max_start s0 < 2 ^ 31" "0 \<le> start_count s0"
    using that inv P m by (auto simp: run_inv_def in_i32_def)
  then show ?case
    using inv P m own_kills_trans [of os s0 s s'] by (auto simp: run_inv_def)
qed

lemma run_entry:
  "calm (install_for_child os (set_exit_sig_handler s)) = calm s"
  "config (install_for_child os (set_exit_sig_handler s)) = config s"
  "sigmask (install_for_child os (set_exit_sig_handler s)) = sigmask s"
  "ssh_stderr_fd (install_for_child os (set_exit_sig_handler s)) = ssh_stderr_fd s"
  "trace (install_for_child os (set_exit_sig_handler s)) = trace s"
  "n_fork (install_for_child os (set_exit_sig_handler s)) = n_fork s"
  "start_count (install_for_child os (set_exit_sig_handler s)) = start_count s"
  "max_start (install_for_child os (set_exit_sig_handler s)) = max_start s"
  "exit_signalled (install_for_child os (set_exit_sig_handler s)) = exit_signalled s"
proof -
  obtain p v where i: "install_for_child os (set_exit_sig_handler s) = (set_exit_sig_handler s)\<lparr>so_path := p, ld_preload := v\<rparr>"
    using install_for_child_upd by blast
  show "calm (install_for_child os (set_exit_sig_handler s)) = calm s"
    "config (install_for_child os (set_exit_sig_handler s)) = config s"
    "sigmask (install_for_child os (set_exit_sig_handler s)) = sigmask s"
    "ssh_stderr_fd (install_for_child os (set_exit_sig_handler s)) = ssh_stderr_fd s"
    "trace (install_for_child os (set_exit_sig_handler s)) = trace s"
    "n_fork (install_for_child os (set_exit_sig_handler s)) = n_fork s"
    "start_count (install_for_child os (set_exit_sig_handler s)) = start_count s"
    "max_start (install_for_child os (set_exit_sig_handler s)) = max_start s"
    "exit_signalled (install_for_child os (set_exit_sig_handler s)) = exit_signalled s"
    unfolding i by (simp_all add: set_exit_sig_handler_def calm_def)
qed

text \<open>The last turn of a run that returns, with the invariant of the turns before it.\<close>

lemma ssh_run_last:
  assumes "calm s" "ssh_stderr_fd s < 0" "ssh_run os sock s = Some (r, t)"
  obtains u x where "run_inv os (install_for_child os (set_exit_sig_handler s)) u"
    "run_post os u (x, t)" "run_exit x = Some r"
proof -
  let ?e = "install_for_child os (set_exit_sig_handler s)"
  have e: "calm ?e" "ssh_stderr_fd ?e < 0" using assms(1,2) by (simp_all add: run_entry)
  obtain u x where u: "run_head os sock ?e u" "run_iter os sock u = Some (x, t)" "run_exit x = Some r"
    using run_loop_last [OF assms(3) [unfolded ssh_run_def]] by (auto simp: last_turn_def)
  have inv: "run_inv os ?e u" by (rule run_head_inv [OF u(1) e])
  then have "calm u" using e(1) run_frame_sel(2) [of u ?e] by (simp add: run_inv_def)
  from run_iter_post [OF this u(2)] inv u(3) that show thesis by blast
qed

section \<open>After a termination signal\<close>

text \<open>The flag of a termination signal is never lowered.\<close>

lemma stable_flag_async: "stable (\<lambda>s. exit_signalled s \<noteq> 0) (async_point os)"
proof -
  have d: "stable (\<lambda>s. exit_signalled s \<noteq> 0) (deliver os g)" for g
    by (auto simp: stable_def deliver_def sig_catch_def jump_if_armed_def split: disposition.split)
  have "stable (\<lambda>s. exit_signalled s \<noteq> 0) (deliver_all os gs)" for gs
    by (induction gs) (auto intro: hoare d)
  then show ?thesis by (simp add: stable_def async_point_def)
qed

lemma stable_flag_sleep: "stable (\<lambda>s. exit_signalled s \<noteq> 0) (sleep_p os n)"
  unfolding sleep_p_def [abs_def] by (rule stable_comp [OF stable_flag_async]) (simp add: emit_def)

lemma stable_flag_grace: "stable (\<lambda>s. exit_signalled s \<noteq> 0) (grace_time os l)"
proof -
  let ?I = "\<lambda>s. exit_signalled s \<noteq> 0"
  note sl = stable_flag_sleep
  have b: "stable ?I (grace_backoff os)"
    using sl by (simp add: stable_def grace_backoff_def)
  have "stable ?I (then_p (sleep_p os PORT_FWD_FAIL_DELAY) (modify_p (\<lambda>s. s\<lparr>port_fwd_failed := 0\<rparr>)))"
    by (intro hoare sl) simp
  then have p: "stable ?I (grace_port os)"
    by (simp add: stable_def grace_port_def errlog_upd)
  show ?thesis
    using stable_then [OF b p] by (simp add: stable_def grace_time_def tick_def)
qed

lemma run_prepare_flag:
  assumes "exit_signalled s \<noteq> 0" "run_prepare os s = (Return x, t)"
  shows "x \<noteq> None"
proof -
  obtain y u where x: "exceeded_lifetime os s = (y, u)" by fastforce
  have u: "exit_signalled u = exit_signalled s"
    using x by (auto simp: exceeded_lifetime_def errlog_upd tick_def split: if_splits)
  let ?s1 = "u\<lparr>restart_ssh := 0, start_count := i32 (start_count u + 1)\<rparr>"
  obtain q v where g: "grace_time os (start_time u) ?s1 = (q, v)" by fastforce
  have "exit_signalled v \<noteq> 0"
    using stableD [OF stable_flag_grace _ g] assms(1) u by simp
  with assms(2) x g show ?thesis
    by (cases q) (auto simp: run_prepare_def Let_def split: if_splits)
qed

lemma stable_flag_reap: "stable (\<lambda>s. exit_signalled s \<noteq> 0) (reap_with_grace os k a)"
proof (induction k)
  case (Suc k)
  from stable_then [OF stable_flag_sleep this] show ?case
    by (simp add: stable_def Let_def emit_def errlog_upd split: prod.split)
qed (simp add: stable_def)

lemma stable_flag_kill: "stable (\<lambda>s. exit_signalled s \<noteq> 0) (ssh_kill os)"
proof -
  let ?I = "\<lambda>s. exit_signalled s \<noteq> 0"
  have "stable ?I (bind_p (reap_with_grace os SIGTERM_GRACE False)
          (\<lambda>reaped. if reaped then return_p ()
             else then_p (modify_p (\<lambda>s. kill_child SIGKILL (errlog os LOG_WARNING (msg_escalate (cchild s)) s)))
               (bind_p (reap_with_grace os SIGKILL_WAIT True)
                  (\<lambda>reaped. if reaped then return_p ()
                     else modify_p (\<lambda>s. (errlog os LOG_ERR (msg_abandon (cchild s)) s)\<lparr>cchild := 0\<rparr>)))))"
    by (intro hoare stable_flag_reap) (auto intro: hoare simp: kill_child_def emit_def errlog_upd)
  then show ?thesis
    unfolding stable_def ssh_kill_def Let_def by (auto simp: close_stderr_def kill_child_def emit_def)
qed

text \<open>An iteration of the watch that begins with the flag raised does not wait again: it leaves with
  a verdict, the flag still raised, with nothing signalled or after the teardown of the child.\<close>

definition noted_end :: "os \<Rightarrow> proc \<Rightarrow> watch_next flow \<times> proc \<Rightarrow> bool" where
  "noted_end os s p \<longleftrightarrow> (case p of (r, t) \<Rightarrow> exit_signalled t \<noteq> 0 \<and> n_fork t = n_fork s \<and>
     (\<exists>ks. kills (trace t) = kills (trace s) @ ks \<and> (ks = [] \<or> ks \<in> kill_sequences (cchild s))) \<and>
     (case r of Return n \<Rightarrow> (\<exists>v \<in> {P_RESTART, P_EXITOK, P_EXITERR}. n = Verdict v) \<and> calm t
      | _ \<Rightarrow> gone os (void r) t))"

lemma ret_noted:
  assumes "calm s" "exit_signalled s \<noteq> 0" "rc \<in> {P_RESTART, P_EXITOK, P_EXITERR}"
    and "n_fork s = n_fork s0" "kills (trace s) = kills (trace s0) @ ks" "ks = [] \<or> ks \<in> kill_sequences (cchild s0)"
  shows "noted_end os s0 (ret os savedmask rc s)"
proof -
  obtain r t where r: "restore_mask os savedmask s = (r, t)" by fastforce
  have "stable (\<lambda>u. (n_fork u, kills (trace u)) = (n_fork s, kills (trace s))) (async_point os)"
    by (rule stable_async_point) (simp add: flag_free_def)
  from stableD [OF this _ r [unfolded restore_mask_def]] have t: "n_fork t = n_fork s" "kills (trace t) = kills (trace s)" by simp_all
  have f: "exit_signalled t \<noteq> 0"
    using stableD [OF stable_flag_async _ r [unfolded restore_mask_def]] assms(2) by simp
  have "ok (\<lambda>_. calm) (gone os) (r, t)"
    using restore_keeps [OF assms(1), of savedmask os] unfolding r by (rule ok_mono) (auto simp: quits_gone)
  with r t f assms(3-6) show ?thesis
    by (cases r) (auto simp: noted_end_def ret_def then_p_def bind_p_def return_p_def)
qed

lemma kill_ret_noted:
  assumes "calm s" "exit_signalled s \<noteq> 0" "rc \<in> {P_RESTART, P_EXITOK, P_EXITERR}"
    and "n_fork s = n_fork s0" "kills (trace s) = kills (trace s0)" "cchild s = cchild s0"
  shows "noted_end os s0 (kill_ret os savedmask rc s)"
proof -
  obtain r t where k: "ssh_kill os s = (r, t)" by fastforce
  obtain ks where ks: "kills (trace t) = kills (trace s) @ ks" "ks \<in> kill_sequences (cchild s)"
    using ssh.kill_signals [OF k] by blast
  have f: "exit_signalled t \<noteq> 0" using stableD [OF stable_flag_kill _ k] assms(2) by simp
  have n: "n_fork t = n_fork s" using ssh.kill_kept [OF k] by (simp add: kept_def)
  have q: "ok (\<lambda>_. calm) (gone os) (r, t)"
    using kill_keeps [OF assms(1), of os] unfolding k by (rule ok_mono) (auto simp: quits_gone)
  show ?thesis
  proof (cases r)
    case (Return u)
    then have "noted_end os s0 (ret os savedmask rc t)"
      using q f n ks assms(3-6) by (intro ret_noted [where ks = ks]) auto
    with Return k show ?thesis by (simp add: kill_ret_def then_p_def bind_p_def)
  qed (use q f n ks k assms(4-6) in \<open>auto simp: noted_end_def kill_ret_def then_p_def bind_p_def\<close>)
qed

lemma noted_end_core: "core s = core s' \<Longrightarrow> noted_end os s = noted_end os s'"
  by (simp add: noted_end_def core_def fun_eq_iff)

lemma watch_iter_noted:
  assumes "calm s" "exit_signalled s \<noteq> 0"
  shows "noted_end os s (watch_iter os sock savedmask p s)"
proof -
  let ?b = "block_signals s"
  obtain r t where w: "ssh_wait os WNOHANG ?b = (r, t)" by fastforce
  note c = ssh_wait_core [OF w] and k = ssh_wait_kept(9) [OF w]
  have b: "calm ?b" "core ?b = core s" "exit_signalled ?b = exit_signalled s" using assms(1) by (simp_all add: block_signals_def)
  have e: "exit_signalled (errlog os l m u) = exit_signalled u" for l m u by (simp add: errlog_upd)
  have kr: "noted_end os s (kill_ret os savedmask rc u)"
    if "calm u" "core u = core s" "exit_signalled u \<noteq> 0" "rc \<in> {P_RESTART, P_EXITOK, P_EXITERR}" for u rc
    by (rule kill_ret_noted) (use that in \<open>auto simp: core_def\<close>)
  have "noted_end os s (ret os savedmask r t)" if "r \<noteq> P_CONTINUE"
    by (rule ret_noted [where ks = "[]"]) (use that c k b assms(2) in \<open>auto simp: core_def\<close>)
  moreover have "noted_end os s (kill_ret os savedmask P_EXITERR
      (errlog os LOG_INFO ''signalled to exit'' ((arm_alarm os p t)\<lparr>dolongjmp := 0\<rparr>)))"
    by (rule kr) (use c k b assms(2) in \<open>auto simp: arm_alarm_core e\<close>)
  moreover have "exit_signalled (arm_alarm os p t) \<noteq> 0" using k b assms(2) by (simp add: arm_alarm_core)
  ultimately have t: "noted_end os s (watch_try os savedmask p ?b)"
    using w by (simp add: watch_try_def watch_wait_def)
  have "noted_end os s (kill_ret os savedmask P_RESTART (errlog os LOG_INFO ''signalled to kill and restart ssh'' ?b))"
    by (rule kr) (use b assms(2) in \<open>auto simp: e\<close>)
  moreover have "fst (watch_try os savedmask p ?b) \<noteq> Longjmp g" for g
    using t by (auto simp: noted_end_def gone_def split: flow.splits prod.splits)
  ultimately show ?thesis
    using t by (cases "watch_try os savedmask p ?b"; cases "fst (watch_try os savedmask p ?b)")
      (auto simp: watch_iter_def Let_def)
qed

text \<open>The points at which a run finds itself: the heads of its turns, and the heads of the iterations
  of the watch inside a turn.\<close>

inductive run_point :: "os \<Rightarrow> int \<Rightarrow> proc \<Rightarrow> proc \<Rightarrow> bool" for os sock s where
  turn: "run_head os sock (install_for_child os (set_exit_sig_handler s)) u \<Longrightarrow> run_point os sock s u"
| watching: "run_head os sock (install_for_child os (set_exit_sig_handler s)) u \<Longrightarrow>
    max_start u < 0 \<or> start_count u < max_start u \<Longrightarrow>
    run_prepare os u = (Return None, v) \<Longrightarrow> run_fork os v = (Return (), w) \<Longrightarrow>
    watch_head os sock (sigmask w) (first_poll_time w) (block_signals w) p x \<Longrightarrow> run_point os sock s x"

lemma run_loop_head: "run_head os sock s u \<Longrightarrow> run_loop os sock s = run_loop os sock u"
proof (induction rule: run_head.induct)
  case (step u u')
  then show ?case by (simp add: run_loop.simps [of os sock u])
qed simp

lemma run_head_calm: "run_head os sock s u \<Longrightarrow> calm s \<Longrightarrow> calm u"
proof (induction rule: run_head.induct)
  case (step u u')
  then have "run_post os u (Return Restart, u')" by (intro run_iter_post) auto
  with step show ?case by (auto simp: run_post_def run_frame_def)
qed

lemma watch_loop_head:
  "watch_head os sock savedmask p0 s0 p s \<Longrightarrow> watch_loop os sock savedmask p0 s0 = watch_loop os sock savedmask p s"
proof (induction rule: watch_head.induct)
  case (step p s p' s')
  then show ?case by (simp add: watch_loop.simps [of os sock savedmask p s])
qed simp

lemma run_loop_noted:
  assumes "calm u" "exit_signalled u \<noteq> 0"
  shows "\<exists>r t. run_loop os sock u = Some (r, t) \<and> n_fork t = n_fork u \<and> kills (trace t) = kills (trace u) \<and>
    (case r of Return v \<Rightarrow> v \<in> {P_EXITOK, P_EXITERR} | _ \<Rightarrow> gone os (void r) t)"
proof -
  obtain x v where prep: "run_prepare os u = (x, v)" by fastforce
  note P = run_prepare_post [OF assms(1) prep] run_prepare_quiet [OF prep] run_prepare_flag [OF assms(2), of os _ v]
  show ?thesis
    using P prep assms
    by (subst run_loop.simps, cases x) (auto simp: run_iter_def errlog_upd split: option.splits)
qed

lemma watch_noted:
  assumes "calm w" "watch_head os sock (sigmask w) (first_poll_time w) (block_signals w) p x" "exit_signalled x \<noteq> 0"
  shows "\<exists>r t. ssh_watch os sock w = Some (r, t) \<and> exit_signalled t \<noteq> 0 \<and> n_fork t = n_fork x \<and>
    (\<exists>ks. kills (trace t) = kills (trace x) @ ks \<and> (ks = [] \<or> ks \<in> kill_sequences (cchild x))) \<and>
    (case r of Return v \<Rightarrow> v \<in> {P_RESTART, P_EXITOK, P_EXITERR} | _ \<Rightarrow> gone os (void r) t)"
proof -
  have "calm x" using watch_head_inv [OF assms(2)] assms(1) by simp
  obtain r t where i: "watch_iter os sock (sigmask w) p x = (r, t)" by fastforce
  have "noted_end os x (r, t)" using watch_iter_noted [OF \<open>calm x\<close> assms(3), of os sock "sigmask w" p] i by simp
  then show ?thesis
    unfolding ssh_watch_def watch_loop_head [OF assms(2)] watch_loop.simps [of os sock "sigmask w" p x] i
    by (cases r) (auto simp: noted_end_def)
qed

lemma noted_run_ends:
  assumes "calm s" "run_point os sock s x" "exit_signalled x \<noteq> 0"
  shows "\<exists>r t ks. ssh_run os sock s = Some (r, t) \<and> n_fork t = n_fork x \<and>
    kills (trace t) = kills (trace x) @ ks \<and> (ks = [] \<or> ks \<in> kill_sequences (cchild x)) \<and>
    (case r of Return v \<Rightarrow> v \<in> {P_EXITOK, P_EXITERR} | _ \<Rightarrow> gone os (void r) t)"
proof -
  let ?e = "install_for_child os (set_exit_sig_handler s)"
  have e: "calm ?e" using assms(1) by (simp add: run_entry)
  from assms(2) show ?thesis
  proof cases
    case turn
    with run_loop_noted [OF run_head_calm [OF turn e] assms(3), of os sock] show ?thesis
      by (auto simp: ssh_run_def run_loop_head)
  next
    case (watching u v w p)
    have "calm w"
      using run_prepare_post [OF run_head_calm [OF watching(1) e] watching(3)] run_fork_post [OF _ watching(4)]
        run_head_calm [OF watching(1) e] by (auto simp: run_frame_def)
    from watch_noted [OF this watching(5) assms(3)] obtain r t ks where
      W: "ssh_watch os sock w = Some (r, t)" and t: "exit_signalled t \<noteq> 0" "n_fork t = n_fork x"
        "kills (trace t) = kills (trace x) @ ks" "ks = [] \<or> ks \<in> kill_sequences (cchild x)"
      and r: "case r of Return v \<Rightarrow> v \<in> {P_RESTART, P_EXITOK, P_EXITERR} | _ \<Rightarrow> gone os (void r) t" by blast
    have run: "ssh_run os sock s = run_loop os sock u" by (simp add: ssh_run_def run_loop_head [OF watching(1)])
    have after: "calm (run_after os t)" "exit_signalled (run_after os t) \<noteq> 0" "n_fork (run_after os t) = n_fork x"
        "kills (trace (run_after os t)) = kills (trace x) @ ks"
      using t run_after_post [of os t]
      by (simp_all add: run_after_def close_stderr_def unset_sig_handlers_def clear_alarm_timer_def emit_def)
    show ?thesis
    proof (cases r)
      case (Return rc)
      show ?thesis
      proof (cases "rc = P_EXITOK \<or> rc = P_EXITERR")
        case True
        then have "ssh_run os sock s = Some (Return rc, run_after os t)"
          unfolding run run_loop.simps [of os sock u] using watching(2-4) W Return by (auto simp: run_iter_def)
        with True after t(4) show ?thesis by auto
      next
        case False
        then have "ssh_run os sock s = run_loop os sock (run_after os t)"
          unfolding run run_loop.simps [of os sock u] using watching(2-4) W Return by (auto simp: run_iter_def)
        with run_loop_noted [OF after(1,2), of os sock] after(3,4) t(4) show ?thesis by auto
      qed
    qed (use watching(2-4) W r t run in \<open>auto simp: run_loop.simps [of os sock u] run_iter_def\<close>)
  qed
qed

section \<open>A run that ends\<close>

text \<open>A kernel on which every poll finds the child dead.\<close>

definition dead_os :: os where
  "dead_os = idle_os\<lparr>os_waitpid := (\<lambda>_. (42, 9, 0)), os_so_open := -1\<rparr>"

definition one_start :: proc where
  "one_start = initial_proc\<lparr>max_start := 1, loglevel := -1\<rparr>"

lemma one_start_sel [simp]:
  "calm one_start" "ssh_stderr_fd one_start = -1" "max_start one_start = 1" "start_count one_start = 0" "n_fork one_start = 0"
  by (simp_all add: one_start_def calm_def)

lemma dead_os_returns: "\<exists>t. ssh_run dead_os (-1) (one_start) = Some (Return P_EXITOK, t)"
proof -
  let ?e = "install_for_child dead_os (set_exit_sig_handler (one_start))"
  have "\<exists>u. run_iter dead_os (-1) ?e = Some (Return Restart, u) \<and> max_start u = 1 \<and> start_count u = 1"
    by (simp add: run ssh_watch_def watch_loop.simps dead_os_def one_start_def eval_nat_numeral WIFSIGNALED_def WTERMSIG_def
        MAX_LIFETIME_DEFAULT_def difftime_def in_i32_def)
  then obtain u where u: "run_iter dead_os (-1) ?e = Some (Return Restart, u)" "max_start u = 1" "start_count u = 1" by blast
  have "run_loop dead_os (-1) u = Some (Return P_EXITOK, errlog dead_os LOG_INFO ''max start count reached; exiting'' u)"
    using u by (subst run_loop.simps) (simp add: run_iter_def)
  then show ?thesis using u by (simp add: ssh_run_def run_loop.simps [of _ _ ?e])
qed

text \<open>A kernel on which the first child is found dead while a SIGTERM is pending: the signal is
  delivered when the watch restores the mask, and the next turn begins with the flag raised.\<close>

definition noted_os :: os where
  "noted_os = dead_os\<lparr>os_async := (\<lambda>k. if k = 0 then [SIGTERM] else [])\<rparr>"

definition two_starts :: proc where
  "two_starts = initial_proc\<lparr>max_start := 2, loglevel := -1\<rparr>"

lemma noted_os_restarts:
  "\<exists>x. run_point noted_os (-1) two_starts x \<and> exit_signalled x = 1 \<and> n_fork x = 1"
proof -
  let ?e = "install_for_child noted_os (set_exit_sig_handler two_starts)"
  have "\<exists>u. run_iter noted_os (-1) ?e = Some (Return Restart, u) \<and> exit_signalled u = 1 \<and> n_fork u = 1"
    by (simp add: run ssh_watch_def watch_loop.simps noted_os_def dead_os_def two_starts_def eval_nat_numeral WIFSIGNALED_def
        WTERMSIG_def MAX_LIFETIME_DEFAULT_def difftime_def in_i32_def)
  then show ?thesis by (blast intro: run_point.turn run_head.step [OF run_head.start])
qed

text \<open>How the start loop ends.\<close>

lemma ssh_run_ends:
  assumes "calm s" "ssh_stderr_fd s < 0" "ssh_run os sock s = Some (r, t)"
  shows "case r of Return v \<Rightarrow> v \<in> {P_EXITOK, P_EXITERR} \<and> config t = config s \<and> sigmask t = sigmask s \<and>
      calm t \<and> ssh_stderr_fd t < 0 \<and> own_kills os s t
    | _ \<Rightarrow> gone os (void r) t"
proof -
  let ?e = "install_for_child os (set_exit_sig_handler s)"
  obtain u x where inv: "run_inv os ?e u" and P: "run_post os u (x, t)" and x: "run_exit x = Some r"
    using ssh_run_last [OF assms] .
  have "own_kills os s t" if "own_kills os ?e t" using that by (simp add: own_kills_def run_entry)
  then show ?thesis
    using inv P x assms(1) own_kills_trans [of os ?e u t]
    by (auto simp: run_inv_def run_post_def run_exit_def run_frame_def run_entry split: flow.splits run_next.splits)
qed

section \<open>Claims\<close>

text \<open>C1: The contract of the supervisor: whatever kernel, child, clock and network do, when the
  start loop returns, the verdict is a clean or an error exit and never a request to restart; the
  settings and the signal mask are those of the caller, jumps are disarmed, the stderr pipe is
  closed, and every signal it ever sent went to a process that one of its own forks created. If it
  does not return, the process exited with status 1 or died of a signal left at its default; a
  jump never escapes.\<close>

theorem ssh_run_contract:
  assumes "calm s" "ssh_stderr_fd s < 0" "ssh_run os sock s = Some (r, t)"
  shows "case r of Return v \<Rightarrow> v \<in> {P_EXITOK, P_EXITERR} \<and> config t = config s \<and> sigmask t = sigmask s \<and>
      calm t \<and> ssh_stderr_fd t < 0 \<and> own_kills os s t
    | _ \<Rightarrow> gone os (void r) t"
  using assms by (rule ssh_run_ends)

theorem ssh_run_contract_witness:
  "\<exists>r t. ssh_run dead_os (-1) (one_start) = Some (r, t) \<and>
     (case r of Return v \<Rightarrow> v \<in> {P_EXITOK, P_EXITERR} | _ \<Rightarrow> gone dead_os (void r) t)"
proof -
  let ?s = "one_start"
  obtain r t where run: "ssh_run dead_os (-1) ?s = Some (r, t)" using dead_os_returns by blast
  have c: "calm ?s" "ssh_stderr_fd ?s < 0" by simp_all
  from ssh_run_contract [OF c run] run show ?thesis by (auto split: flow.splits)
qed

text \<open>C6: The start limit is a limit: with a non-negative limit the supervisor forks at most as many
  children as the limit still allows.\<close>

theorem ssh_run_start_limit:
  assumes "calm s" "ssh_stderr_fd s < 0" "ssh_run os sock s = Some (Return v, t)"
    and "0 \<le> max_start s" "max_start s < 2 ^ 31" "0 \<le> start_count s"
  shows "n_fork t \<le> n_fork s + nat (max_start s - start_count s)"
proof -
  let ?e = "install_for_child os (set_exit_sig_handler s)"
  obtain u x where inv: "run_inv os ?e u" and P: "run_post os u (x, t)" and x: "run_exit x = Some (Return v)"
    using ssh_run_last [OF assms(1-3)] .
  have m: "max_start u = max_start s" using inv run_frame_sel(1) [of u ?e] by (simp add: run_inv_def run_entry)
  show ?thesis
    using inv P x assms(4-6) m
    by (auto simp: run_inv_def run_post_def run_exit_def run_entry split: flow.splits run_next.splits)
qed

theorem ssh_run_start_limit_witness:
  "\<exists>t. ssh_run dead_os (-1) (one_start) = Some (Return P_EXITOK, t) \<and> n_fork t \<le> 1"
proof -
  let ?s = "one_start"
  obtain t where run: "ssh_run dead_os (-1) ?s = Some (Return P_EXITOK, t)" using dead_os_returns by blast
  have c: "calm ?s" "ssh_stderr_fd ?s < 0" by simp_all
  from ssh_run_start_limit [OF c run] run show ?thesis by simp
qed

text \<open>C7: Once a termination signal has been noted, no further child is started. At whichever point
  of the run the flag is found raised, at the head of a turn of the start loop or at the head of
  an iteration of the watch over a child, the run ends from there, whatever happens outside: it
  forks no more children, it signals nothing but, at most, the child that is being watched
  (SIGTERM, then SIGKILL if need be), and it returns a clean or an error exit, unless a further
  signal ends the process.\<close>

theorem no_start_after_exit_signal:
  assumes "calm s" "run_point os sock s x" "exit_signalled x \<noteq> 0"
  shows "\<exists>r t ks. ssh_run os sock s = Some (r, t) \<and> n_fork t = n_fork x \<and>
    kills (trace t) = kills (trace x) @ ks \<and> (ks = [] \<or> ks \<in> kill_sequences (cchild x)) \<and>
    (case r of Return v \<Rightarrow> v \<in> {P_EXITOK, P_EXITERR} | _ \<Rightarrow> gone os (void r) t)"
  using assms by (rule noted_run_ends)

theorem no_start_after_exit_signal_witness:
  "\<exists>x r t. run_point noted_os (-1) two_starts x \<and> exit_signalled x = 1 \<and> n_fork x = 1 \<and>
     ssh_run noted_os (-1) two_starts = Some (r, t) \<and> n_fork t = 1"
proof -
  obtain x where x: "run_point noted_os (-1) two_starts x" "exit_signalled x = 1" "n_fork x = 1"
    using noted_os_restarts by blast
  have "calm two_starts" by (simp add: two_starts_def calm_def)
  from no_start_after_exit_signal [OF this x(1)] x show ?thesis by auto
qed

end
