(* ===== verification/Args.thy ===== *)
theory Args
  imports CString
begin

text \<open>
  \<^verbatim>\<open>src/args.rs\<close>: the argument vector for ssh, a growing array of pointers that is always
  terminated by a null pointer, and the in-place removal of an option letter. The allocator is a
  parameter: it says which of the three allocations succeed and what the slots that \<^verbatim>\<open>realloc\<close>
  adds hold. Memory accesses outside an object are a value of the error type.
\<close>

section \<open>The argument vector\<close>

definition START_AV_SZ :: nat where "START_AV_SZ = 16"

record args =
  newac :: int
  newav :: "string option list option"
  NEWAV_CAP :: nat

definition initial_args :: args where
  "initial_args = \<lparr>newac = 0, newav = None, NEWAV_CAP = START_AV_SZ\<rparr>"

record alloc =
  al_calloc :: bool
  al_realloc :: bool
  al_malloc :: bool
  al_junk :: "nat \<Rightarrow> string option"

text \<open>\<open>Alloc_fail what\<close> is \<^verbatim>\<open>alloc_fail\<close>: a line on stderr and exit status 1.\<close>

datatype arg_error = Alloc_fail string | Out_of_bounds

definition store :: "nat \<Rightarrow> string option \<Rightarrow> string option list \<Rightarrow> arg_error + string option list" where
  "store i v av = (if i < length av then Inr (av[i := v]) else Inl Out_of_bounds)"

definition grow :: "alloc \<Rightarrow> args \<Rightarrow> arg_error + string option list \<times> nat" where
  "grow al a =
     (case newav a of
        None \<Rightarrow> if al_calloc al then Inr (replicate START_AV_SZ None, START_AV_SZ) else Inl (Alloc_fail ''malloc'')
      | Some av \<Rightarrow>
          if nat (u64 (newac a)) \<ge> NEWAV_CAP a - 1 then
            (if al_realloc al
             then Inr (av @ map (al_junk al) [NEWAV_CAP a ..< NEWAV_CAP a * 2], NEWAV_CAP a * 2)
             else Inl (Alloc_fail ''realloc''))
          else Inr (av, NEWAV_CAP a))"

definition add_arg :: "alloc \<Rightarrow> string option \<Rightarrow> args \<Rightarrow> arg_error + args" where
  "add_arg al s a =
     (case s of
        None \<Rightarrow> Inr a
      | Some str \<Rightarrow>
          if str = [] then Inr a
          else case grow al a of
            Inl e \<Rightarrow> Inl e
          | Inr (av, cap) \<Rightarrow>
              if \<not> al_malloc al then Inl (Alloc_fail ''malloc'')
              else case store (nat (u64 (newac a))) (Some str) av of
                Inl e \<Rightarrow> Inl e
              | Inr av1 \<Rightarrow>
                  let n = i32 (newac a + 1) in
                  (case store (nat (u64 n)) None av1 of
                     Inl e \<Rightarrow> Inl e
                   | Inr av2 \<Rightarrow> Inr \<lparr>newac = n, newav = Some av2, NEWAV_CAP = cap\<rparr>))"

section \<open>Removing an option letter\<close>

text \<open>The argument is the buffer \<open>buf\<close> that holds it, terminator included; \<open>None\<close> is an access
  outside the buffer.\<close>

definition memmove_left :: "string \<Rightarrow> nat \<Rightarrow> nat \<Rightarrow> string option" where
  "memmove_left buf i len =
     (if i + 1 + len \<le> length buf
      then Some (take i buf @ take len (drop (i + 1) buf) @ drop (i + len) buf) else None)"

definition takes_param :: "string \<Rightarrow> char \<Rightarrow> bool" where
  "takes_param opts c = (case strchr opts c of Some (_ # x # _) \<Rightarrow> x = CHR '':'' | _ \<Rightarrow> False)"

text \<open>The loop from position \<open>i\<close>; the flag of the result tells the early return from the end of
  the loop.\<close>

function strip_loop :: "char \<Rightarrow> string \<Rightarrow> string \<Rightarrow> nat \<Rightarrow> nat \<Rightarrow> (string \<times> bool) option" where
  "strip_loop ch opts buf i len =
     (if i \<ge> length buf then None
      else if buf ! i = NUL then Some (buf, False)
      else if takes_param opts (buf ! i) then Some (buf, True)
      else case (if buf ! i = ch then memmove_left buf i len else Some buf) of
        None \<Rightarrow> None
      | Some buf' \<Rightarrow> strip_loop ch opts buf' (Suc i) (if len > 0 then len - 1 else len))"
  by pat_completeness auto
termination
  by (relation "measure (\<lambda>(_, _, buf, i, _). length buf - i)")
    (auto simp: memmove_left_def split: if_splits)

declare strip_loop.simps [simp del]

definition strip_arg :: "string option \<Rightarrow> char \<Rightarrow> string option \<Rightarrow> string option option" where
  "strip_arg arg ch opts =
     (case (arg, opts) of
        (Some buf, Some os) \<Rightarrow>
          if length buf = 0 then None
          else if buf ! 0 \<noteq> CHR ''-'' then Some (Some buf)
          else if length buf = 1 then None
          else if buf ! 1 = NUL then Some (Some buf)
          else (case strip_loop ch os buf 0 (length (c_text buf)) of
             None \<Rightarrow> None
           | Some (buf', True) \<Rightarrow> Some (Some buf')
           | Some (buf', False) \<Rightarrow> Some (Some (if buf' ! 1 = NUL then buf'[0 := NUL] else buf')))
      | _ \<Rightarrow> Some arg)"

section \<open>The vector as a list\<close>

text \<open>The list that \<^verbatim>\<open>execvp\<close> reads from the array: the strings up to the first null pointer.\<close>

definition args_list :: "args \<Rightarrow> string list" where
  "args_list a = (case newav a of None \<Rightarrow> [] | Some av \<Rightarrow> map the (takeWhile (\<lambda>x. x \<noteq> None) av))"

definition args_ok :: "args \<Rightarrow> bool" where
  "args_ok a \<longleftrightarrow>
     newac a = int (length (args_list a)) \<and> START_AV_SZ \<le> NEWAV_CAP a \<and>
     (case newav a of None \<Rightarrow> True
      | Some av \<Rightarrow> length av = NEWAV_CAP a \<and> length (args_list a) < NEWAV_CAP a)"

definition nonempty :: "string option \<Rightarrow> string list" where
  "nonempty s = (case s of None \<Rightarrow> [] | Some x \<Rightarrow> if x = [] then [] else [x])"

lemma args_slots:
  assumes "newav a = Some av" "args_ok a"
  obtains rest where "av = map Some (args_list a) @ None # rest"
proof -
  let ?p = "takeWhile (\<lambda>x. x \<noteq> None) av"
  have p: "?p = map Some (args_list a)"
    using assms(1) by (auto simp: args_list_def comp_def dest!: set_takeWhileD intro!: map_idI [symmetric])
  have "length ?p < length av" using assms p by (simp add: args_ok_def)
  then obtain x rest where d: "dropWhile (\<lambda>x. x \<noteq> None) av = x # rest"
    by (metis dropWhile_eq_Nil_conv list.exhaust takeWhile_eq_all_conv less_irrefl)
  then have "x = None" by (metis (full_types) dropWhile_eq_Cons_conv)
  with d p that [of rest] show ?thesis by (metis takeWhile_dropWhile_id)
qed

lemma args_list_slots:
  assumes "newav a = Some (map Some xs @ None # rest)"
  shows "args_list a = xs"
proof -
  have "map the (takeWhile (\<lambda>x. x \<noteq> None) (map Some xs @ None # rest)) = xs" by (induction xs) simp_all
  with assms show ?thesis by (simp add: args_list_def)
qed

lemma u64_length: "n < 2 ^ 31 \<Longrightarrow> nat (u64 (int n)) = n"
  by (simp add: u64_def)

lemma grow_slots:
  assumes "args_ok a" "length (args_list a) < 2 ^ 31" "grow al a = Inr (av, cap)"
  shows "\<exists>y rest. av = map Some (args_list a) @ None # y # rest \<and> length av = cap \<and>
    START_AV_SZ \<le> cap"
proof (cases "newav a")
  case None
  with assms have "av = replicate 16 None" "cap = 16" by (simp_all add: grow_def START_AV_SZ_def split: if_splits)
  moreover have "args_list a = []" using None by (simp add: args_list_def)
  moreover have "replicate 16 None = None # None # replicate 14 None"
    by (simp add: numeral_eq_Suc)
  ultimately show ?thesis by (simp add: START_AV_SZ_def) blast
next
  case (Some v)
  obtain rest where v: "v = map Some (args_list a) @ None # rest" using args_slots [OF Some assms(1)] .
  have n: "nat (u64 (newac a)) = length (args_list a)" using assms(1,2) by (simp add: args_ok_def u64_length)
  have c: "length v = NEWAV_CAP a" "16 \<le> NEWAV_CAP a" using Some assms(1) by (simp_all add: args_ok_def START_AV_SZ_def)
  show ?thesis
  proof (cases "length (args_list a) \<ge> NEWAV_CAP a - 1")
    case True
    with assms(3) Some n have r: "av = v @ map (al_junk al) [NEWAV_CAP a ..< NEWAV_CAP a * 2]" "cap = NEWAV_CAP a * 2"
      by (auto simp: grow_def split: if_splits)
    have "map (al_junk al) [NEWAV_CAP a ..< NEWAV_CAP a * 2] \<noteq> []" using c by simp
    then obtain y ys where "rest @ map (al_junk al) [NEWAV_CAP a ..< NEWAV_CAP a * 2] = y # ys"
      by (cases rest; cases "map (al_junk al) [NEWAV_CAP a ..< NEWAV_CAP a * 2]") auto
    moreover have "length av = cap" using r c by simp
    ultimately show ?thesis using r v c by (auto simp: START_AV_SZ_def)
  next
    case False
    with assms(3) Some n have r: "av = v" "cap = NEWAV_CAP a" by (simp_all add: grow_def)
    with v c False obtain y ys where "rest = y # ys" by (cases rest) auto
    with r v c show ?thesis by (auto simp: START_AV_SZ_def)
  qed
qed

text \<open>The two stores of \<open>add_arg\<close> stay inside the array and keep it terminated.\<close>

lemma add_arg_stores:
  assumes ok: "args_ok a" and small: "length (args_list a) < 2 ^ 31 - 1"
    and g: "grow al a = Inr (av, cap)" and m: "al_malloc al" and s: "str \<noteq> []"
  shows "\<exists>a'. add_arg al (Some str) a = Inr a' \<and> args_ok a' \<and> args_list a' = args_list a @ [str]"
proof -
  obtain y rest where av: "av = map Some (args_list a) @ None # y # rest" "length av = cap" "START_AV_SZ \<le> cap"
    using grow_slots [OF ok _ g] small by auto
  let ?n = "length (args_list a)"
  let ?a = "\<lparr>newac = int (Suc ?n), newav = Some (map Some (args_list a @ [str]) @ None # rest), NEWAV_CAP = cap\<rparr>"
  have n: "newac a = int ?n" "nat (u64 (int ?n)) = ?n" "i32 (int ?n + 1) = int (Suc ?n)"
    using ok small by (auto simp: args_ok_def u64_length in_i32_def)
  have n': "nat (u64 (int (Suc ?n))) = Suc ?n" using small by (intro u64_length) simp
  have "(av[?n := Some str])[Suc ?n := None] = map Some (args_list a @ [str]) @ None # rest"
    by (simp add: av(1) list_update_append)
  moreover have "Suc ?n < length av" by (simp add: av(1))
  ultimately have "add_arg al (Some str) a = Inr ?a"
    using s g m n' by (simp add: add_arg_def store_def n Let_def)
  moreover have "args_list ?a = args_list a @ [str]" by (rule args_list_slots) simp
  moreover from this have "args_ok ?a" using av by (auto simp: args_ok_def)
  ultimately show ?thesis by blast
qed

definition good_alloc :: alloc where
  "good_alloc = \<lparr>al_calloc = True, al_realloc = True, al_malloc = True, al_junk = (\<lambda>_. None)\<rparr>"

lemma grow_fails:
  "grow al a = Inl e \<Longrightarrow> e = Alloc_fail ''malloc'' \<and> \<not> al_calloc al \<or> e = Alloc_fail ''realloc'' \<and> \<not> al_realloc al"
  by (auto simp: grow_def split: option.splits if_splits)

lemma add_arg_result:
  assumes "args_ok a" "length (args_list a) < 2 ^ 31 - 1"
  shows "(\<exists>a'. add_arg al s a = Inr a' \<and> args_ok a' \<and> args_list a' = args_list a @ nonempty s) \<or>
    (\<exists>w. add_arg al s a = Inl (Alloc_fail w)) \<and> \<not> (al_calloc al \<and> al_realloc al \<and> al_malloc al)"
proof (cases "nonempty s = []")
  case True
  then have "add_arg al s a = Inr a" by (auto simp: add_arg_def nonempty_def split: option.splits if_splits)
  with True assms show ?thesis by simp
next
  case False
  then obtain str where s: "s = Some str" "str \<noteq> []" "nonempty s = [str]"
    by (auto simp: nonempty_def split: option.splits if_splits)
  show ?thesis
  proof (cases "grow al a")
    case (Inl e)
    with s show ?thesis using grow_fails [OF Inl] by (auto simp: add_arg_def)
  next
    case (Inr p)
    obtain av cap where p: "p = (av, cap)" by (cases p)
    show ?thesis
    proof (cases "al_malloc al")
      case True
      with add_arg_stores [OF assms _ True s(2), of av cap] Inr p s show ?thesis by auto
    next
      case False
      with Inr p s show ?thesis by (simp add: add_arg_def)
    qed
  qed
qed

section \<open>The contract of an argument builder\<close>

text \<open>
  What the command-line code relies on: adding an argument appends it unless it is null or empty.
  A sequence of additions then appends the non-empty arguments in their order.
\<close>

locale arg_builder =
  fixes add :: "string option \<Rightarrow> 'a \<Rightarrow> 'e + 'a" and view :: "'a \<Rightarrow> string list" and inv :: "'a \<Rightarrow> bool"
    and room :: nat
  assumes add_appends: "inv a \<Longrightarrow> length (view a) < room \<Longrightarrow>
    \<exists>a'. add s a = Inr a' \<and> inv a' \<and> view a' = view a @ nonempty s"
begin

primrec add_all :: "string list \<Rightarrow> 'a \<Rightarrow> 'e + 'a" where
  "add_all [] a = Inr a"
| "add_all (s # ss) a = (case add (Some s) a of Inl e \<Rightarrow> Inl e | Inr a' \<Rightarrow> add_all ss a')"

lemma add_all_appends:
  "inv a \<Longrightarrow> length (view a) + length ss \<le> room \<Longrightarrow>
   \<exists>a'. add_all ss a = Inr a' \<and> inv a' \<and> view a' = view a @ filter (\<lambda>s. s \<noteq> []) ss"
proof (induction ss arbitrary: a)
  case Nil
  then show ?case by simp
next
  case (Cons s ss)
  then obtain a' where a: "add (Some s) a = Inr a'" "inv a'" "view a' = view a @ nonempty (Some s)"
    using add_appends [of a "Some s"] by auto
  moreover have "length (view a') + length ss \<le> room" using Cons.prems a by (simp add: nonempty_def)
  ultimately show ?case using Cons.IH [of a'] by (auto simp: nonempty_def)
qed

end

interpretation argv: arg_builder "add_arg good_alloc" args_list args_ok "2 ^ 31 - 1"
  using add_arg_result [of _ good_alloc]
  by unfold_locales (auto simp: good_alloc_def)

section \<open>What stripping does\<close>

text \<open>
  Stripping on the string alone: scanning stops at a letter that takes a parameter; a removed
  letter takes the scan past the letter behind it.
\<close>

fun strip_chars :: "char \<Rightarrow> string \<Rightarrow> string \<Rightarrow> string" where
  "strip_chars ch opts [] = []"
| "strip_chars ch opts [x] = (if \<not> takes_param opts x \<and> x = ch then [] else [x])"
| "strip_chars ch opts (x # y # s) =
     (if takes_param opts x then x # y # s
      else if x = ch then y # strip_chars ch opts s
      else x # strip_chars ch opts (y # s))"

definition stripped :: "char \<Rightarrow> string \<Rightarrow> string \<Rightarrow> string" where
  "stripped ch opts arg =
     (case arg of
        d # _ # _ \<Rightarrow> if d = CHR ''-'' then
            (let r = strip_chars ch opts arg in if length r = 1 then [] else r) else arg
      | _ \<Rightarrow> arg)"

fun scan_stops :: "char \<Rightarrow> string \<Rightarrow> string \<Rightarrow> bool" where
  "scan_stops ch opts [] = False"
| "scan_stops ch opts [x] = takes_param opts x"
| "scan_stops ch opts (x # y # s) =
     (takes_param opts x \<or> (if x = ch then scan_stops ch opts s else scan_stops ch opts (y # s)))"

lemma strip_chars_length: "length (strip_chars ch opts s) \<le> length s"
  by (induction ch opts s rule: strip_chars.induct) auto

lemma strip_chars_set: "set (strip_chars ch opts s) \<subseteq> set s"
  by (induction ch opts s rule: strip_chars.induct) auto

lemma memmove_left_removes:
  "memmove_left (pre @ x # s @ replicate (Suc m) NUL @ rest) (length pre) (length s + Suc m) =
    Some (pre @ s @ replicate (Suc (Suc m)) NUL @ rest)"
proof -
  have "drop (length s + Suc m) (x # s @ replicate (Suc m) NUL @ rest) =
      drop (length (x # s @ replicate m NUL)) ((x # s @ replicate m NUL) @ NUL # rest)"
    by (simp add: replicate_app_Cons_same)
  also have "\<dots> = NUL # rest" by (simp del: append_Cons)
  finally show ?thesis
    by (simp add: memmove_left_def replicate_app_Cons_same)
qed

lemma strip_loop_runs:
  "NUL \<notin> set s \<Longrightarrow>
   strip_loop ch opts (pre @ s @ replicate (Suc m) NUL @ rest) (length pre) (length s + m) =
   Some (pre @ strip_chars ch opts s @ replicate (Suc (m + (length s - length (strip_chars ch opts s)))) NUL @ rest,
         scan_stops ch opts s)"
proof (induction ch opts s arbitrary: pre m rule: strip_chars.induct)
  case (1 ch opts)
  then show ?case by (subst strip_loop.simps) (simp add: nth_append)
next
  case (2 ch opts x)
  have fin: "strip_loop ch opts (pre @ x # NUL # r) (Suc (length pre)) n = Some (pre @ x # NUL # r, False)" for pre x r n
    by (subst strip_loop.simps) (simp add: nth_append)
  show ?case
    using 2 memmove_left_removes [of pre x "[]" m rest] fin [of pre NUL] fin [of pre x]
    by (subst strip_loop.simps) (auto simp: nth_append)
next
  case (3 ch opts x y s)
  let ?tail = "replicate (Suc m) NUL @ rest"
  consider "takes_param opts x" | "\<not> takes_param opts x" "x = ch" | "\<not> takes_param opts x" "x \<noteq> ch" by blast
  then show ?case
  proof cases
    case 1
    with "3.prems" show ?thesis by (subst strip_loop.simps) (auto simp: nth_append)
  next
    case 2
    have "strip_loop ch opts (pre @ x # (y # s) @ ?tail) (length pre) (length (x # y # s) + m) =
        strip_loop ch opts ((pre @ [y]) @ s @ replicate (Suc (Suc m)) NUL @ rest) (length (pre @ [y])) (length s + Suc m)"
      using 2 "3.prems" memmove_left_removes [of pre x "y # s" m rest]
      by (subst strip_loop.simps) (auto simp: nth_append)
    with "3.IH"(1) [OF 2, of "pre @ [y]" "Suc m"] "3.prems" 2 strip_chars_length [of ch opts s]
    show ?thesis by (simp add: Suc_diff_le)
  next
    case 3
    have "strip_loop ch opts (pre @ x # (y # s) @ ?tail) (length pre) (length (x # y # s) + m) =
        strip_loop ch opts ((pre @ [x]) @ (y # s) @ ?tail) (length (pre @ [x])) (length (y # s) + m)"
      using 3 "3.prems" by (subst strip_loop.simps) (auto simp: nth_append)
    with "3.IH"(2) [OF 3, of "pre @ [x]" m] "3.prems" 3 show ?thesis by simp
  qed
qed

lemma strip_chars_two:
  assumes "strip_chars ch opts (x # y # s) = r"
  shows "r \<noteq> []" and "scan_stops ch opts (x # y # s) \<Longrightarrow> NUL \<notin> set (x # y # s) \<Longrightarrow> length r \<noteq> 1"
proof -
  have stop: "scan_stops ch opts u \<Longrightarrow> strip_chars ch opts u \<noteq> []" for u
    by (induction ch opts u rule: strip_chars.induct) (auto split: if_splits)
  show "r \<noteq> []" using assms by (auto split: if_splits)
  show "scan_stops ch opts (x # y # s) \<Longrightarrow> NUL \<notin> set (x # y # s) \<Longrightarrow> length r \<noteq> 1"
    using assms stop [of s] stop [of "y # s"] by (auto split: if_splits)
qed

lemma strip_arg_dashed:
  assumes "NUL \<notin> set (y # s)"
  shows "\<exists>buf. strip_arg (Some ((CHR ''-'' # y # s) @ NUL # rest)) ch (Some opts) = Some (Some buf) \<and>
    (\<exists>k. buf = stripped ch opts (CHR ''-'' # y # s) @ NUL # k @ rest \<and>
         length (stripped ch opts (CHR ''-'' # y # s)) + length k = length (y # s) + 1)"
proof -
  let ?arg = "CHR ''-'' # y # s" and ?r = "strip_chars ch opts (CHR ''-'' # y # s)"
  let ?k = "length ?arg - length ?r"
  have nul: "NUL \<notin> set ?arg" using assms by simp
  have run: "strip_loop ch opts (?arg @ NUL # rest) 0 (length ?arg) =
      Some (?r @ NUL # replicate ?k NUL @ rest, scan_stops ch opts ?arg)"
    using strip_loop_runs [OF nul, of ch opts "[]" 0 rest] by simp
  have len: "length ?r \<le> length ?arg" by (rule strip_chars_length)
  have ct: "length (c_text (?arg @ NUL # rest)) = length ?arg"
    by (subst c_text_append [OF nul]) (rule refl)
  have y: "y \<noteq> NUL" using assms by auto
  have s: "strip_arg (Some (?arg @ NUL # rest)) ch (Some opts) =
      Some (Some (if \<not> scan_stops ch opts ?arg \<and> (?r @ NUL # replicate ?k NUL @ rest) ! 1 = NUL
        then (?r @ NUL # replicate ?k NUL @ rest)[0 := NUL] else ?r @ NUL # replicate ?k NUL @ rest))"
    using y run ct by (simp add: strip_arg_def split: bool.split)
  obtain x u where r: "?r = x # u" using strip_chars_two(1) [of ch opts "CHR ''-''" y s] by (cases ?r) auto
  show ?thesis
  proof (cases "u = []")
    case True
    then have "\<not> scan_stops ch opts ?arg" using strip_chars_two(2) [of ch opts "CHR ''-''" y s, OF _ _ nul] r by auto
    with True s r have "strip_arg (Some (?arg @ NUL # rest)) ch (Some opts) = Some (Some (NUL # NUL # replicate ?k NUL @ rest))"
      by simp
    moreover have "stripped ch opts ?arg = []" using r True by (simp add: stripped_def)
    ultimately show ?thesis using r True by (auto intro!: exI [of _ "NUL # replicate ?k NUL"])
  next
    case False
    then obtain z v where u: "u = z # v" by (cases u) auto
    have "z \<noteq> NUL" using strip_chars_set [of ch opts ?arg] nul r u by auto
    with s r u have "strip_arg (Some (?arg @ NUL # rest)) ch (Some opts) = Some (Some (?r @ NUL # replicate ?k NUL @ rest))"
      by simp
    moreover have "stripped ch opts ?arg = ?r" using r u by (simp add: stripped_def)
    ultimately show ?thesis using len by (intro exI [of _ "?r @ NUL # replicate ?k NUL @ rest"] conjI exI [of _ "replicate ?k NUL"]) simp_all
  qed
qed

lemma strip_arg_refined:
  assumes "NUL \<notin> set arg"
  shows "\<exists>buf. strip_arg (Some (arg @ NUL # rest)) ch (Some opts) = Some (Some buf) \<and>
    c_text buf = stripped ch opts arg \<and> length buf = length arg + 1 + length rest \<and>
    drop (length arg + 1) buf = rest"
proof -
  have "(\<exists>y s. arg = CHR ''-'' # y # s) \<or>
    strip_arg (Some (arg @ NUL # rest)) ch (Some opts) = Some (Some (arg @ NUL # rest)) \<and> stripped ch opts arg = arg"
    by (cases arg; cases "tl arg") (auto simp: strip_arg_def stripped_def)
  then show ?thesis
  proof (elim disjE exE conjE)
    fix y s
    assume arg: "arg = CHR ''-'' # y # s"
    then have nul: "NUL \<notin> set (y # s)" using assms by auto
    obtain buf k where b: "strip_arg (Some (arg @ NUL # rest)) ch (Some opts) = Some (Some buf)"
      "buf = stripped ch opts arg @ NUL # k @ rest" "length (stripped ch opts arg) + length k = length (y # s) + 1"
      using strip_arg_dashed [OF nul, of rest ch opts] arg by blast
    have "NUL \<notin> set (stripped ch opts arg)"
      using strip_chars_set [of ch opts arg] assms arg by (auto simp: stripped_def Let_def split: if_splits)
    then have "c_text buf = stripped ch opts arg" unfolding b(2) by (rule c_text_append)
    moreover have "drop (length arg + 1) buf = rest" using b(2,3) arg by (simp add: drop_Cons')
    moreover have "length buf = length arg + 1 + length rest" using b(2,3) arg by simp
    ultimately show ?thesis using b(1) by blast
  next
    assume "strip_arg (Some (arg @ NUL # rest)) ch (Some opts) = Some (Some (arg @ NUL # rest))" "stripped ch opts arg = arg"
    with assms show ?thesis by (auto simp: c_text_append)
  qed
qed

section \<open>Claims\<close>

text \<open>C25: The argument array refines a list: whatever the allocator does, adding an argument either
  ends the program because an allocation failed, or leaves a null-terminated array that holds the
  previous arguments followed by the new one (null and empty arguments are ignored); the array is
  grown in time, so no store ever falls outside it.\<close>

theorem add_arg_appends:
  assumes "args_ok a" "length (args_list a) < 2 ^ 31 - 1"
  shows "(\<exists>a'. add_arg al s a = Inr a' \<and> args_ok a' \<and> args_list a' = args_list a @ nonempty s) \<or>
    (\<exists>w. add_arg al s a = Inl (Alloc_fail w)) \<and> \<not> (al_calloc al \<and> al_realloc al \<and> al_malloc al)"
  using assms by (rule add_arg_result)

theorem add_arg_appends_witness:
  "args_ok initial_args \<and>
   (\<exists>a'. add_arg good_alloc (Some ''-N'') initial_args = Inr a' \<and> args_list a' = [''-N''])"
  using add_arg_appends [of initial_args good_alloc "Some ''-N''"]
  by (simp add: args_ok_def initial_args_def args_list_def good_alloc_def nonempty_def START_AV_SZ_def) blast

text \<open>C26: Stripping an option letter in place is memory safe and refines its description on
  strings: it reads and writes nothing beyond the terminator of the argument, whatever follows it
  in memory, and leaves the scanned string there. (The comment on the function says that the move
  may read one byte past the end of the argument on the last turn; the count of bytes to move goes
  down with the scan, so it does not.)\<close>

theorem strip_arg_refines:
  assumes "NUL \<notin> set arg"
  shows "\<exists>buf. strip_arg (Some (arg @ NUL # rest)) ch (Some opts) = Some (Some buf) \<and>
    c_text buf = stripped ch opts arg \<and> length buf = length arg + 1 + length rest \<and>
    drop (length arg + 1) buf = rest"
  using assms by (rule strip_arg_refined)

theorem strip_arg_refines_witness:
  "\<exists>buf. strip_arg (Some (''-fN'' @ NUL # ''next'')) (CHR ''f'') (Some ''M:fL:N'') = Some (Some buf) \<and> c_text buf = ''-N''"
proof -
  have "stripped (CHR ''f'') ''M:fL:N'' ''-fN'' = ''-N''" by code_simp
  with strip_arg_refines [of "''-fN''" "''next''" "CHR ''f''" "''M:fL:N''"] show ?thesis by auto
qed

text \<open>A removed letter hides the letter behind it from the scan: of a doubled letter one stays,
  and a parameter behind the removed letter is scanned as if it were flags, so a forwarding
  specification loses a letter.\<close>

lemma strip_arg_skips_letter:
  "stripped (CHR ''f'') ''M:fR:'' ''-ff'' = ''-f'' \<and>
   stripped (CHR ''f'') ''M:fR:'' ''-fR8080:front:80'' = ''-R8080:ront:80'' \<and>
   (\<exists>buf. strip_arg (Some (''-fR8080:front:80'' @ [NUL])) (CHR ''f'') (Some ''M:fR:'') = Some (Some buf) \<and>
     c_text buf = ''-R8080:ront:80'')"
proof -
  have s: "stripped (CHR ''f'') ''M:fR:'' ''-ff'' = ''-f''" by code_simp
  have r: "stripped (CHR ''f'') ''M:fR:'' ''-fR8080:front:80'' = ''-R8080:ront:80''" by code_simp
  have e: "strip_arg (Some (''-fR8080:front:80'' @ [NUL])) (CHR ''f'') (Some ''M:fR:'') =
      Some (Some (''-R8080:ront:80'' @ [NUL, NUL, NUL]))" by code_simp
  show ?thesis using s r unfolding e by (simp add: c_text_def)
qed

end
