(* ===== verification/Main_Logic.thy ===== *)
theory Main_Logic
  imports Env Run Args
begin

text \<open>
  \<^verbatim>\<open>src/main_logic.rs\<close> (the entry point up to the start loop and after it), \<^verbatim>\<open>usage\<close> of
  \<^verbatim>\<open>src/util.rs\<close> and \<^verbatim>\<open>src/main.rs\<close>.

  The command line is memory: a list of buffers, each with its terminator, because the code cuts
  the monitor port at its colon and strips option letters in place while \<^verbatim>\<open>writep\<close> still points
  into an argument. \<^verbatim>\<open>getopt\<close> is a parameter: for an argument vector it gives the options it
  returns one by one (with the position of \<^verbatim>\<open>optarg\<close> as buffer and offset), the final \<^verbatim>\<open>optind\<close>
  and the permuted vector. Opening and writing the pid file and \<^verbatim>\<open>daemon\<close> are parameters too; a
  failure carries its errno.
\<close>

section \<open>The environment of a start\<close>

type_synonym loc = "nat \<times> nat"

record starter = host +
  getopt :: "string list \<Rightarrow> (char \<times> loc option) list \<times> int \<times> string list"
  daemon :: "int option"
  fopen_write :: "string \<Rightarrow> int option"
  pid_write :: "int option"
  mem :: "nat \<Rightarrow> alloc"

definition OPTION_STRING :: string where
  "OPTION_STRING = ''M:V1246ab:c:e:fgi:kl:m:no:p:qstvw:xyACD:E:F:GI:MJKL:NO:PQ:R:S:TW:XYB:''"

definition VER :: string where "VER = ''1.5.3''"

definition progname :: "os \<Rightarrow> string" where
  "progname os = (case os_progname os of None \<Rightarrow> ''autossh'' | Some p \<Rightarrow> p)"

section \<open>Usage\<close>

definition nl :: string where "nl = [CHR 0x0A]"

definition usage_header :: "os \<Rightarrow> string" where
  "usage_header os = ''usage: '' @ (case os_progname os of None \<Rightarrow> ''autossh'' | Some p \<Rightarrow> to_string_lossy os p)
     @ '' [-V] [-M monitor_port[:echo_port]] [-f] [SSH_OPTIONS]'' @ nl"

definition usage_options :: "string list" where
  "usage_options =
     [nl,
      ''    -M specifies monitor port. May be overridden by environment'' @ nl
      @ ''       variable AUTOSSH_PORT. 0 turns monitoring loop off.'' @ nl
      @ ''       Alternatively, a port for an echo service on the remote'' @ nl
      @ ''       machine may be specified. (Normally port 7.)'' @ nl,
      ''    -f run in background (autossh handles this, and does not'' @ nl
      @ ''       pass it to ssh.)'' @ nl,
      ''    -V print autossh version and exit.'' @ nl,
      nl]"

definition usage_variables :: "string list" where
  "usage_variables =
     [''Environment variables are:'' @ nl,
      ''    AUTOSSH_GATETIME    - how long must an ssh session be established'' @ nl
      @ ''                        before we decide it really was established'' @ nl
      @ ''                        (in seconds). Default is 30 seconds; use of -f'' @ nl
      @ ''                        flag sets this to 0.'' @ nl,
      ''    AUTOSSH_LOGFILE     - file to log to (default is to use the syslog'' @ nl
      @ ''                        facility)'' @ nl,
      ''    AUTOSSH_LOGLEVEL    - level of log verbosity'' @ nl,
      ''    AUTOSSH_MAXLIFETIME - set the maximum time to live (seconds)'' @ nl,
      ''    AUTOSSH_MAXSTART    - max times to restart (default is no limit)'' @ nl,
      ''    AUTOSSH_MAX_SESSION - max seconds SSH may be silent on stderr (or stuck'' @ nl
      @ ''                        after stderr pipe loss) before being considered'' @ nl
      @ ''                        stuck and killed. 0 = no watchdog (default).'' @ nl
      @ ''                        Recommended with -M 0.'' @ nl,
      ''    AUTOSSH_MESSAGE     - message to append to echo string (max 64 bytes)'' @ nl,
      ''    AUTOSSH_PATH        - path to ssh if not default'' @ nl,
      ''    AUTOSSH_PIDFILE     - write pid to this file'' @ nl,
      ''    AUTOSSH_POLL        - how often to check the connection (seconds)'' @ nl,
      ''    AUTOSSH_FIRST_POLL  - time before first connection check (seconds)'' @ nl,
      ''    AUTOSSH_PORT        - port to use for monitor connection'' @ nl,
      ''    AUTOSSH_DEBUG       - turn logging to maximum verbosity and log to'' @ nl
      @ ''                        stderr'' @ nl,
      nl]"

definition usage :: "os \<Rightarrow> int \<Rightarrow> (proc, 'a) prog" where
  "usage os code s =
     (Exit code,
      if code \<noteq> 0 then s\<lparr>trace := trace s @ map WriteStderr (usage_header os # usage_options @ usage_variables)\<rparr>
      else emit (Stdout (usage_header os)) s)"

section \<open>Options\<close>

text \<open>The string that a position points to.\<close>

definition at_loc :: "string list \<Rightarrow> loc \<Rightarrow> string" where
  "at_loc argv l = (if fst l < length argv then c_text (drop (snd l) (argv ! fst l)) else [])"

text \<open>
  The loop over the options: \<^verbatim>\<open>writep\<close> as a position (none while it is null), and whether to run
  as a daemon.
\<close>

fun opt_loop :: "os \<Rightarrow> (char \<times> loc option) list \<Rightarrow> loc option \<Rightarrow> bool \<Rightarrow> (proc, loc option \<times> bool) prog" where
  "opt_loop os [] w d s = (Return (w, d), s)"
| "opt_loop os ((ch, arg) # rest) w d s =
     (if ch = CHR ''M'' then opt_loop os rest (if env_port s = None then arg else w) d s
      else if ch = CHR ''V'' then (Exit 0, emit (Stdout (progname os @ '' '' @ VER @ nl)) s)
      else if ch = CHR ''f'' then opt_loop os rest w True s
      else if ch = CHR ''?'' then usage os 1 s
      else opt_loop os rest w d s)"

text \<open>Where the monitor port is: in the environment, or in an argument.\<close>

definition port_text :: "string list \<Rightarrow> loc option \<Rightarrow> proc \<Rightarrow> cstr" where
  "port_text argv w s = (case env_port s of Some p \<Rightarrow> Some p | None \<Rightarrow> map_option (at_loc argv) w)"

definition open_syslog :: "proc \<Rightarrow> proc" where
  "open_syslog s = (if has_flag (logtype s) L_SYSLOG then emit (Openlog (1 OR syslog_perror s)) s else s)"

section \<open>Ports\<close>

text \<open>
  The colon in the port: the text before it, the text behind it. \<open>cut_argv\<close> is the terminator
  written over the colon when the port is an argument.
\<close>

definition split_port :: "string \<Rightarrow> string \<times> cstr" where
  "split_port p = (takeWhile (\<lambda>c. c \<noteq> CHR '':'') p, map_option (drop 1) (strchr p (CHR '':'')))"

definition cut_argv :: "string list \<Rightarrow> loc option \<Rightarrow> proc \<Rightarrow> string \<Rightarrow> string list" where
  "cut_argv argv w s p =
     (case (env_port s, w, strchr p (CHR '':'')) of
        (None, Some (i, off), Some _) \<Rightarrow>
          argv[i := (argv ! i)[off + length (fst (split_port p)) := NUL]]
      | _ \<Rightarrow> argv)"

definition set_echo :: "os \<Rightarrow> cstr \<Rightarrow> (proc, int) prog" where
  "set_echo os echo s =
     (case echo of
        None \<Rightarrow> (Return 0, s)
      | Some e \<Rightarrow>
          let (v, t) = strtoul 0 e; ep = u32 v; s = s\<lparr>echop := Some e\<rparr> in
          if e = [] \<or> t \<noteq> [] \<or> ep = 0 then xerrlog os LOG_ERR (quoted ''invalid echo port '' e) s
          else (Return ep, s))"

definition set_mhost :: "'z host_scheme \<Rightarrow> proc \<Rightarrow> proc" where
  "set_mhost h s =
     (case getenv h ''AUTOSSH_MHOST'' of None \<Rightarrow> s | Some m \<Rightarrow> if m \<noteq> [] then s\<lparr>mhost := m\<rparr> else s)"

definition FWD_BUF :: nat where "FWD_BUF = 256"

text \<open>\<^verbatim>\<open>snprintf\<close> into a forwarding buffer: what ends up in it, and whether the code sees an overflow.\<close>

definition forward_text :: "int \<Rightarrow> string \<Rightarrow> int \<Rightarrow> string" where
  "forward_text a host b = show_int a @ '':'' @ host @ '':'' @ show_int b"

definition snprintf_fwd :: "os \<Rightarrow> string \<Rightarrow> (proc, string) prog" where
  "snprintf_fwd os x s =
     (if length x > FWD_BUF then xerrlog os LOG_ERR ''overflow building forwarding string'' s
      else (Return (take (FWD_BUF - 1) x), s))"

text \<open>The monitor ports: the write port and the two forwarding strings.\<close>

definition set_forwards :: "os \<Rightarrow> int \<Rightarrow> int \<Rightarrow> (proc, string \<times> string) prog" where
  "set_forwards os wp ep s0 =
     (let rp = wp + 1; s = s0\<lparr>readp := show_int rp\<rparr>;
          echo_port = (if echop s \<noteq> None then i32 ep else wp)
      in bind_p (snprintf_fwd os (forward_text wp (mhost s) echo_port)) (\<lambda>wm s.
           if echop s = None
           then bind_p (snprintf_fwd os (forward_text wp (mhost s) rp)) (\<lambda>rm. return_p (wm, rm)) s
           else (Return (wm, []), s)) s)"

definition set_ports :: "os \<Rightarrow> string \<Rightarrow> int \<Rightarrow> (proc, int \<times> string \<times> string) prog" where
  "set_ports os p ep s0 =
     (let (v, t) = strtoul 0 p; wp = i32 v; s = s0\<lparr>writep := Some p\<rparr> in
      if p = [] \<or> t \<noteq> [] then xerrlog os LOG_ERR (quoted ''invalid port'' p) s
      else if wp = 0 then
        (Return (0, [], []), (errlog os LOG_INFO ''port set to 0, monitoring disabled'' s)\<lparr>writep := None\<rparr>)
      else if wp > 65534 \<or> wp < 0 then
        xerrlog os LOG_ERR (''monitor port ('' @ show_int wp @ '') out of range'') s
      else bind_p (set_forwards os wp ep) (\<lambda>f. return_p (wp, f)) s)"

definition set_net_timeout :: "os \<Rightarrow> proc \<Rightarrow> proc" where
  "set_net_timeout os s =
     (let half = tdiv (i32 (poll_time s * 1000)) 2 in
      if half < net_timeout s
      then errlog os LOG_INFO (''short poll time: adjusting net timeouts to '' @ show_int half) (s\<lparr>net_timeout := half\<rparr>)
      else s)"

section \<open>The arguments for ssh\<close>

text \<open>Byte \<open>k\<close> of an argument. Beyond the terminator the value is of no consequence: the code looks
  at the next byte only after an ordinary one, except for the second byte of an empty argument, which
  it reads and does not use.\<close>

definition byte :: "string \<Rightarrow> nat \<Rightarrow> char" where
  "byte buf k = (if k < length buf then buf ! k else NUL)"

text \<open>
  The state of the loop: the command line in memory and the vector that is built. A failed
  allocation prints a line and exits with status 1.
\<close>

record builder =
  argv_mem :: "string list"
  vec :: args
  sawargstop :: bool
  done_fwds :: bool

definition add :: "(nat \<Rightarrow> alloc) \<Rightarrow> string \<Rightarrow> builder \<Rightarrow> arg_error + builder" where
  "add al x b =
     (case add_arg (al (nat (newac (vec b)))) (Some x) (vec b) of
        Inl e \<Rightarrow> Inl e
      | Inr v \<Rightarrow> Inr (b\<lparr>vec := v\<rparr>))"

definition and_then :: "('e + 'a) \<Rightarrow> ('a \<Rightarrow> 'e + 'b) \<Rightarrow> 'e + 'b" where
  "and_then m f = (case m of Inl e \<Rightarrow> Inl e | Inr a \<Rightarrow> f a)"

definition add_fwds :: "(nat \<Rightarrow> alloc) \<Rightarrow> bool \<Rightarrow> string \<Rightarrow> string \<Rightarrow> builder \<Rightarrow> arg_error + builder" where
  "add_fwds al echo wm rm b =
     and_then (add al ''-L'' b) (\<lambda>b. and_then (add al wm b) (\<lambda>b.
       if echo then Inr (b\<lparr>done_fwds := True\<rparr>)
       else and_then (add al ''-R'' b) (\<lambda>b. and_then (add al rm b) (\<lambda>b. Inr (b\<lparr>done_fwds := True\<rparr>)))))"

text \<open>\<open>strip_arg\<close> on an argument in place, then \<open>add_arg\<close> of what is left.\<close>

definition pass_arg :: "(nat \<Rightarrow> alloc) \<Rightarrow> nat \<Rightarrow> builder \<Rightarrow> arg_error + builder" where
  "pass_arg al i b =
     (case strip_arg (Some (argv_mem b ! i)) (CHR ''f'') (Some OPTION_STRING) of
        Some (Some buf) \<Rightarrow> add al (c_text buf) (b\<lparr>argv_mem := (argv_mem b)[i := buf]\<rparr>)
      | _ \<Rightarrow> Inl Out_of_bounds)"

text \<open>One turn of the loop at position \<open>i\<close>: the builder and the next position. \<open>wp\<close>, \<open>env\<close> and
  \<open>echo\<close> are the port, whether it came from the environment and whether there is an echo port.\<close>

definition argv_step ::
  "(nat \<Rightarrow> alloc) \<Rightarrow> int \<Rightarrow> bool \<Rightarrow> bool \<Rightarrow> string \<Rightarrow> string \<Rightarrow> nat \<Rightarrow> builder \<Rightarrow> arg_error + nat \<times> builder" where
  "argv_step al wp env echo wm rm i b =
     (let buf = argv_mem b ! i; b0 = byte buf 0; b1 = byte buf 1 in
      if b0 = CHR ''-'' \<and> b1 = CHR ''-'' \<and> \<not> sawargstop b then Inr (i + 1, b\<lparr>sawargstop := True\<rparr>)
      else if wp \<noteq> 0 \<and> env \<and> \<not> done_fwds b then
        and_then (add_fwds al echo wm rm b) (\<lambda>b. and_then (pass_arg al i b) (\<lambda>b. Inr (i + 1, b)))
      else if \<not> sawargstop b \<and> b0 = CHR ''-'' \<and> b1 = CHR ''M'' then
        (let next = (if byte buf 2 = NUL then i + 2 else i + 1) in
         if wp \<noteq> 0 \<and> \<not> done_fwds b then and_then (add_fwds al echo wm rm b) (\<lambda>b. Inr (next, b))
         else Inr (next, b))
      else and_then (pass_arg al i b) (\<lambda>b. Inr (i + 1, b)))"

lemma argv_step_next: "argv_step al wp env echo wm rm i b = Inr (j, b') \<Longrightarrow> i < j"
  by (auto simp: argv_step_def and_then_def Let_def split: if_splits sum.splits)

function argv_loop ::
  "(nat \<Rightarrow> alloc) \<Rightarrow> int \<Rightarrow> bool \<Rightarrow> bool \<Rightarrow> string \<Rightarrow> string \<Rightarrow> nat \<Rightarrow> nat \<Rightarrow> builder \<Rightarrow> arg_error + builder" where
  "argv_loop al wp env echo wm rm argc i b =
     (if i < argc then
        (case argv_step al wp env echo wm rm i b of
           Inl e \<Rightarrow> Inl e
         | Inr (j, b') \<Rightarrow> argv_loop al wp env echo wm rm argc j b')
      else Inr b)"
  by pat_completeness auto
termination
  by (relation "measure (\<lambda>(_, _, _, _, _, _, argc, i, _). argc - i)") (auto dest: argv_step_next)

declare argv_loop.simps [simp del]

definition build_argv ::
  "(nat \<Rightarrow> alloc) \<Rightarrow> int \<Rightarrow> bool \<Rightarrow> bool \<Rightarrow> string \<Rightarrow> string \<Rightarrow> string list \<Rightarrow> string \<Rightarrow> arg_error + builder" where
  "build_argv al wp env echo wm rm argv ssh =
     and_then (add al ssh \<lparr>argv_mem = argv, vec = initial_args, sawargstop = False, done_fwds = False\<rparr>)
       (argv_loop al wp env echo wm rm (length argv) 1)"

section \<open>Daemon, socket and pid file\<close>

definition alloc_fail :: "os \<Rightarrow> string \<Rightarrow> (proc, 'a) prog" where
  "alloc_fail os what s =
     (Exit 1, emit (WriteStderr (''autossh: '' @ what @ '': '' @ to_string_lossy os (os_strerror os (os_errno os (n_net s))) @ nl)) s)"

definition go_daemon :: "'z starter_scheme \<Rightarrow> os \<Rightarrow> bool \<Rightarrow> (proc, unit) prog" where
  "go_daemon h os d s =
     (if d then
        (case daemon h of
           Some e \<Rightarrow> xerrlog os LOG_ERR (''run as daemon failed: '' @ errno_str os e) (emit Daemon s)
         | None \<Rightarrow> (Return (), (emit Daemon s)\<lparr>gate_time := 0\<rparr>))
      else (Return (), s))"

definition open_monitor :: "os \<Rightarrow> (proc, int) prog" where
  "open_monitor os s =
     (if writep s \<noteq> None then
        (if echop s = None then conn_listen os (mhost s) (readp s) s else (Return NO_RD_SOCK, s))
      else (Return (-1), s))"

definition write_pid_file :: "'z starter_scheme \<Rightarrow> os \<Rightarrow> (proc, unit) prog" where
  "write_pid_file h os s =
     (case pid_file_name s of
        None \<Rightarrow> (Return (), s)
      | Some f \<Rightarrow>
          (case fopen_write h f of
             Some e \<Rightarrow> xerrlog os LOG_ERR (''cannot open pid file \"'' @ cstr_or (Some f) [] @ ''\": '' @ errno_str os e) s
           | None \<Rightarrow>
               let s = s\<lparr>pid_file_created := 1\<rparr> in
               (case pid_write h of
                  Some e \<Rightarrow> xerrlog os LOG_ERR (''write failed to pid file \"'' @ cstr_or (Some f) [] @ ''\": '' @ errno_str os e) s
                | None \<Rightarrow> (Return (), emit (WriteFile f (show_int (i32 (os_pid os)) @ nl)) s))))"

section \<open>The program\<close>

text \<open>Everything before the start loop: the socket and the argument vector.\<close>

definition main_argv ::
  "'z starter_scheme \<Rightarrow> os \<Rightarrow> string list \<Rightarrow> loc option \<Rightarrow> int \<Rightarrow> string \<Rightarrow> string \<Rightarrow> (proc, args) prog" where
  "main_argv h os argv w wp wm rm s =
     (case build_argv (mem h) wp (env_port s \<noteq> None) (echop s \<noteq> None) wm rm argv (ssh_path s) of
        Inl (Alloc_fail what) \<Rightarrow> alloc_fail os what s
      | Inl Out_of_bounds \<Rightarrow> (Killed 11, s)
      | Inr b \<Rightarrow>
          (Return (vec b),
           case (env_port s, writep s, w) of
             (None, Some _, Some l) \<Rightarrow> s\<lparr>writep := Some (at_loc (argv_mem b) l)\<rparr>
           | _ \<Rightarrow> s))"

definition main_ports ::
  "'z starter_scheme \<Rightarrow> os \<Rightarrow> string list \<Rightarrow> loc option \<Rightarrow> string \<Rightarrow> (proc, args) prog" where
  "main_ports h os argv w p s =
     bind_p (set_echo os (snd (split_port p))) (\<lambda>ep.
       then_p (modify_p (set_mhost h))
         (bind_p (set_ports os (fst (split_port p)) ep) (\<lambda>(wp, wm, rm).
           then_p (modify_p (set_net_timeout os))
             (main_argv h os (cut_argv argv w s p) w wp wm rm)))) s"

definition main_options :: "'z starter_scheme \<Rightarrow> os \<Rightarrow> string list \<Rightarrow> (proc, args \<times> bool) prog" where
  "main_options h os argv =
     (let (opts, optind, argv') = getopt h argv in
      bind_p (opt_loop os opts None False) (\<lambda>(w, d) s.
        case port_text argv' w s of
          None \<Rightarrow> usage os 1 s
        | Some p \<Rightarrow>
            if int (length argv) = optind then usage os 1 s
            else bind_p (main_ports h os argv' w p) (\<lambda>a. return_p (a, d)) (open_syslog s)))"

definition main_setup :: "'z starter_scheme \<Rightarrow> os \<Rightarrow> string list \<Rightarrow> (proc, args \<times> int) prog" where
  "main_setup h os argv =
     then_p (get_env_args h os)
       (bind_p (main_options h os argv) (\<lambda>(a, d).
          then_p (go_daemon h os d)
            (bind_p (open_monitor os) (\<lambda>sock.
              then_p (write_pid_file h os) (return_p (a, sock))))))"

definition main_finish :: "int \<Rightarrow> proc \<Rightarrow> proc" where
  "main_finish sock s =
     (let s = (if sock \<ge> 0 then shut sock s else s)
      in if has_flag (logtype s) L_SYSLOG then emit Closelog s else s)"

definition autossh_main :: "'z starter_scheme \<Rightarrow> os \<Rightarrow> string list \<Rightarrow> proc \<Rightarrow> (int flow \<times> proc) option" where
  "autossh_main h os argv s0 =
     (case main_setup h os argv s0 of
        (Return (a, sock), s) \<Rightarrow>
          (case ssh_run os sock s of
             None \<Rightarrow> None
           | Some (Return v, s) \<Rightarrow> Some (Return (if v = P_EXITERR then 1 else 0), main_finish sock s)
           | Some (Exit c, s) \<Rightarrow> Some (Exit c, s)
           | Some (Killed g, s) \<Rightarrow> Some (Killed g, s)
           | Some (Longjmp g, s) \<Rightarrow> Some (Longjmp g, s))
      | (Exit c, s) \<Rightarrow> Some (Exit c, s)
      | (Killed g, s) \<Rightarrow> Some (Killed g, s)
      | (Longjmp g, s) \<Rightarrow> Some (Longjmp g, s))"

text \<open>
  \<^verbatim>\<open>main\<close>: the arguments become buffers, and \<^verbatim>\<open>process::exit\<close> runs the cleanup that
  \<^verbatim>\<open>autossh_main\<close> registered when it wrote the pid file.
\<close>

definition main :: "'z starter_scheme \<Rightarrow> os \<Rightarrow> string list \<Rightarrow> proc \<Rightarrow> (int flow \<times> proc) option" where
  "main h os args s0 =
     (case autossh_main h os (map (\<lambda>a. a @ [NUL]) args) s0 of
        Some (Return rc, s) \<Rightarrow> Some (Exit rc, if pid_file_name s = None then s else unlink_pid_file s)
      | r \<Rightarrow> r)"

end
