(* ===== verification/Command_Line.thy ===== *)
theory Command_Line
  imports Main_Logic
begin

text \<open>
  What \<^verbatim>\<open>src/main_logic.rs\<close> makes of its command line: the loop that builds the argument vector for
  ssh, in memory and with an allocator, refines a function on lists of strings.
\<close>

section \<open>The specification\<close>

text \<open>
  The arguments ssh gets, from the arguments behind the program name: the first argument that starts
  with two dashes is dropped; the forwardings go where \<^verbatim>\<open>-M\<close> stands, or in front when the port
  comes from the environment; the rest is passed with the letter \<^verbatim>\<open>f\<close> stripped.
\<close>

function ssh_argv :: "bool \<Rightarrow> bool \<Rightarrow> string list \<Rightarrow> bool \<Rightarrow> bool \<Rightarrow> string list \<Rightarrow> string list" where
  "ssh_argv mon env fw stop dn [] = []"
| "ssh_argv mon env fw stop dn (a # as) =
     (if prefix ''--'' a \<and> \<not> stop then ssh_argv mon env fw True dn as
      else if mon \<and> env \<and> \<not> dn then
        fw @ stripped (CHR ''f'') OPTION_STRING a # ssh_argv mon env fw stop True as
      else if \<not> stop \<and> prefix ''-M'' a then
        (if mon \<and> \<not> dn then fw else []) @
        ssh_argv mon env fw stop (dn \<or> mon) (if a = ''-M'' then drop 1 as else as)
      else stripped (CHR ''f'') OPTION_STRING a # ssh_argv mon env fw stop dn as)"
  by pat_completeness auto
termination by (relation "measure (\<lambda>(_, _, _, _, _, as). length as)") auto

definition fwd_args :: "bool \<Rightarrow> string \<Rightarrow> string \<Rightarrow> string list" where
  "fwd_args echo wm rm = [''-L'', wm] @ (if echo then [] else [''-R'', rm])"

section \<open>Terminated buffers\<close>

definition terminated :: "string \<Rightarrow> bool" where
  "terminated buf \<longleftrightarrow> NUL \<in> set buf"

lemma terminated_split:
  assumes "terminated buf"
  obtains rest where "buf = c_text buf @ NUL # rest" "NUL \<notin> set (c_text buf)"
proof -
  have "dropWhile (\<lambda>c. c \<noteq> NUL) buf \<noteq> []" using assms by (auto simp: terminated_def)
  then obtain x rest where d: "dropWhile (\<lambda>c. c \<noteq> NUL) buf = x # rest" by (cases "dropWhile (\<lambda>c. c \<noteq> NUL) buf") auto
  then have "x = NUL" by (metis (mono_tags) dropWhile_eq_Cons_conv)
  with d have "buf = c_text buf @ NUL # rest" by (metis c_text_def takeWhile_dropWhile_id)
  moreover have "NUL \<notin> set (c_text buf)" by (auto simp: c_text_def dest: set_takeWhileD)
  ultimately show ?thesis by (rule that)
qed

lemma byte_terminated:
  assumes "terminated buf"
  shows "k < length (c_text buf) \<Longrightarrow> byte buf k = c_text buf ! k"
    and "k = length (c_text buf) \<Longrightarrow> byte buf k = NUL"
proof -
  obtain x rest where x: "c_text buf = x" "buf = x @ NUL # rest" using terminated_split [OF assms] by metis
  show "k < length (c_text buf) \<Longrightarrow> byte buf k = c_text buf ! k"
    unfolding x(1) unfolding x(2) by (simp add: byte_def nth_append)
  show "k = length (c_text buf) \<Longrightarrow> byte buf k = NUL"
    unfolding x(1) unfolding x(2) by (simp add: byte_def nth_append)
qed

lemma prefix_two: "prefix [x, y] s \<longleftrightarrow> 2 \<le> length s \<and> s ! 0 = x \<and> s ! 1 = y"
  by (cases s; cases "tl s") auto

lemma byte_prefix:
  assumes t: "terminated buf" and "x \<noteq> NUL" "y \<noteq> NUL"
  shows "byte buf 0 = x \<and> byte buf 1 = y \<longleftrightarrow> prefix [x, y] (c_text buf)"
proof -
  consider "length (c_text buf) = 0" | "length (c_text buf) = 1" | "2 \<le> length (c_text buf)" by linarith
  then show ?thesis
  proof cases
    case 1
    then show ?thesis using byte_terminated(2) [OF t, of 0] assms by (auto simp: prefix_two)
  next
    case 2
    then show ?thesis using byte_terminated(2) [OF t, of 1] assms by (auto simp: prefix_two)
  next
    case 3
    then have "byte buf 0 = c_text buf ! 0" "byte buf 1 = c_text buf ! 1"
      by (auto intro!: byte_terminated(1) [OF t])
    with 3 show ?thesis by (simp add: prefix_two)
  qed
qed

lemma dashes:
  assumes "terminated buf"
  shows "byte buf 0 = CHR ''-'' \<and> byte buf 1 = CHR ''-'' \<longleftrightarrow> prefix ''--'' (c_text buf)"
    and "byte buf 0 = CHR ''-'' \<and> byte buf 1 = CHR ''M'' \<longleftrightarrow> prefix ''-M'' (c_text buf)"
  by (rule byte_prefix [OF assms]; simp)+

lemma byte_third:
  assumes t: "terminated buf" and p: "prefix [x, y] (c_text buf)"
  shows "byte buf 2 = NUL \<longleftrightarrow> c_text buf = [x, y]"
proof -
  obtain r where c: "c_text buf = x # y # r" using p by (auto simp: prefix_def)
  have n: "NUL \<notin> set (c_text buf)" using terminated_split [OF t] by metis
  show ?thesis
  proof (cases r)
    case Nil
    then show ?thesis using byte_terminated(2) [OF t, of 2] c by simp
  next
    case (Cons z q)
    then show ?thesis using byte_terminated(1) [OF t, of 2] c n by auto
  qed
qed

lemma pass_arg_strips:
  assumes "terminated (argv_mem b ! i)"
  obtains buf where
    "pass_arg al i b = add al (stripped (CHR ''f'') OPTION_STRING (c_text (argv_mem b ! i))) (b\<lparr>argv_mem := (argv_mem b)[i := buf]\<rparr>)"
proof -
  obtain rest where r: "argv_mem b ! i = c_text (argv_mem b ! i) @ NUL # rest" "NUL \<notin> set (c_text (argv_mem b ! i))"
    using terminated_split [OF assms] .
  obtain buf where s: "strip_arg (Some (c_text (argv_mem b ! i) @ NUL # rest)) (CHR ''f'') (Some OPTION_STRING) = Some (Some buf)"
    "c_text buf = stripped (CHR ''f'') OPTION_STRING (c_text (argv_mem b ! i))"
    using strip_arg_refined [OF r(2), of rest "CHR ''f''" OPTION_STRING] by blast
  have "strip_arg (Some (argv_mem b ! i)) (CHR ''f'') (Some OPTION_STRING) = Some (Some buf)"
    using s(1) r(1) by metis
  with s(2) that show ?thesis by (simp add: pass_arg_def)
qed

section \<open>Building with a working allocator\<close>

definition room :: "nat \<Rightarrow> builder \<Rightarrow> bool" where
  "room n b \<longleftrightarrow> args_ok (vec b) \<and> length (args_list (vec b)) + n < 2 ^ 31 - 1"

definition present :: "string list \<Rightarrow> string list" where
  "present xs = filter (\<lambda>s. s \<noteq> []) xs"

lemma present_simps [simp]:
  "present [] = []" "present (xs @ ys) = present xs @ present ys"
  "present (x # xs) = (if x = [] then present xs else x # present xs)"
  by (simp_all add: present_def)

lemma present_length: "length (present xs) \<le> length xs"
  by (simp add: present_def)

lemma nth_drop_cong:
  assumes "drop j xs = drop j ys" "j \<le> k" "k < length xs" "k < length ys"
  shows "xs ! k = ys ! k"
proof -
  have "xs ! k = drop j xs ! (k - j)" using assms(2,3) by simp
  also have "\<dots> = ys ! k" unfolding assms(1) using assms(2,4) by simp
  finally show ?thesis .
qed

text \<open>\<open>grows b xs b'\<close>: the vector of \<open>b'\<close> is that of \<open>b\<close> with the non-empty \<open>xs\<close> appended.\<close>

definition grows :: "builder \<Rightarrow> string list \<Rightarrow> builder \<Rightarrow> bool" where
  "grows b xs b' \<longleftrightarrow> args_ok (vec b') \<and> args_list (vec b') = args_list (vec b) @ present xs"

lemma grows_room: "room (n + m) b \<Longrightarrow> grows b xs b' \<Longrightarrow> length xs \<le> m \<Longrightarrow> room n b'"
  using present_length [of xs] by (auto simp: room_def grows_def)

lemma grows_trans: "grows b xs b' \<Longrightarrow> grows b' ys b'' \<Longrightarrow> grows b (xs @ ys) b''"
  by (simp add: grows_def)

lemma grows_same: "grows b xs b' \<Longrightarrow> vec c = vec b \<Longrightarrow> vec c' = vec b' \<Longrightarrow> grows c xs c'"
  by (simp add: grows_def)

lemma grows_none: "args_ok (vec b) \<Longrightarrow> grows b [] b"
  by (simp add: grows_def)

locale working_memory =
  fixes al :: "nat \<Rightarrow> alloc"
  assumes works: "al_calloc (al n)" "al_realloc (al n)" "al_malloc (al n)"
begin

lemma add_grows:
  assumes "room 0 b"
  shows "\<exists>v. add al x b = Inr (b\<lparr>vec := v\<rparr>) \<and> grows b [x] (b\<lparr>vec := v\<rparr>)"
proof -
  have "args_ok (vec b)" "length (args_list (vec b)) < 2 ^ 31 - 1" using assms by (simp_all add: room_def)
  from add_arg_result [OF this, of "al (nat (newac (vec b)))" "Some x"] works show ?thesis
    by (auto simp: add_def grows_def nonempty_def)
qed

text \<open>A run of additions, through the contract of the vector.\<close>

definition put :: "string option \<Rightarrow> builder \<Rightarrow> arg_error + builder" where
  "put s b = (case s of None \<Rightarrow> Inr b | Some x \<Rightarrow> add al x b)"

lemma put_frame:
  "put s b = Inr b' \<Longrightarrow> argv_mem b' = argv_mem b \<and> sawargstop b' = sawargstop b \<and> done_fwds b' = done_fwds b"
  by (auto simp: put_def add_def split: option.splits sum.splits)

end

sublocale working_memory \<subseteq> vecs: arg_builder put "\<lambda>b. args_list (vec b)" "\<lambda>b. args_ok (vec b)" "2 ^ 31 - 1"
proof
  fix b :: builder and s
  assume "args_ok (vec b)" "length (args_list (vec b)) < 2 ^ 31 - 1"
  then have "room 0 b" by (simp add: room_def)
  then show "\<exists>b'. put s b = Inr b' \<and> args_ok (vec b') \<and> args_list (vec b') = args_list (vec b) @ nonempty s"
    using add_grows [of b "the s"] \<open>args_ok (vec b)\<close>
    by (cases s) (auto simp: put_def grows_def nonempty_def)
qed

context working_memory
begin

lemma put_all_frame:
  "vecs.add_all xs b = Inr b' \<Longrightarrow> argv_mem b' = argv_mem b \<and> sawargstop b' = sawargstop b \<and> done_fwds b' = done_fwds b"
proof (induction xs arbitrary: b)
  case (Cons x xs)
  then show ?case using put_frame [of "Some x" b] by (auto split: sum.splits)
qed simp

lemma add_fwds_puts:
  "add_fwds al echo wm rm b = and_then (vecs.add_all (fwd_args echo wm rm) b) (\<lambda>b. Inr (b\<lparr>done_fwds := True\<rparr>))"
  by (auto simp: add_fwds_def fwd_args_def and_then_def put_def split: sum.split)

lemma add_fwds_grows:
  assumes "room 4 b"
  shows "\<exists>v. add_fwds al echo wm rm b = Inr (b\<lparr>vec := v, done_fwds := True\<rparr>) \<and>
    grows b (fwd_args echo wm rm) (b\<lparr>vec := v, done_fwds := True\<rparr>)"
proof -
  have "length (fwd_args echo wm rm) \<le> 4" by (simp add: fwd_args_def)
  with assms have "args_ok (vec b)" "length (args_list (vec b)) + length (fwd_args echo wm rm) \<le> 2 ^ 31 - 1"
    by (simp_all add: room_def)
  from vecs.add_all_appends [OF this] obtain b' where b: "vecs.add_all (fwd_args echo wm rm) b = Inr b'"
    "args_ok (vec b')" "args_list (vec b') = args_list (vec b) @ filter (\<lambda>s. s \<noteq> []) (fwd_args echo wm rm)" by blast
  then have "b'\<lparr>done_fwds := True\<rparr> = b\<lparr>vec := vec b', done_fwds := True\<rparr>" using put_all_frame [OF b(1)] by simp
  with b show ?thesis by (auto simp: add_fwds_puts and_then_def grows_def present_def intro!: exI [of _ "vec b'"])
qed

lemma pass_arg_grows:
  assumes "room 0 b" "terminated (argv_mem b ! i)"
  shows "\<exists>v buf. pass_arg al i b = Inr (b\<lparr>argv_mem := (argv_mem b)[i := buf], vec := v\<rparr>) \<and>
    grows b [stripped (CHR ''f'') OPTION_STRING (c_text (argv_mem b ! i))]
      (b\<lparr>argv_mem := (argv_mem b)[i := buf], vec := v\<rparr>)"
proof -
  let ?x = "stripped (CHR ''f'') OPTION_STRING (c_text (argv_mem b ! i))"
  obtain buf where p: "pass_arg al i b = add al ?x (b\<lparr>argv_mem := (argv_mem b)[i := buf]\<rparr>)"
    using pass_arg_strips [OF assms(2)] by metis
  have "room 0 (b\<lparr>argv_mem := (argv_mem b)[i := buf]\<rparr>)" using assms(1) by (simp add: room_def)
  from add_grows [OF this, of ?x] obtain v where
    "pass_arg al i b = Inr (b\<lparr>argv_mem := (argv_mem b)[i := buf], vec := v\<rparr>)"
    "grows b [?x] (b\<lparr>argv_mem := (argv_mem b)[i := buf], vec := v\<rparr>)"
    using p by (auto simp: grows_def)
  then show ?thesis by blast
qed

text \<open>One turn of the loop: where it goes on, and the arguments it adds.\<close>

definition turn :: "int \<Rightarrow> bool \<Rightarrow> string list \<Rightarrow> nat \<Rightarrow> builder \<Rightarrow> nat \<Rightarrow> string list \<Rightarrow> builder \<Rightarrow> bool" where
  "turn wp env fw i b j xs b' \<longleftrightarrow>
     i < j \<and> grows b xs b' \<and> length xs \<le> 5 \<and> length (argv_mem b') = length (argv_mem b) \<and>
     drop j (argv_mem b') = drop j (argv_mem b) \<and>
     ssh_argv (wp \<noteq> 0) env fw (sawargstop b) (done_fwds b) (map c_text (drop i (argv_mem b))) =
       xs @ ssh_argv (wp \<noteq> 0) env fw (sawargstop b') (done_fwds b') (map c_text (drop j (argv_mem b)))"

lemma turn_head: "i < length (argv_mem b) \<Longrightarrow> drop i (argv_mem b) = argv_mem b ! i # drop (Suc i) (argv_mem b)"
  by (rule Cons_nth_drop_Suc [symmetric])

lemma fwd_args_length: "length (fwd_args echo wm rm) \<le> 4"
  by (simp add: fwd_args_def)

lemma step_env:
  assumes i: "i < length (argv_mem b)" and r: "room 5 b" and t: "terminated (argv_mem b ! i)"
    and c: "\<not> (prefix ''--'' (c_text (argv_mem b ! i)) \<and> \<not> sawargstop b)" "wp \<noteq> 0 \<and> env \<and> \<not> done_fwds b"
  shows "\<exists>j xs b'. argv_step al wp env echo wm rm i b = Inr (j, b') \<and> turn wp env (fwd_args echo wm rm) i b j xs b'"
proof -
  let ?fw = "fwd_args echo wm rm" and ?s = "stripped (CHR ''f'') OPTION_STRING (c_text (argv_mem b ! i))"
  have "room 4 b" using r by (simp add: room_def)
  then obtain v where v: "add_fwds al echo wm rm b = Inr (b\<lparr>vec := v, done_fwds := True\<rparr>)"
    "grows b ?fw (b\<lparr>vec := v, done_fwds := True\<rparr>)" using add_fwds_grows by blast
  let ?b = "b\<lparr>vec := v, done_fwds := True\<rparr>"
  have "room 1 ?b" using grows_room [of 1 4 b ?fw ?b] r v(2) fwd_args_length by simp
  then have "room 0 ?b" by (simp add: room_def)
  then obtain u buf where p: "pass_arg al i ?b = Inr (?b\<lparr>argv_mem := (argv_mem b)[i := buf], vec := u\<rparr>)"
    "grows ?b [?s] (?b\<lparr>argv_mem := (argv_mem b)[i := buf], vec := u\<rparr>)"
    using pass_arg_grows [of ?b i] t by auto
  let ?c = "?b\<lparr>argv_mem := (argv_mem b)[i := buf], vec := u\<rparr>"
  have "argv_step al wp env echo wm rm i b = Inr (Suc i, ?c)"
    using c dashes(1) [OF t] v(1) p(1) by (auto simp: argv_step_def Let_def and_then_def)
  moreover have "turn wp env ?fw i b (Suc i) (?fw @ [?s]) ?c"
    using c turn_head [OF i] grows_trans [OF v(2) p(2)] fwd_args_length [of echo wm rm] by (auto simp: turn_def)
  ultimately show ?thesis by blast
qed

lemma step_port:
  assumes i: "i < length (argv_mem b)" and r: "room 5 b" and t: "terminated (argv_mem b ! i)"
    and c: "\<not> (wp \<noteq> 0 \<and> env \<and> \<not> done_fwds b)" "\<not> sawargstop b" "prefix ''-M'' (c_text (argv_mem b ! i))"
  shows "\<exists>j xs b'. argv_step al wp env echo wm rm i b = Inr (j, b') \<and> turn wp env (fwd_args echo wm rm) i b j xs b'"
proof -
  let ?fw = "fwd_args echo wm rm" and ?a = "c_text (argv_mem b ! i)"
  let ?j = "if ?a = ''-M'' then i + 2 else i + 1"
  have nd: "\<not> prefix ''--'' ?a" using c(3) by (auto simp: prefix_def)
  have third: "byte (argv_mem b ! i) 2 = NUL \<longleftrightarrow> ?a = ''-M''" by (rule byte_third [OF t c(3)])
  have dj: "map c_text (drop ?j (argv_mem b)) =
      (if ?a = ''-M'' then drop 1 (map c_text (drop (Suc i) (argv_mem b))) else map c_text (drop (Suc i) (argv_mem b)))"
    by (simp add: drop_map)
  show ?thesis
  proof (cases "wp \<noteq> 0 \<and> \<not> done_fwds b")
    case True
    have "room 4 b" using r by (simp add: room_def)
    then obtain v where v: "add_fwds al echo wm rm b = Inr (b\<lparr>vec := v, done_fwds := True\<rparr>)"
      "grows b ?fw (b\<lparr>vec := v, done_fwds := True\<rparr>)" using add_fwds_grows by blast
    have "argv_step al wp env echo wm rm i b = Inr (?j, b\<lparr>vec := v, done_fwds := True\<rparr>)"
      using c nd True dashes [OF t] third v(1) by (auto simp: argv_step_def Let_def and_then_def)
    moreover have "turn wp env ?fw i b ?j ?fw (b\<lparr>vec := v, done_fwds := True\<rparr>)"
      using c nd True turn_head [OF i] dj v(2) fwd_args_length [of echo wm rm] by (auto simp: turn_def)
    ultimately show ?thesis by blast
  next
    case False
    have "argv_step al wp env echo wm rm i b = Inr (?j, b)"
      using c nd False dashes [OF t] third by (auto simp: argv_step_def Let_def)
    moreover have "turn wp env ?fw i b ?j [] b"
      using c nd False turn_head [OF i] dj r by (auto simp: turn_def grows_def room_def)
    ultimately show ?thesis by blast
  qed
qed

lemma step_plain:
  assumes i: "i < length (argv_mem b)" and r: "room 5 b" and t: "terminated (argv_mem b ! i)"
    and c: "\<not> (prefix ''--'' (c_text (argv_mem b ! i)) \<and> \<not> sawargstop b)" "\<not> (wp \<noteq> 0 \<and> env \<and> \<not> done_fwds b)"
      "\<not> (\<not> sawargstop b \<and> prefix ''-M'' (c_text (argv_mem b ! i)))"
  shows "\<exists>j xs b'. argv_step al wp env echo wm rm i b = Inr (j, b') \<and> turn wp env (fwd_args echo wm rm) i b j xs b'"
proof -
  let ?s = "stripped (CHR ''f'') OPTION_STRING (c_text (argv_mem b ! i))"
  have "room 0 b" using r by (simp add: room_def)
  then obtain u buf where p: "pass_arg al i b = Inr (b\<lparr>argv_mem := (argv_mem b)[i := buf], vec := u\<rparr>)"
    "grows b [?s] (b\<lparr>argv_mem := (argv_mem b)[i := buf], vec := u\<rparr>)"
    using pass_arg_grows [OF _ t] by blast
  have "argv_step al wp env echo wm rm i b = Inr (Suc i, b\<lparr>argv_mem := (argv_mem b)[i := buf], vec := u\<rparr>)"
    using c dashes [OF t] p(1) by (auto simp: argv_step_def Let_def and_then_def)
  moreover have "turn wp env (fwd_args echo wm rm) i b (Suc i) [?s] (b\<lparr>argv_mem := (argv_mem b)[i := buf], vec := u\<rparr>)"
    using c turn_head [OF i] p(2) by (auto simp: turn_def)
  ultimately show ?thesis by blast
qed

lemma argv_step_turn:
  assumes i: "i < length (argv_mem b)" and r: "room 5 b" and t: "terminated (argv_mem b ! i)"
  shows "\<exists>j xs b'. argv_step al wp env echo wm rm i b = Inr (j, b') \<and> turn wp env (fwd_args echo wm rm) i b j xs b'"
proof (cases "prefix ''--'' (c_text (argv_mem b ! i)) \<and> \<not> sawargstop b")
  case True
  then have "argv_step al wp env echo wm rm i b = Inr (Suc i, b\<lparr>sawargstop := True\<rparr>)"
    using dashes(1) [OF t] by (simp add: argv_step_def Let_def)
  moreover have "turn wp env (fwd_args echo wm rm) i b (Suc i) [] (b\<lparr>sawargstop := True\<rparr>)"
    using True r turn_head [OF i] by (simp add: turn_def grows_def room_def)
  ultimately show ?thesis by blast
next
  case F: False
  show ?thesis
  proof (cases "wp \<noteq> 0 \<and> env \<and> \<not> done_fwds b")
    case True
    show ?thesis by (rule step_env [OF assms F True])
  next
    case E: False
    show ?thesis
    proof (cases "\<not> sawargstop b \<and> prefix ''-M'' (c_text (argv_mem b ! i))")
      case True
      then show ?thesis by (intro step_port [OF assms E]) simp_all
    next
      case False
      show ?thesis by (rule step_plain [OF assms F E False])
    qed
  qed
qed

text \<open>What a turn leaves for the turns after it.\<close>

lemma room_step:
  assumes "room (5 * (n - i)) b" "i < j" "i < n" "grows b xs b1" "length xs \<le> 5"
  shows "room (5 * (n - j)) b1"
proof (rule grows_room [OF _ assms(4,5)])
  have "5 * (n - j) + 5 \<le> 5 * (n - i)" using assms(2,3) by simp
  then show "room (5 * (n - j) + 5) b" using assms(1) by (auto simp: room_def)
qed

lemma argv_loop_refines:
  assumes "room (5 * (n - i)) b" "n = length (argv_mem b)" "\<And>k. i \<le> k \<Longrightarrow> k < n \<Longrightarrow> terminated (argv_mem b ! k)"
  shows "\<exists>b'. argv_loop al wp env echo wm rm n i b = Inr b' \<and>
    grows b (ssh_argv (wp \<noteq> 0) env (fwd_args echo wm rm) (sawargstop b) (done_fwds b) (map c_text (drop i (argv_mem b)))) b'"
  using assms
proof (induction "n - i" arbitrary: i b rule: less_induct)
  case less
  show ?case
  proof (cases "i < n")
    case False
    with less.prems show ?thesis by (subst argv_loop.simps) (simp add: grows_def room_def)
  next
    case True
    have r5: "room 5 b" using less.prems(1) True by (auto simp: room_def)
    obtain j xs b1 where s: "argv_step al wp env echo wm rm i b = Inr (j, b1)"
      and tn: "turn wp env (fwd_args echo wm rm) i b j xs b1"
      using argv_step_turn [OF _ r5 less.prems(3)] True less.prems(2) by blast
    have j: "i < j" and g: "grows b xs b1" "length xs \<le> 5" and l: "length (argv_mem b1) = n"
      and dr: "drop j (argv_mem b1) = drop j (argv_mem b)" using tn less.prems(2) by (auto simp: turn_def)
    have eq: "ssh_argv (wp \<noteq> 0) env (fwd_args echo wm rm) (sawargstop b) (done_fwds b) (map c_text (drop i (argv_mem b))) =
       xs @ ssh_argv (wp \<noteq> 0) env (fwd_args echo wm rm) (sawargstop b1) (done_fwds b1) (map c_text (drop j (argv_mem b)))"
      using tn unfolding turn_def by blast
    have rm': "room (5 * (n - j)) b1" by (rule room_step [OF less.prems(1) j True g])
    have tm: "terminated (argv_mem b1 ! k)" if "j \<le> k" "k < n" for k
      using less.prems(3) [of k] nth_drop_cong [OF dr, of k] that j l less.prems(2) by simp
    have "n - j < n - i" using j True by simp
    from less.hyps [OF this rm' l [symmetric] tm] obtain b' where b': "argv_loop al wp env echo wm rm n j b1 = Inr b'"
      "grows b1 (ssh_argv (wp \<noteq> 0) env (fwd_args echo wm rm) (sawargstop b1) (done_fwds b1) (map c_text (drop j (argv_mem b1)))) b'"
      by blast
    have "argv_loop al wp env echo wm rm n i b = Inr b'"
      using True s b'(1) by (subst argv_loop.simps) simp
    moreover have "grows b (ssh_argv (wp \<noteq> 0) env (fwd_args echo wm rm) (sawargstop b) (done_fwds b) (map c_text (drop i (argv_mem b)))) b'"
      using grows_trans [OF g(1) b'(2)] unfolding dr eq .
    ultimately show ?thesis by blast
  qed
qed

end

interpretation sound_alloc: working_memory "\<lambda>_. good_alloc"
  by unfold_locales (simp_all add: good_alloc_def)

lemma build_argv_refines:
  assumes "working_memory al" "\<And>buf. buf \<in> set argv \<Longrightarrow> terminated buf" "length argv < 2 ^ 28"
  shows "\<exists>b. build_argv al wp env echo wm rm argv ssh = Inr b \<and> args_ok (vec b) \<and>
    args_list (vec b) = present (ssh # ssh_argv (wp \<noteq> 0) env (fwd_args echo wm rm) False False (map c_text (drop 1 argv)))"
proof -
  let ?b0 = "\<lparr>argv_mem = argv, vec = initial_args, sawargstop = False, done_fwds = False\<rparr>"
  have init: "args_ok initial_args" "args_list initial_args = []"
    by (simp_all add: args_ok_def initial_args_def args_list_def START_AV_SZ_def)
  then have "room (5 * length argv + 1) ?b0" using assms(3) by (simp add: room_def)
  then have r0: "room (5 * length argv + 1) ?b0" "room 0 ?b0" by (simp_all add: room_def)
  obtain v where v: "add al ssh ?b0 = Inr (?b0\<lparr>vec := v\<rparr>)" "grows ?b0 [ssh] (?b0\<lparr>vec := v\<rparr>)"
    using working_memory.add_grows [OF assms(1) r0(2)] by blast
  have "room (5 * length argv) (?b0\<lparr>vec := v\<rparr>)" using grows_room [OF r0(1) v(2)] by simp
  then have r1: "room (5 * (length argv - 1)) (?b0\<lparr>vec := v\<rparr>)" by (auto simp: room_def)
  obtain b where b: "argv_loop al wp env echo wm rm (length argv) 1 (?b0\<lparr>vec := v\<rparr>) = Inr b"
    "grows (?b0\<lparr>vec := v\<rparr>) (ssh_argv (wp \<noteq> 0) env (fwd_args echo wm rm) False False (map c_text (drop 1 argv))) b"
    using working_memory.argv_loop_refines [OF assms(1) r1, of wp env echo wm rm] assms(2) by auto
  from grows_trans [OF v(2) b(2)] v(1) b(1) init show ?thesis
    by (auto simp: build_argv_def and_then_def grows_def)
qed

section \<open>Claims\<close>

text \<open>C21: The argument vector for ssh is the one the specification gives: with an allocator that does
  not fail and terminated arguments, the loop over the command line, working in place on memory
  and on the growing array, leaves a null-terminated vector that starts with the path of ssh and
  goes on with the forwardings and the stripped arguments in their order; every write
  stays inside the argument or the array it is meant for. (For an empty argument the code reads one
  byte behind the terminator, which the model takes to be NUL, as \<open>byte\<close> says.)\<close>

theorem ssh_command_line:
  assumes "\<And>n. al_calloc (al n) \<and> al_realloc (al n) \<and> al_malloc (al n)"
    and "\<And>buf. buf \<in> set argv \<Longrightarrow> terminated buf" "length argv < 2 ^ 28"
  shows "\<exists>b. build_argv al wp env echo wm rm argv ssh = Inr b \<and> args_ok (vec b) \<and>
    args_list (vec b) = filter (\<lambda>s. s \<noteq> [])
      (ssh # ssh_argv (wp \<noteq> 0) env (fwd_args echo wm rm) False False (map c_text (drop 1 argv)))"
proof -
  have "working_memory al" using assms(1) by unfold_locales simp_all
  from build_argv_refines [OF this assms(2,3)] show ?thesis by (simp only: present_def)
qed

theorem ssh_command_line_witness:
  "\<exists>b. build_argv (\<lambda>_. good_alloc) 20000 False False ''20000:h:20000'' ''20000:h:20001''
      (map (\<lambda>a. a @ [NUL]) [''autossh'', ''-M'', ''20000'', ''-f'', ''-N'', ''host'']) ''/usr/bin/ssh'' = Inr b \<and>
    args_list (vec b) = [''/usr/bin/ssh'', ''-L'', ''20000:h:20000'', ''-R'', ''20000:h:20001'', ''-N'', ''host'']"
proof -
  let ?argv = "map (\<lambda>a. a @ [NUL]) [''autossh'', ''-M'', ''20000'', ''-f'', ''-N'', ''host'']"
  have c: "map c_text (drop 1 ?argv) = [''-M'', ''20000'', ''-f'', ''-N'', ''host'']" by (simp add: c_text_def)
  have s: "stripped (CHR ''f'') OPTION_STRING ''-f'' = []" "stripped (CHR ''f'') OPTION_STRING ''-N'' = ''-N''"
    "stripped (CHR ''f'') OPTION_STRING ''host'' = ''host''" by code_simp+
  have e: "ssh_argv ((20000 :: int) \<noteq> 0) False (fwd_args False ''20000:h:20000'' ''20000:h:20001'') False False
      [''-M'', ''20000'', ''-f'', ''-N'', ''host''] =
      [''-L'', ''20000:h:20000'', ''-R'', ''20000:h:20001'', [], ''-N'', ''host'']"
    by (simp add: s fwd_args_def)
  have g: "al_calloc good_alloc \<and> al_realloc good_alloc \<and> al_malloc good_alloc" by (simp add: good_alloc_def)
  have t: "terminated buf" if "buf \<in> set ?argv" for buf using that by (auto simp: terminated_def)
  have l: "length ?argv < 2 ^ 28" by simp
  obtain b where b: "build_argv (\<lambda>_. good_alloc) 20000 False False ''20000:h:20000'' ''20000:h:20001'' ?argv ''/usr/bin/ssh'' = Inr b"
    "args_list (vec b) = filter (\<lambda>s. s \<noteq> []) (''/usr/bin/ssh'' #
       ssh_argv ((20000 :: int) \<noteq> 0) False (fwd_args False ''20000:h:20000'' ''20000:h:20001'') False False (map c_text (drop 1 ?argv)))"
    using ssh_command_line [of "\<lambda>_. good_alloc" ?argv, OF g t l] by metis
  from b(2) have "args_list (vec b) = [''/usr/bin/ssh'', ''-L'', ''20000:h:20000'', ''-R'', ''20000:h:20001'', ''-N'', ''host'']"
    unfolding c e by simp
  with b(1) show ?thesis by blast
qed

text \<open>Two command lines on which the port option reaches ssh: a port option behind the daemon
  letter in one argument is neither recognised nor removed, and no forwarding is set up; with the
  port in the environment and a port option in front, the option and its value are passed on.\<close>

lemma port_option_reaches_ssh:
  "(\<exists>b. build_argv (\<lambda>_. good_alloc) 20000 False False wm rm
      (map (\<lambda>a. a @ [NUL]) [''autossh'', ''-fM'', ''20000'', ''host'']) ''ssh'' = Inr b \<and>
      args_list (vec b) = [''ssh'', ''-M'', ''20000'', ''host'']) \<and>
   (\<exists>b. build_argv (\<lambda>_. good_alloc) 20000 True True ''20000:h:7'' rm
      (map (\<lambda>a. a @ [NUL]) [''autossh'', ''-M'', ''0'', ''host'']) ''ssh'' = Inr b \<and>
      args_list (vec b) = [''ssh'', ''-L'', ''20000:h:7'', ''-M'', ''0'', ''host''])"
proof -
  let ?a1 = "map (\<lambda>a. a @ [NUL]) [''autossh'', ''-fM'', ''20000'', ''host'']"
    and ?a2 = "map (\<lambda>a. a @ [NUL]) [''autossh'', ''-M'', ''0'', ''host'']"
  have s: "stripped (CHR ''f'') OPTION_STRING ''-fM'' = ''-M''" "stripped (CHR ''f'') OPTION_STRING ''20000'' = ''20000''"
    "stripped (CHR ''f'') OPTION_STRING ''host'' = ''host''" "stripped (CHR ''f'') OPTION_STRING ''-M'' = ''-M''"
    "stripped (CHR ''f'') OPTION_STRING ''0'' = ''0''" by code_simp+
  have c: "map c_text (drop 1 ?a1) = [''-fM'', ''20000'', ''host'']" "map c_text (drop 1 ?a2) = [''-M'', ''0'', ''host'']"
    by (simp_all add: c_text_def)
  have t: "terminated buf" if "buf \<in> set ?a1" for buf using that by (auto simp: terminated_def)
  have t': "terminated buf" if "buf \<in> set ?a2" for buf using that by (auto simp: terminated_def)
  have l: "length ?a1 < 2 ^ 28" "length ?a2 < 2 ^ 28" by simp_all
  have e: "ssh_argv ((20000 :: int) \<noteq> 0) False (fwd_args False wm rm) False False [''-fM'', ''20000'', ''host''] =
      [''-M'', ''20000'', ''host'']"
    "ssh_argv ((20000 :: int) \<noteq> 0) True (fwd_args True ''20000:h:7'' rm) False False [''-M'', ''0'', ''host''] =
      [''-L'', ''20000:h:7'', ''-M'', ''0'', ''host'']"
    by (simp_all add: s fwd_args_def)
  note r = build_argv_refines [OF sound_alloc.working_memory_axioms]
  from r [OF t l(1), of 20000 False False wm rm "''ssh''", unfolded c e]
  have 1: "\<exists>b. build_argv (\<lambda>_. good_alloc) 20000 False False wm rm ?a1 ''ssh'' = Inr b \<and>
      args_list (vec b) = [''ssh'', ''-M'', ''20000'', ''host'']" by auto
  from r [OF t' l(2), of 20000 True True "''20000:h:7''" rm "''ssh''", unfolded c e]
  have 2: "\<exists>b. build_argv (\<lambda>_. good_alloc) 20000 True True ''20000:h:7'' rm ?a2 ''ssh'' = Inr b \<and>
      args_list (vec b) = [''ssh'', ''-L'', ''20000:h:7'', ''-M'', ''0'', ''host'']" by auto
  from 1 2 show ?thesis by blast
qed

end
