(* ===== verification/Reaping.thy ===== *)
theory Reaping
  imports Run
begin

text \<open>
  No signal to a process that is gone. Once a child has been collected by \<^verbatim>\<open>waitpid\<close> the kernel may
  give its number to any other process. \<^verbatim>\<open>src/wait.rs\<close> collects the child and leaves \<^verbatim>\<open>cchild\<close> as it
  is; \<^verbatim>\<open>src/kill.rs\<close> signals whatever \<^verbatim>\<open>cchild\<close> names. That the two never meet is a property of the
  order in which \<^verbatim>\<open>src/watch.rs\<close> and \<^verbatim>\<open>src/run.rs\<close> call them, shown here for the trace of a whole run.
\<close>

section \<open>The children of a trace\<close>

text \<open>
  A replay of a trace: the answers of \<^verbatim>\<open>waitpid\<close> so far, the children forked and not yet collected,
  and whether every signal so far went to one of them.
\<close>

record ledger =
  answered :: nat
  alive :: "int set"
  sound :: bool

fun account :: "os \<Rightarrow> ledger \<Rightarrow> effect \<Rightarrow> ledger" where
  "account os l (Fork p) = l\<lparr>alive := insert p (alive l)\<rparr>"
| "account os l (Kill p g) = l\<lparr>sound := (sound l \<and> p \<in> alive l)\<rparr>"
| "account os l (Waitpid p opts) =
     l\<lparr>answered := Suc (answered l),
       alive := (if ending_of (os_waitpid os (answered l)) = Running then alive l else alive l - {p})\<rparr>"
| "account os l _ = l"

definition ledger_of :: "os \<Rightarrow> effect list \<Rightarrow> ledger" where
  "ledger_of os t = foldl (account os) \<lparr>answered = 0, alive = {}, sound = True\<rparr> t"

lemma ledger_snoc [simp]: "ledger_of os (t @ [e]) = account os (ledger_of os t) e"
  by (simp add: ledger_of_def)

lemma ledger_skip: "(\<And>e l. e \<in> set u \<Longrightarrow> account os l e = l) \<Longrightarrow> ledger_of os (t @ u) = ledger_of os t"
  by (induction u rule: rev_induct) (simp_all flip: append_assoc)

lemma ledger_log [simp]: "ledger_of os (log_trace os' level m s) = ledger_of os (trace s)"
  unfolding log_trace_def
  by (rule ledger_skip) (auto simp: log_effects_def split: if_splits option.splits)

text \<open>The books are right: every \<^verbatim>\<open>waitpid\<close> is accounted for and every signal found its child. They
  are open while the child that \<^verbatim>\<open>cchild\<close> names, if any, has not been collected.\<close>

definition books :: "os \<Rightarrow> proc \<Rightarrow> bool" where
  "books os s \<longleftrightarrow> sound (ledger_of os (trace s)) \<and> answered (ledger_of os (trace s)) = n_waitpid s"

definition open_books :: "os \<Rightarrow> proc \<Rightarrow> bool" where
  "open_books os s \<longleftrightarrow> books os s \<and> (cchild s \<noteq> 0 \<longrightarrow> cchild s \<in> alive (ledger_of os (trace s)))"

lemma open_books_books: "open_books os s \<Longrightarrow> books os s"
  by (simp add: open_books_def)

text \<open>What neither of them looks at.\<close>

definition entry :: "os \<Rightarrow> proc \<Rightarrow> ledger \<times> nat \<times> int" where
  "entry os s = (ledger_of os (trace s), n_waitpid s, cchild s)"

lemma entry_errlog [simp]: "entry os (errlog os' l m s) = entry os s"
  by (simp add: entry_def errlog_upd)

lemma entry_emit [simp]: "(\<And>l. account os l e = l) \<Longrightarrow> entry os (emit e s) = entry os s"
  by (simp add: entry_def emit_def)

lemma entry_upd [simp]:
  "entry os (s\<lparr>sigmask := a\<rparr>) = entry os s" "entry os (s\<lparr>dolongjmp := i\<rparr>) = entry os s"
  "entry os (s\<lparr>ssh_stderr_fd := i\<rparr>) = entry os s" "entry os (s\<lparr>n_wait := n\<rparr>) = entry os s"
  "entry os (s\<lparr>SECS_LEFT := i\<rparr>) = entry os s" "entry os (s\<lparr>n_alarm := n\<rparr>) = entry os s"
  "entry os (s\<lparr>pipe_lost_time := i\<rparr>) = entry os s" "entry os (s\<lparr>last_stderr_time := i\<rparr>) = entry os s"
  "entry os (s\<lparr>port_fwd_failed := i\<rparr>) = entry os s" "entry os (s\<lparr>start_time := i\<rparr>) = entry os s"
  "entry os (s\<lparr>start_count := i\<rparr>) = entry os s" "entry os (s\<lparr>restart_ssh := i\<rparr>) = entry os s"
  "entry os (s\<lparr>TRIES := i\<rparr>) = entry os s" "entry os (s\<lparr>n_read := n\<rparr>) = entry os s"
  "entry os (s\<lparr>n_pipe := n\<rparr>) = entry os s" "entry os (s\<lparr>n_fork := n\<rparr>) = entry os s"
  "entry os (s\<lparr>n_net := n\<rparr>) = entry os s" "entry os (s\<lparr>conn_res := b\<rparr>) = entry os s"
  "entry os (s\<lparr>disp := d\<rparr>) = entry os s" "entry os (s\<lparr>pid_file_created := i\<rparr>) = entry os s"
  "entry os (tick s) = entry os s" "entry os (net_call s) = entry os s" "entry os (block_signals s) = entry os s"
  by (simp_all add: entry_def tick_def net_call_def block_signals_def)

section \<open>Assertions about the entry\<close>

lemma stable_ok: "stable I m \<longleftrightarrow> (\<forall>s. I s \<longrightarrow> ok (\<lambda>_. I) (\<lambda>_. I) (m s))"
proof -
  have "ok (\<lambda>_. I) (\<lambda>_. I) p = I (snd p)" for p :: "'b flow \<times> 'a" by (cases p; cases "fst p") auto
  then show ?thesis by (simp add: stable_def)
qed

lemma drain_entry: "drain os' bs s = (r, t) \<Longrightarrow> entry os t = entry os s"
proof (induction bs arbitrary: s)
  case (Cons b bs)
  let ?s1 = "emit (WriteStderr b) ((tick s)\<lparr>last_stderr_time := now os' s\<rparr>)"
  have "entry os ?s1 = entry os s" by simp
  with Cons.prems Cons.IH [of ?s1] show ?case by (auto simp: Let_def split: if_splits)
qed simp

lemma check_ssh_stderr_entry: "check_ssh_stderr os' s = (r, t) \<Longrightarrow> entry os t = entry os s"
  using drain_entry [of os' _ "s\<lparr>n_read := Suc (n_read s)\<rparr>" r t os] by (auto simp: check_ssh_stderr_def split: if_splits)

lemma entry_calls [simp]:
  "entry os (snd (exceeded_lifetime os' s)) = entry os s" "entry os (pipe_closed os' s) = entry os s"
  "entry os (arm_alarm os' p s) = entry os s" "entry os (close_stderr s) = entry os s"
  "entry os (unlink_pid_file s) = entry os s" "entry os (run_after os' s) = entry os s"
  by (simp_all add: exceeded_lifetime_def pipe_closed_def arm_alarm_def clear_alarm_timer_def close_stderr_def
      unlink_pid_file_def run_after_def unset_sig_handlers_def Let_def split: option.split)

text \<open>What depends on the entry alone survives everything but \<^verbatim>\<open>fork\<close>, \<^verbatim>\<open>kill\<close> and \<^verbatim>\<open>waitpid\<close>.\<close>

locale entry_frame =
  fixes os :: os and I :: "proc \<Rightarrow> bool"
  assumes keep: "I s \<Longrightarrow> entry os t = entry os s \<Longrightarrow> I t"
begin

lemma stable_async: "stable I (async_point os)"
proof (rule stable_async_point)
  show "flag_free I" unfolding flag_free_def by (auto elim!: keep simp: entry_def)
qed

lemma stable_nap: "stable I (sleep_p os n)"
  unfolding sleep_p_def [abs_def] by (rule stable_comp [OF stable_async]) (erule keep, simp)

lemma stable_frame: "(\<And>s r t. m s = (r, t) \<Longrightarrow> entry os t = entry os s) \<Longrightarrow> stable I m"
  unfolding stable_def by (metis keep prod.collapse)

lemma stable_upd: "(\<And>s. entry os (f s) = entry os s) \<Longrightarrow> stable I (modify_p f)"
  by (rule stable_modify) (erule keep)

lemma stable_restore: "stable I (restore_mask os savedmask)"
  unfolding restore_mask_def [abs_def] by (rule stable_comp [OF stable_async]) (erule keep, simp)

lemma stable_ret: "stable I (ret os savedmask rc)"
  unfolding ret_def by (intro hoare stable_restore)

lemma stable_grace: "stable I (grace_time os l)"
proof -
  have b: "stable I (grace_backoff os)"
    using stable_nap by (simp add: stable_def grace_backoff_def)
  have "stable I (then_p (sleep_p os PORT_FWD_FAIL_DELAY) (modify_p (\<lambda>s. s\<lparr>port_fwd_failed := 0\<rparr>)))"
    by (intro hoare stable_nap) (erule keep, simp)
  moreover have "I (errlog os LOG_INFO msg_port_fwd s)" if "I s" for s by (rule keep [OF that]) simp
  ultimately have p: "stable I (grace_port os)" by (simp add: stable_def grace_port_def)
  have "I ((tick s)\<lparr>TRIES := next_tries os l s\<rparr>)" if "I s" for s by (rule keep [OF that]) simp
  with stable_then [OF b p] show ?thesis by (simp add: stable_def grace_time_def)
qed

end

interpretation books: entry_frame os "books os" for os
  by unfold_locales (simp add: books_def entry_def)

interpretation open_books: entry_frame os "open_books os" for os
  by unfold_locales (simp add: open_books_def books_def entry_def)

section \<open>Waiting and killing\<close>

lemma waitpid_books: "books os s \<Longrightarrow> books os (emit (Waitpid c opts) (s\<lparr>n_waitpid := Suc (n_waitpid s)\<rparr>))"
  by (simp add: books_def emit_def)

lemma waitpid_open:
  "open_books os s \<Longrightarrow> ending_of (os_waitpid os (n_waitpid s)) = Running \<Longrightarrow>
   open_books os (emit (Waitpid c opts) (s\<lparr>n_waitpid := Suc (n_waitpid s)\<rparr>))"
  by (simp add: open_books_def books_def emit_def)

lemma forget_child: "books os s \<Longrightarrow> open_books os (s\<lparr>cchild := 0\<rparr>)"
  by (simp add: open_books_def books_def)

lemma kill_open: "open_books os s \<Longrightarrow> cchild s \<noteq> 0 \<Longrightarrow> open_books os (kill_child g s)"
  by (simp add: open_books_def books_def kill_child_def emit_def)

lemma stable_reap_books: "stable (open_books os) (reap_with_grace os k a)"
proof (induction k)
  case 0
  then show ?case by (simp add: stable_def)
next
  case (Suc k)
  have next_s: "stable (open_books os) (then_p (sleep_p os 1) (reap_with_grace os k a))"
    by (intro hoare open_books.stable_nap Suc)
  show ?case
    unfolding stable_def
  proof (intro allI impI)
    fix s
    assume s: "open_books os s"
    obtain w st e where w: "os_waitpid os (n_waitpid s) = (w, st, e)" by (metis prod_cases3)
    let ?s1 = "emit (Waitpid (cchild s) WNOHANG) (s\<lparr>n_waitpid := Suc (n_waitpid s)\<rparr>)"
    have b: "books os ?s1" "books os (errlog os l m ?s1)" for l m
      using waitpid_books [of os s "cchild s" WNOHANG] s books.keep [of os ?s1 "errlog os l m ?s1"]
      by (simp_all add: open_books_def)
    show "open_books os (snd (reap_with_grace os (Suc k) a s))"
    proof (cases "w > 0 \<or> w < 0 \<and> e \<noteq> EINTR")
      case True
      with w b show ?thesis by (auto simp: Let_def intro!: forget_child)
    next
      case False
      then have "open_books os ?s1" using w by (intro waitpid_open [OF s]) (simp add: ending_of_def)
      with False w next_s show ?thesis by (auto simp: Let_def stable_def)
    qed
  qed
qed

lemma stable_kill_books: "stable (open_books os) (ssh_kill os)"
  unfolding stable_def
proof (intro allI impI)
  fix s
  assume s: "open_books os s"
  obtain r t where run: "ssh_kill os s = (r, t)" by fastforce
  have c: "open_books os (close_stderr s)" by (rule open_books.keep [OF s]) simp
  have k: "open_books os (kill_child SIGTERM (close_stderr s))" if "cchild s \<noteq> 0"
    using kill_open [OF c] that by (simp add: close_stderr_effect)
  from run have "open_books os t"
  proof (cases rule: ssh_kill_cases)
    case (first q)
    from stableD [OF stable_reap_books k [OF first(1)] first(2)] show ?thesis .
  next
    case (second q s1 s2)
    have s1: "open_books os s1" by (rule stableD [OF stable_reap_books k [OF second(1)] second(2)])
    let ?e = "errlog os LOG_WARNING (msg_escalate (cchild s1)) s1"
    have "cchild ?e \<noteq> 0"
      using reap_effect [OF second(2)] second(1) by (simp add: kill_child_def emit_def close_stderr_effect errlog_upd)
    moreover have "open_books os ?e" by (rule open_books.keep [OF s1]) simp
    ultimately have s2: "open_books os s2"
      by (intro stableD [OF stable_reap_books kill_open second(3)])
    have "books os (errlog os l m s2)" for l m
      by (rule books.keep [OF open_books_books [OF s2]]) simp
    with s2 second(5) show ?thesis by (simp add: forget_child)
  qed (use c in simp)
  with run show "open_books os (snd (ssh_kill os s))" by simp
qed

lemma stable_xerrlog_books: "stable (open_books os) (xerrlog os l m)"
  unfolding xerrlog_def by (intro hoare stable_kill_books open_books.stable_upd) (simp_all)


interpretation monitor_books: net_frame os "open_books os" "\<lambda>_. open_books os" for os
proof
  fix s
  assume s: "open_books os s"
  note k = open_books.keep [OF s]
  show "io_effect e \<Longrightarrow> open_books os (emit e s)" "fd_effect e \<Longrightarrow> open_books os (emit e s)" for e
    by (rule k, cases e, simp_all)+
  show "open_books os (errlog os l m s)" "open_books os (net_call s)" "open_books os (s\<lparr>conn_res := True\<rparr>)" for l m
    by (rule k, simp)+
  show "ok (\<lambda>_. open_books os) (\<lambda>_. open_books os) (async_point os s)"
    using open_books.stable_async s by (simp add: stable_ok)
  show "ok (\<lambda>_ _. False) (\<lambda>_. open_books os) (xerrlog os l m s :: unit flow \<times> proc)" for l m
    using stableD [OF stable_xerrlog_books s, of l m] xerrlog_never_returns [of os l m s "()"]
    by (auto simp: ok_def split: prod.split flow.split)
qed

lemma stable_conn_test: "stable (open_books os) (conn_test os sock h p)"
  by (simp add: stable_ok monitor_books.conn_test_ok)

section \<open>The watch loop\<close>

lemma stable_kill_ret: "stable (open_books os) (kill_ret os savedmask rc)"
  unfolding kill_ret_def by (intro hoare stable_kill_books open_books.stable_ret)

lemma stable_port_failed_ret: "stable (open_books os) (port_failed_ret os savedmask)"
  unfolding port_failed_ret_def
  by (intro hoare stable_kill_books open_books.stable_ret open_books.stable_nap open_books.stable_upd) simp

lemma stable_after_poll: "stable (open_books os) (after_poll os savedmask revents)"
  unfolding stable_def
proof (intro allI impI)
  fix s
  assume s: "open_books os s"
  obtain r t where c: "(if has_flag revents POLLIN then check_ssh_stderr os s else (0, s)) = (r, t)" by fastforce
  then have "entry os t = entry os s" by (auto dest: check_ssh_stderr_entry split: if_splits)
  then have t: "open_books os t" by (rule open_books.keep [OF s])
  then have "open_books os (pipe_closed os t)" by (rule open_books.keep) simp
  with t c stable_port_failed_ret [of os savedmask] show "open_books os (snd (after_poll os savedmask revents s))"
    by (simp add: after_poll_def stable_def)
qed

lemma wait_point_entry:
  assumes "wait_point os' savedmask s = (r, t)"
  shows "entry os t = entry os s"
proof -
  have d: "entry os u = entry os v" if "deliver os' g v = (q, u)" for g v q u
    using that by (auto simp: deliver_def sig_catch_def jump_if_armed_def entry_def split: if_splits disposition.splits)
  show ?thesis
    using assms d [of _ "(emit Pause s)\<lparr>sigmask := savedmask, n_wait := Suc (n_wait s)\<rparr>"]
    by (auto simp: wait_point_def Let_def split: wake.splits prod.splits flow.splits)
qed

lemma stable_wait_point: "stable (open_books os) (wait_point os savedmask)"
  by (rule open_books.stable_frame) (rule wait_point_entry)

lemma stable_watch_wait: "stable (open_books os) (watch_wait os savedmask)"
proof -
  have "stable (open_books os) (bind_p (wait_point os savedmask) (\<lambda>revents t.
        let t = t\<lparr>dolongjmp := 0\<rparr> in
        if b then after_poll os savedmask revents t else (Return (Again (poll_time t)), t)))" for b
  proof (rule stable_bind [OF stable_wait_point])
    fix revents
    have "open_books os (t\<lparr>dolongjmp := 0\<rparr>)" if "open_books os t" for t by (rule open_books.keep [OF that]) simp
    with stable_after_poll show "stable (open_books os) (\<lambda>t. let t = t\<lparr>dolongjmp := 0\<rparr> in
        if b then after_poll os savedmask revents t else (Return (Again (poll_time t)), t))"
      by (simp add: stable_def Let_def)
  qed
  moreover have "open_books os (errlog os LOG_INFO m (s\<lparr>dolongjmp := 0\<rparr>))" if "open_books os s" for s m
    by (rule open_books.keep [OF that]) simp
  ultimately show ?thesis using stable_kill_ret by (simp add: stable_def watch_wait_def)
qed

lemma stable_alarm_checks: "stable (open_books os) (alarm_checks os sock savedmask)"
  unfolding stable_def
proof (intro allI impI)
  fix s
  assume s: "open_books os s"
  obtain r t where c: "check_ssh_stderr os s = (r, t)" by fastforce
  have t: "open_books os t" by (rule open_books.keep [OF s check_ssh_stderr_entry [OF c]])
  have "open_books os (errlog os l m u)" if "open_books os u" for u l m by (rule open_books.keep [OF that]) simp
  then have "stable (open_books os) (\<lambda>u. if up = 0 then kill_ret os savedmask P_RESTART (errlog os LOG_INFO ''port down, restarting ssh'' u)
      else (Return (Again (poll_time u)), u))" for up :: int
    using stable_kill_ret by (simp add: stable_def)
  from stable_bind [OF stable_conn_test this] t stable_port_failed_ret c
  show "open_books os (snd (alarm_checks os sock savedmask s))"
    by (simp add: alarm_checks_def stable_def split: option.split)
qed

lemma stable_on_alarm: "stable (open_books os) (on_alarm os sock savedmask)"
  unfolding stable_def
proof (intro allI impI)
  fix s
  assume s: "open_books os s"
  obtain r t where x: "exceeded_lifetime os s = (r, t)" by fastforce
  have t: "open_books os t" by (rule open_books.keep [OF s]) (use x entry_calls(1) [of os os s] in simp)
  then have "open_books os (tick t)" "open_books os (errlog os l m (tick t))" for l m
    by (rule open_books.keep, simp)+
  with t x stable_kill_ret stable_alarm_checks show "open_books os (snd (on_alarm os sock savedmask s))"
    by (simp add: on_alarm_def stable_def split: option.split)
qed

lemma stable_watch_catch: "stable (open_books os) (watch_catch os sock savedmask val)"
proof -
  have l: "open_books os (errlog os l m u)" if "open_books os u" for u l m by (rule open_books.keep [OF that]) simp
  have "stable (open_books os) (\<lambda>s. if val \<in> {SIGINT, SIGTERM, SIGQUIT, SIGABRT}
       then kill_ret os savedmask P_EXITERR (errlog os LOG_INFO (msg_exit_signal val) s)
       else if val = SIGALRM then on_alarm os sock savedmask s
       else (Return (Again (poll_time s)), s))"
    using stable_kill_ret stable_on_alarm l unfolding stable_def by auto
  then show ?thesis unfolding watch_catch_def by (intro stable_then open_books.stable_restore)
qed

text \<open>The reaper: a verdict means that the child has been collected, no verdict that it has not.\<close>

lemma ssh_wait_books:
  assumes "open_books os s" "ssh_wait os options s = (r, t)"
  shows "books os t" "r = P_CONTINUE \<Longrightarrow> open_books os t"
proof -
  let ?s1 = "emit (Waitpid (cchild s) options) (s\<lparr>n_waitpid := Suc (n_waitpid s)\<rparr>)"
  have e: "entry os t = entry os ?s1"
    using assms(2)
  proof (cases rule: ssh_wait_cases)
    case (reaped d u l m)
    from check_ssh_stderr_entry [OF reaped(1)] reaped(2) show ?thesis by auto
  qed simp
  then show "books os t"
    by (rule books.keep [OF waitpid_books [OF open_books_books [OF assms(1)]]])
  assume "r = P_CONTINUE"
  with assms(2) have "ending_of (os_waitpid os (n_waitpid s)) = Running"
    by (auto simp: ssh_wait_def ending_of_def exit_policy_def Let_def split: prod.splits if_splits)
  from open_books.keep [OF waitpid_open [OF assms(1) this] e] show "open_books os t" .
qed

lemma watch_try_books:
  assumes "open_books os s" "calm s" "watch_try os savedmask p s = (r, t)"
  shows "books os t" "open_books os t \<or> (\<exists>v. r = Return (Verdict v)) \<or> (\<exists>c. r = Exit c) \<or> (\<exists>g. r = Killed g)"
proof -
  obtain v u where w: "ssh_wait os WNOHANG s = (v, u)" by fastforce
  note u = ssh_wait_books [OF assms(1) w]
  have "books os t \<and> (open_books os t \<or> (\<exists>v. r = Return (Verdict v)) \<or> (\<exists>c. r = Exit c) \<or> (\<exists>g. r = Killed g))"
  proof (cases "v = P_CONTINUE")
    case True
    have "open_books os (arm_alarm os p u)" by (rule open_books.keep [OF u(2) [OF True]]) simp
    from stableD [OF stable_watch_wait this] assms(3) w True open_books_books show ?thesis
      by (simp add: watch_try_def)
  next
    case False
    with assms(3) w have run: "ret os savedmask v u = (r, t)" by (simp add: watch_try_def)
    have "calm u" using ssh_wait_core(4) [OF w] assms(2) by simp
    from ret_keeps [OF this, of v savedmask os] run stableD [OF books.stable_ret u(1) run] show ?thesis
      by (cases r) (auto simp: quits_def ended_def)
  qed
  then show "books os t" "open_books os t \<or> (\<exists>v. r = Return (Verdict v)) \<or> (\<exists>c. r = Exit c) \<or> (\<exists>g. r = Killed g)"
    by simp_all
qed

lemma watch_iter_books:
  assumes "open_books os s" "calm s" "watch_iter os sock savedmask p s = (r, t)"
  shows "books os t" "r = Return (Again q) \<Longrightarrow> open_books os t"
proof -
  let ?b = "block_signals s"
  have b: "open_books os ?b" "calm ?b" using open_books.keep [OF assms(1)] assms(2) by simp_all
  obtain x u where w: "watch_try os savedmask p ?b = (x, u)" by fastforce
  note tr = watch_try_books [OF b w]
  have "books os t \<and> (r = Return (Again q) \<longrightarrow> open_books os t)"
  proof (cases "restart_ssh ?b \<noteq> 0")
    case True
    have "open_books os (errlog os LOG_INFO ''signalled to kill and restart ssh'' ?b)"
      by (rule open_books.keep [OF b(1)]) simp
    with True assms(3) stable_kill_ret [of os savedmask P_RESTART] open_books_books show ?thesis
      by (auto simp: watch_iter_def stable_def)
  next
    case False
    have "open_books os t" if "x = Longjmp g" for g
      using that tr(2) assms(3) False w stableD [OF stable_watch_catch, of os u sock savedmask g r t]
      by (auto simp: watch_iter_def)
    with False assms(3) w tr open_books_books show ?thesis
      by (cases x) (auto simp: watch_iter_def)
  qed
  then show "books os t" "r = Return (Again q) \<Longrightarrow> open_books os t" by simp_all
qed

lemma watch_head_books:
  assumes "watch_head os sock savedmask p0 s0 p s" "calm s0" "open_books os s0"
  shows "open_books os s"
  using assms
proof induction
  case (step p s p' s')
  from watch_iter_books(2) [OF step.IH [OF step.prems] _ step.hyps(2)] watch_head_inv [OF step.hyps(1) step.prems(1)]
  show ?case by simp
qed simp

lemma ssh_watch_books:
  assumes "open_books os s" "calm s" "ssh_watch os sock s = Some (r, t)"
  shows "books os t"
proof -
  let ?b = "block_signals s"
  have b: "open_books os ?b" "calm ?b" using open_books.keep [OF assms(1)] assms(2) by simp_all
  obtain q u x where h: "watch_head os sock (sigmask s) (first_poll_time s) ?b q u"
    and i: "watch_iter os sock (sigmask s) q u = (x, t)"
    using watch_loop_last [OF assms(3) [unfolded ssh_watch_def]] by (auto simp: last_iter_def)
  from watch_iter_books(1) [OF watch_head_books [OF h b(2,1)] _ i] watch_head_inv [OF h b(2)] show ?thesis by simp
qed

section \<open>The start loop\<close>

lemma stable_run_prepare: "stable (books os) (run_prepare os)"
  unfolding stable_def
proof (intro allI impI)
  fix s
  assume s: "books os s"
  obtain x u where x: "exceeded_lifetime os s = (x, u)" by fastforce
  have u: "books os u" by (rule books.keep [OF s]) (use x entry_calls(1) [of os os s] in simp)
  let ?s1 = "u\<lparr>restart_ssh := 0, start_count := i32 (start_count u + 1)\<rparr>"
  let ?k = "\<lambda>s. if exit_signalled s \<noteq> 0
             then (Return (Some P_EXITERR), errlog os LOG_ERR ''signalled to exit'' s)
             else (Return None,
                   errlog os LOG_INFO (msg_starting (start_count s) (max_start s))
                     ((tick s)\<lparr>start_time := now os s, port_fwd_failed := 0, pipe_lost_time := 0,
                               last_stderr_time := 0\<rparr>))"
  have "stable (books os) ?k" unfolding stable_def by (auto elim!: books.keep)
  with books.stable_grace have "stable (books os) (then_p (grace_time os (start_time u)) ?k)" by (intro stable_then)
  moreover have "books os ?s1" by (rule books.keep [OF u]) simp
  ultimately show "books os (snd (run_prepare os s))" using x u by (simp add: run_prepare_def stable_def)
qed

text \<open>A fork opens a new page; a failed one leaves no child to signal.\<close>

lemma run_fork_books:
  assumes "books os s" "run_fork os s = (r, t)"
  shows "open_books os t"
proof -
  obtain p u where p: "run_pipe os s = (p, u)" by fastforce
  have "entry os u = entry os s" using p by (auto simp: run_pipe_def split: sum.splits)
  then have u: "books os u" by (rule books.keep [OF assms(1)])
  have c: "entry os (close_if_open fd v) = entry os v" for fd v by (simp add: close_if_open_def)
  show ?thesis
  proof (cases "os_fork os (n_fork s)")
    case (Inl e)
    have "books os (u\<lparr>n_fork := Suc (n_fork u)\<rparr>)" by (rule books.keep [OF u]) simp
    then have "open_books os (u\<lparr>n_fork := Suc (n_fork u), cchild := 0\<rparr>)" by (rule forget_child)
    then have "open_books os (close_if_open (snd p) (close_if_open (fst p) (u\<lparr>n_fork := Suc (n_fork u), cchild := 0\<rparr>)))"
      by (rule open_books.keep) (simp add: c)
    from stableD [OF stable_xerrlog_books this] assms(2) p Inl show ?thesis by (simp add: run_fork_def Let_def)
  next
    case (Inr pid)
    let ?v = "emit (Fork pid) (u\<lparr>n_fork := Suc (n_fork u), cchild := pid\<rparr>)"
    have "open_books os ?v" using u by (simp add: open_books_def books_def emit_def)
    then have "open_books os t"
      by (rule open_books.keep) (use assms(2) p Inr c in \<open>auto simp: run_fork_def Let_def set_sig_handlers_def\<close>)
    then show ?thesis .
  qed
qed

lemma run_iter_books:
  assumes "books os s" "calm s" "run_iter os sock s = Some (r, t)"
  shows "books os t"
proof (cases "max_start s < 0 \<or> start_count s < max_start s")
  case False
  with assms(3) show ?thesis by (auto simp: run_iter_def intro: books.keep [OF assms(1)])
next
  case True
  obtain x u where prep: "run_prepare os s = (x, u)" by fastforce
  have u: "books os u" by (rule stableD [OF stable_run_prepare assms(1) prep])
  obtain y v where fork: "run_fork os u = (y, v)" by fastforce
  have v: "open_books os v" by (rule run_fork_books [OF u fork])
  have w: "books os w \<and> books os (run_after os w)" if "x = Return None" "y = Return z" "ssh_watch os sock v = Some (q, w)" for z q w
  proof -
    have "calm u" using run_prepare_post [OF assms(2) prep] that(1) assms(2) by (auto simp: run_frame_def)
    then have "calm v" using run_fork_post [OF _ fork] that(2) by (auto simp: run_frame_def)
    from ssh_watch_books [OF v this that(3)] have w: "books os w" .
    moreover have "books os (run_after os w)" by (rule books.keep [OF w]) simp
    ultimately show ?thesis ..
  qed
  show ?thesis
  proof (cases "x = Return None")
    case None: True
    show ?thesis
    proof (cases y)
      case (Return z)
      with assms(3) True prep None fork w show ?thesis
        by (auto simp: run_iter_def split: option.splits prod.splits flow.splits)
    qed (use assms(3) True prep None fork open_books_books [OF v] in \<open>auto simp: run_iter_def\<close>)
  qed (use assms(3) True prep u in \<open>cases x, auto simp: run_iter_def split: option.splits\<close>)
qed

lemma run_head_books:
  assumes "run_head os sock s0 s" "calm s0" "ssh_stderr_fd s0 < 0" "books os s0"
  shows "books os s"
  using assms
proof induction
  case (step s s')
  have "run_frame s = run_frame s0" using run_head_inv [OF step.hyps(1)] step.prems by (simp add: run_inv_def)
  then have "calm s" using step.prems(1) run_frame_sel(2) by blast
  from run_iter_books [OF step.IH [OF step.prems] this step.hyps(2)] show ?case .
qed simp

lemma ssh_run_books:
  assumes "books os s" "calm s" "ssh_stderr_fd s < 0" "ssh_run os sock s = Some (r, t)"
  shows "books os t"
proof -
  let ?e = "install_for_child os (set_exit_sig_handler s)"
  obtain p v where i: "?e = (set_exit_sig_handler s)\<lparr>so_path := p, ld_preload := v\<rparr>"
    using install_for_child_upd by blast
  have "books os ?e" using assms(1) unfolding i by (simp add: books_def set_exit_sig_handler_def)
  then have e: "calm ?e" "ssh_stderr_fd ?e < 0" "books os ?e" using assms(2,3) by (simp_all add: run_entry)
  obtain u x where u: "run_head os sock ?e u" "run_iter os sock u = Some (x, t)"
    using run_loop_last [OF assms(4) [unfolded ssh_run_def]] by (auto simp: last_turn_def)
  have "calm u" using run_head_inv [OF u(1) e(1,2)] e(1) run_frame_sel(2) [of u ?e] by (simp add: run_inv_def)
  from run_iter_books [OF run_head_books [OF u(1) e] this u(2)] show ?thesis .
qed

section \<open>Claims\<close>

text \<open>C2: The supervisor never signals a process that is gone. In the trace of a run, however it ends
  and whatever kernel, child and network do, every SIGTERM and SIGKILL goes to a child that was
  forked before and that no \<^verbatim>\<open>waitpid\<close> has collected since: neither the stale number that the
  reaper leaves in \<^verbatim>\<open>cchild\<close>, nor a teardown that escalates, nor an orderly exit after a failed fork
  reaches a foreign process.\<close>

theorem ssh_run_signals_live:
  assumes "books os s" "calm s" "ssh_stderr_fd s < 0" "ssh_run os sock s = Some (r, t)"
  shows "sound (ledger_of os (trace t)) \<and> answered (ledger_of os (trace t)) = n_waitpid t"
  using ssh_run_books [OF assms] by (simp add: books_def)

text \<open>A kernel on which SIGTERM arrives in the first wait and the child then obeys.\<close>

definition term_os :: os where
  "term_os = idle_os\<lparr>os_waitpid := (\<lambda>k. if k = 0 then (0, 0, 0) else (42, 15, 0)), os_wait := (\<lambda>_. WakeSig SIGTERM),
     os_fork := (\<lambda>_. Inr 42), os_so_open := -1\<rparr>"

text \<open>The state in which its child is watched.\<close>

definition term_watched :: "proc \<Rightarrow> bool" where
  "term_watched v \<longleftrightarrow> sigmask v = [] \<and> disp v SIGTERM = SIG_CATCH handler_mask False \<and> loglevel v = -1 \<and> cchild v = 42 \<and>
     n_waitpid v = 0 \<and> kills (trace v) = [] \<and> restart_ssh v = 0 \<and> exit_signalled v = 0 \<and> max_lifetime v = 0 \<and> max_session v = 0"

lemma term_os_fork:
  "\<exists>u v. run_prepare term_os (install_for_child term_os (set_exit_sig_handler one_start)) = (Return None, u) \<and>
     run_fork term_os u = (Return (), v) \<and> term_watched v"
  by (simp add: run term_os_def one_start_def term_watched_def MAX_LIFETIME_DEFAULT_def MAX_SESSION_DEFAULT_def difftime_def
      in_i32_def build_blockmask_def)

lemma term_os_watch:
  assumes "term_watched v"
  shows "\<exists>t. ssh_watch term_os (-1) v = Some (Return P_EXITERR, t) \<and> kills (trace t) = [(42, SIGTERM)] \<and> n_waitpid t = 2"
  using assms unfolding ssh_watch_def
  by (subst watch_loop.simps)
    (simp add: run term_os_def term_watched_def eval_nat_numeral build_blockmask_def)

lemma term_os_run:
  "\<exists>t. ssh_run term_os (-1) one_start = Some (Return P_EXITERR, t) \<and> kills (trace t) = [(42, SIGTERM)] \<and> n_waitpid t = 2"
proof -
  let ?e = "install_for_child term_os (set_exit_sig_handler one_start)"
  obtain u v where uv: "run_prepare term_os ?e = (Return None, u)" "run_fork term_os u = (Return (), v)" "term_watched v"
    using term_os_fork by blast
  obtain t where t: "ssh_watch term_os (-1) v = Some (Return P_EXITERR, t)" "kills (trace t) = [(42, SIGTERM)]" "n_waitpid t = 2"
    using term_os_watch [OF uv(3)] by blast
  have "run_iter term_os (-1) ?e = Some (Return (Done P_EXITERR), run_after term_os t)"
    using uv t(1) by (simp add: run_iter_def run_entry)
  moreover have "n_waitpid (run_after term_os t) = n_waitpid t"
    using entry_calls(6) [of term_os term_os t] by (simp add: entry_def)
  ultimately show ?thesis using t by (auto simp: ssh_run_def run_loop.simps [of _ _ ?e] run_after_post)
qed

theorem ssh_run_signals_live_witness:
  "\<exists>t. ssh_run term_os (-1) one_start = Some (Return P_EXITERR, t) \<and> kills (trace t) = [(42, SIGTERM)] \<and>
     sound (ledger_of term_os (trace t)) \<and> answered (ledger_of term_os (trace t)) = 2"
proof -
  obtain t where t: "ssh_run term_os (-1) one_start = Some (Return P_EXITERR, t)" "kills (trace t) = [(42, SIGTERM)]" "n_waitpid t = 2"
    using term_os_run by blast
  have "books term_os one_start" by (simp add: books_def ledger_of_def one_start_def)
  from ssh_run_signals_live [OF this _ _ t(1)] t show ?thesis by simp
qed

end
