(* ===== verification/Startup.thy ===== *)
theory Startup
  imports Command_Line Reaping
begin

text \<open>
  The start of the program as a whole: \<^verbatim>\<open>src/main_logic.rs\<close> around the start loop. Before the loop
  there is no child and no handler, so every failure is an orderly exit; the loop then finds the
  state it expects.
\<close>

section \<open>Before the first child\<close>

definition fresh :: "os \<Rightarrow> proc \<Rightarrow> bool" where
  "fresh os s \<longleftrightarrow> calm s \<and> ssh_stderr_fd s < 0 \<and> cchild s = 0 \<and> books os s"

definition ends :: "os \<Rightarrow> unit flow \<Rightarrow> proc \<Rightarrow> bool" where
  "ends os r t \<longleftrightarrow> (r = Exit 0 \<or> gone os r t) \<and> books os t"

definition prepares :: "os \<Rightarrow> (proc, 'a) prog \<Rightarrow> bool" where
  "prepares os m \<longleftrightarrow> (\<forall>s. fresh os s \<longrightarrow> ok (\<lambda>_. fresh os) (ends os) (m s))"

lemma preparesD: "prepares os m \<Longrightarrow> fresh os s \<Longrightarrow> ok (\<lambda>_. fresh os) (ends os) (m s)"
  by (simp add: prepares_def)

lemma fresh_initial: "fresh os initial_proc"
  by (simp add: fresh_def calm_def books_def ledger_of_def)

lemma prepares_return [hoare]: "prepares os (return_p a)"
  by (simp add: prepares_def)

lemma prepares_bind [hoare]: "prepares os m \<Longrightarrow> (\<And>a. prepares os (f a)) \<Longrightarrow> prepares os (bind_p m f)"
  unfolding prepares_def by (blast intro: ok_bind)

lemma prepares_then [hoare]: "prepares os m \<Longrightarrow> prepares os k \<Longrightarrow> prepares os (then_p m k)"
  unfolding then_p_def by (rule prepares_bind)

lemma prepares_modify [hoare]: "(\<And>s. fresh os s \<Longrightarrow> fresh os (f s)) \<Longrightarrow> prepares os (modify_p f)"
  by (simp add: prepares_def modify_p_def)

lemma fresh_xerrlog [intro]:
  assumes "fresh os s"
  shows "ok Q (ends os) (xerrlog os l m s)"
proof (rule xerrlog_ok)
  have o: "open_books os s" using assms by (simp add: fresh_def open_books_def)
  have "quiet (kills (trace s)) s" using assms by (simp add: fresh_def quiet_def)
  then obtain t where t: "(xerrlog os l m s :: unit flow \<times> proc) = (Exit 1, t)" using xerrlog_quiet by blast
  from stableD [OF stable_xerrlog_books o t] t show "ok (\<lambda>_ _. False) (ends os) (xerrlog os l m s :: unit flow \<times> proc)"
    by (simp add: ends_def gone_def open_books_books)
qed

lemma fresh_errlog [simp]: "fresh os (errlog os l m s) = fresh os s"
  by (simp add: fresh_def calm_def books_def errlog_upd)

lemma fresh_upd [simp]:
  "fresh os (s\<lparr>ssh_path := a\<rparr>) = fresh os s" "fresh os (s\<lparr>syslog_perror := i\<rparr>) = fresh os s" "fresh os (s\<lparr>loglevel := i\<rparr>) = fresh os s"
  "fresh os (s\<lparr>poll_time := i\<rparr>) = fresh os s" "fresh os (s\<lparr>first_poll_time := i\<rparr>) = fresh os s" "fresh os (s\<lparr>gate_time := q\<rparr>) = fresh os s"
  "fresh os (s\<lparr>max_start := i\<rparr>) = fresh os s" "fresh os (s\<lparr>echo_message := a\<rparr>) = fresh os s" "fresh os (s\<lparr>env_port := c\<rparr>) = fresh os s"
  "fresh os (s\<lparr>max_lifetime := q\<rparr>) = fresh os s" "fresh os (s\<lparr>max_session := q\<rparr>) = fresh os s" "fresh os (s\<lparr>pid_file_name := c\<rparr>) = fresh os s"
  "fresh os (s\<lparr>flog := c\<rparr>) = fresh os s" "fresh os (s\<lparr>logtype := i\<rparr>) = fresh os s" "fresh os (s\<lparr>pid_start_time := i\<rparr>) = fresh os s"
  "fresh os (s\<lparr>writep := c\<rparr>) = fresh os s" "fresh os (s\<lparr>readp := a\<rparr>) = fresh os s" "fresh os (s\<lparr>echop := c\<rparr>) = fresh os s"
  "fresh os (s\<lparr>mhost := a\<rparr>) = fresh os s" "fresh os (s\<lparr>net_timeout := i\<rparr>) = fresh os s" "fresh os (s\<lparr>pid_file_created := i\<rparr>) = fresh os s"
  "fresh os (tick s) = fresh os s"
  by (simp_all add: fresh_def calm_def books_def tick_def)

section \<open>The environment\<close>

lemma fresh_lifetime_set: "fresh os s \<Longrightarrow> fresh os (lifetime_set os life s)"
  by (auto simp: lifetime_set_def Let_def)

lemma prepares_env: "prepares os (get_env_args h os)"
proof -
  note d = prepares_def env_path_def env_loglevel_def env_poll_def env_first_poll_def env_gatetime_def env_maxstart_def
    env_message_def env_port_var_def env_maxlifetime_def env_max_session_def env_pidfile_def env_logfile_def Let_def
  have "prepares os (modify_p (env_path h))" "prepares os (modify_p (env_port_var h))" "prepares os (modify_p (env_pidfile h))"
    by (rule prepares_modify, simp add: d split: option.split)+
  moreover have "prepares os (env_loglevel h os)" "prepares os (env_poll h os)" "prepares os (env_first_poll h os)"
    "prepares os (env_gatetime h os)" "prepares os (env_maxstart h os)" "prepares os (env_message h os)"
    "prepares os (env_max_session h os)" "prepares os (env_logfile h os)" "prepares os (env_maxlifetime h os)"
    by (auto simp: d fresh_lifetime_set split: option.split prod.split)
  ultimately show ?thesis unfolding get_env_args_def by (intro prepares_then)
qed

section \<open>Options, ports and forwardings\<close>

lemma fresh_emit: "fresh os s \<Longrightarrow> (\<And>l. account os l e = l) \<Longrightarrow> fresh os (emit e s)"
  by (simp add: fresh_def calm_def books_def emit_def)

lemma usage_ends: "fresh os s \<Longrightarrow> ok Q (ends os) (usage os 1 s)"
proof -
  assume f: "fresh os s"
  have "ledger_of os (trace s @ map WriteStderr u) = ledger_of os (trace s)" for u by (rule ledger_skip) auto
  with f show ?thesis by (simp add: usage_def ends_def gone_def fresh_def books_def del: list.map)
qed

lemma fresh_books: "fresh os s \<Longrightarrow> books os s"
  by (simp add: fresh_def)

lemma prepares_opt_loop: "prepares os (opt_loop os opts w d)"
  unfolding prepares_def
proof (intro allI impI)
  fix s
  assume "fresh os s"
  then show "ok (\<lambda>_. fresh os) (ends os) (opt_loop os opts w d s)"
    by (induction os opts w d s rule: opt_loop.induct) (auto simp: usage_ends ends_def fresh_emit fresh_books)
qed

lemma prepares_set_echo: "prepares os (set_echo os e)"
  by (auto simp: prepares_def set_echo_def Let_def split: option.split prod.split)

lemma prepares_snprintf: "prepares os (snprintf_fwd os x)"
  by (auto simp: prepares_def snprintf_fwd_def)

lemma prepares_set_forwards: "prepares os (set_forwards os wp ep)"
  unfolding prepares_def set_forwards_def Let_def
  by (auto intro!: ok_bind [where R = "\<lambda>_. fresh os"] preparesD [OF prepares_snprintf])

lemma prepares_set_ports: "prepares os (set_ports os p ep)"
  unfolding prepares_def set_ports_def Let_def
  by (auto intro!: ok_bind [where R = "\<lambda>_. fresh os"] preparesD [OF prepares_set_forwards] split: prod.split)

lemma fresh_net_timeout: "fresh os s \<Longrightarrow> fresh os (set_net_timeout os s)"
  by (auto simp: set_net_timeout_def Let_def)

lemma prepares_go_daemon: "prepares os (go_daemon h os d)"
  by (auto simp: prepares_def go_daemon_def fresh_emit split: option.split)

lemma prepares_open_monitor: "prepares os (open_monitor os)"
  unfolding prepares_def
proof (intro allI impI)
  fix s
  assume f: "fresh os s"
  let ?l = "conn_listen os (mhost s) (readp s) s"
  have o: "open_books os s" using f by (simp add: fresh_def open_books_def)
  have "ok (\<lambda>_ t. (conn_frame t = conn_frame s \<and> calm t) \<and> open_books os t)
      (\<lambda>r t. (True \<and> calm t \<and> (r = Exit 1 \<or> ended os t r)) \<and> open_books os t) ?l"
    using f o
    by (intro ok_conj monitor_keeps.conn_listen_ok monitor_calm.conn_listen_ok monitor_books.conn_listen_ok) (simp_all add: fresh_def)
  then have "ok (\<lambda>_. fresh os) (ends os) ?l"
    by (rule ok_mono) (use f in \<open>auto simp: conn_frame_def fresh_def ends_def gone_def ended_def open_books_def\<close>)
  with f show "ok (\<lambda>_. fresh os) (ends os) (open_monitor os s)" by (simp add: open_monitor_def)
qed

lemma prepares_pid_file: "prepares os (write_pid_file h os)"
  by (auto simp: prepares_def write_pid_file_def Let_def fresh_emit split: option.split)

section \<open>The whole start\<close>

lemma cut_argv_terminated:
  assumes "\<And>buf. buf \<in> set argv \<Longrightarrow> terminated buf"
  shows "buf \<in> set (cut_argv argv w s p) \<Longrightarrow> terminated buf" and "length (cut_argv argv w s p) = length argv"
proof -
  have "terminated (x[k := NUL])" if "terminated x" for x k
    using that by (cases "k < length x") (auto simp: terminated_def set_update_memI list_update_beyond)
  moreover have "i < length argv \<Longrightarrow> terminated (argv ! i)" for i using assms by simp
  ultimately have "terminated b" if "b \<in> set (argv[i := (argv ! i)[k := NUL]])" for b i k
    using that assms
    by (cases "i < length argv") (auto simp: list_update_beyond dest!: set_update_subset_insert [THEN subsetD])
  then show "buf \<in> set (cut_argv argv w s p) \<Longrightarrow> terminated buf"
    using assms by (auto simp: cut_argv_def split: option.splits)
  show "length (cut_argv argv w s p) = length argv"
    by (auto simp: cut_argv_def split: option.split)
qed

lemma prepares_main_argv:
  assumes "working_memory (mem h)" "\<And>buf. buf \<in> set argv \<Longrightarrow> terminated buf" "length argv < 2 ^ 28"
  shows "prepares os (main_argv h os argv w wp wm rm)"
  unfolding prepares_def
proof (intro allI impI)
  fix s
  assume f: "fresh os s"
  obtain b where "build_argv (mem h) wp (env_port s \<noteq> None) (echop s \<noteq> None) wm rm argv (ssh_path s) = Inr b"
    using build_argv_refines [OF assms] by blast
  with f show "ok (\<lambda>_. fresh os) (ends os) (main_argv h os argv w wp wm rm s)"
    by (simp add: main_argv_def split: option.split)
qed

text \<open>What is relied on: allocations succeed, and \<^verbatim>\<open>getopt\<close> only reorders its arguments.\<close>

definition reorders :: "'z starter_scheme \<Rightarrow> bool" where
  "reorders h \<longleftrightarrow> (\<forall>argv. set (snd (snd (getopt h argv))) = set argv \<and> length (snd (snd (getopt h argv))) = length argv)"

lemma prepares_setup:
  assumes w: "working_memory (mem h)" and g: "reorders h"
    and a: "\<And>buf. buf \<in> set argv \<Longrightarrow> terminated buf" "length argv < 2 ^ 28"
  shows "prepares os (main_setup h os argv)"
proof -
  obtain opts optind argv' where o: "getopt h argv = (opts, optind, argv')" by (metis prod_cases3)
  then have a': "set argv' = set argv" "length argv' = length argv" using g unfolding reorders_def by (metis snd_conv)+
  have ports: "prepares os (main_ports h os argv' w p)" for w p
    unfolding prepares_def main_ports_def
  proof (intro allI impI)
    fix s
    assume f: "fresh os s"
    have m: "prepares os (main_argv h os (cut_argv argv' w s p) w wp wm rm)" for wp wm rm
      using cut_argv_terminated(1) [of argv' _ w s p] cut_argv_terminated(2) [of argv' w s p] a a' by (intro prepares_main_argv [OF w]) auto
    have "prepares os (modify_p (set_mhost h))"
      by (rule prepares_modify) (simp add: set_mhost_def split: option.split)
    moreover have "prepares os (modify_p (set_net_timeout os))" by (rule prepares_modify) (rule fresh_net_timeout)
    ultimately have "prepares os (bind_p (set_echo os (snd (split_port p))) (\<lambda>ep.
        then_p (modify_p (set_mhost h)) (bind_p (set_ports os (fst (split_port p)) ep) (\<lambda>(wp, wm, rm).
          then_p (modify_p (set_net_timeout os)) (main_argv h os (cut_argv argv' w s p) w wp wm rm)))))"
      by (intro prepares_bind prepares_then prepares_set_echo prepares_set_ports)
        (auto split: prod.split intro!: prepares_then m)
    from preparesD [OF this f] show "ok (\<lambda>_. fresh os) (ends os) (bind_p (set_echo os (snd (split_port p))) (\<lambda>ep.
        then_p (modify_p (set_mhost h)) (bind_p (set_ports os (fst (split_port p)) ep) (\<lambda>(wp, wm, rm).
          then_p (modify_p (set_net_timeout os)) (main_argv h os (cut_argv argv' w s p) w wp wm rm)))) s)" .
  qed
  have syslog: "fresh os s \<Longrightarrow> fresh os (open_syslog s)" for s by (simp add: open_syslog_def fresh_emit)
  have "prepares os (\<lambda>s. case port_text argv' w s of None \<Rightarrow> usage os 1 s
      | Some p \<Rightarrow> if int (length argv) = optind then usage os 1 s
          else bind_p (main_ports h os argv' w p) (\<lambda>a. return_p (a, d)) (open_syslog s))" for w d
    unfolding prepares_def using usage_ends
    by (auto split: option.split intro!: syslog preparesD [OF prepares_bind [OF ports prepares_return]])
  then have "prepares os (main_options h os argv)"
    unfolding main_options_def o by (auto intro!: hoare prepares_opt_loop split: prod.split)
  then show ?thesis unfolding main_setup_def
    by (auto intro!: hoare prepares_env prepares_go_daemon prepares_open_monitor prepares_pid_file split: prod.split)
qed

lemma main_finish_entry: "entry os (main_finish sock s) = entry os s"
  by (simp add: main_finish_def shut_def Let_def)

lemma main_ends:
  assumes "working_memory (mem h)" "reorders h" "length args < 2 ^ 28" "fresh os s"
    and run: "main h os args s = Some (r, t)"
  shows "case r of Exit c \<Rightarrow> c = 0 \<or> c = 1 | Killed g \<Rightarrow> disp t g = SIG_DFL \<and> os_dfl_term os g | _ \<Rightarrow> False"
    and "books os t"
proof -
  let ?argv = "map (\<lambda>a. a @ [NUL]) args"
  have p: "ok (\<lambda>_. fresh os) (ends os) (main_setup h os ?argv s)"
    using assms(3,4) by (intro preparesD [OF prepares_setup [OF assms(1,2)]]) (auto simp: terminated_def)
  obtain r0 s0 where m: "main_setup h os ?argv s = (r0, s0)" by fastforce
  have "(case r of Exit c \<Rightarrow> c = 0 \<or> c = 1 | Killed g \<Rightarrow> disp t g = SIG_DFL \<and> os_dfl_term os g | _ \<Rightarrow> False) \<and> books os t"
  proof (cases "\<exists>a sock. r0 = Return (a, sock)")
    case True
    then obtain a sock where r0: "r0 = Return (a, sock)" by blast
    with p m have f: "calm s0" "ssh_stderr_fd s0 < 0" "books os s0" by (simp_all add: fresh_def)
    from run m r0 obtain r1 t1 where s: "ssh_run os sock s0 = Some (r1, t1)"
      by (auto simp: main_def autossh_main_def split: option.splits)
    have b: "books os t1" by (rule ssh_run_books [OF f(3,1,2) s])
    have "entry os t = entry os t1"
      using run m r0 s main_finish_entry [of os sock t1] by (cases r1) (auto simp: main_def autossh_main_def split: if_splits)
    from books.keep [OF b this] ssh_run_ends [OF f(1,2) s] run m r0 s show ?thesis
      by (cases r1) (auto simp: main_def autossh_main_def gone_def)
  next
    case False
    with run m p show ?thesis
      by (cases r0) (auto simp: main_def autossh_main_def ends_def gone_def)
  qed
  then show "case r of Exit c \<Rightarrow> c = 0 \<or> c = 1 | Killed g \<Rightarrow> disp t g = SIG_DFL \<and> os_dfl_term os g | _ \<Rightarrow> False"
    and "books os t" by simp_all
qed

section \<open>The network timeout\<close>

lemma tdiv_2: "0 \<le> x \<Longrightarrow> tdiv x 2 = x div 2"
  by (simp add: tdiv_nonneg)

lemma set_net_timeout_sel:
  "net_timeout (set_net_timeout os s) = min (net_timeout s) (tdiv (i32 (poll_time s * 1000)) 2)"
  by (simp add: set_net_timeout_def Let_def errlog_upd)

section \<open>The monitor ports\<close>

lemma show_int_nat [simp]: "show_int (int n) = show_nat n"
  by (simp add: show_int_def)

lemma forward_fits:
  assumes "a < 100000" "b < 2 ^ 31" "length host \<le> 235"
  shows "snprintf_fwd os (forward_text (int a) host (int b)) s = (Return (forward_text (int a) host (int b)), s)"
proof -
  have "length (show_nat a) \<le> 5" "length (show_nat b) \<le> 10" using assms by (auto intro!: show_nat_length)
  then show ?thesis using assms(3) by (simp add: snprintf_fwd_def forward_text_def FWD_BUF_def)
qed

lemma set_forwards_text:
  assumes "length (mhost s) \<le> 235" "n \<le> 65534" "0 \<le> ep" "ep < 2 ^ 31"
  shows "set_forwards os (int n) ep s =
    (Return (forward_text (int n) (mhost s) (if echop s = None then int n else ep),
       if echop s = None then forward_text (int n) (mhost s) (int n + 1) else []), s\<lparr>readp := show_int (int n + 1)\<rparr>)"
proof -
  have e: "i32 ep = ep" using assms(3,4) by (simp add: in_i32_def)
  have f: "snprintf_fwd os (forward_text (int n) (mhost s) b) u = (Return (forward_text (int n) (mhost s) b), u)"
    if "0 \<le> b" "b < 2 ^ 31" for b u
    using forward_fits [of n "nat b" "mhost s" os u] assms that by simp
  show ?thesis using assms
    by (simp add: set_forwards_def Let_def e f bind_p_def return_p_def)
qed

text \<open>A port number in decimal, of either sign: the value that \<^verbatim>\<open>strtoul\<close> gives, cut to a
  \<^verbatim>\<open>c_int\<close>.\<close>

lemma strto_scan_sign:
  assumes "0 < n"
  shows "strto_scan 0 (CHR ''-'' # show_nat n) = Some (True, n, [])"
proof -
  obtain d r where s: "show_nat n = digit_char d # r" and d: "0 < d" "d < 10"
    using show_nat_hd [OF assms] by blast
  have z: "digit_char d \<noteq> CHR ''0''"
    using d digit_char_inj [of d 0] by (simp add: digit_char_zero)
  have "scan_base 0 (show_nat n) = (10, show_nat n)"
    using z by (cases r) (simp_all add: scan_base_def s)
  then show ?thesis
    using scan_digits_show_nat [of n] not_sym [OF show_nat_not_Nil [of n]] by (simp add: strto_scan_def Let_def c_isspace_def)
qed

lemma strtoul_decimal:
  "strtoul 0 (show_int z) = (if 2 ^ 64 \<le> \<bar>z\<bar> then 2 ^ 64 - 1 else z mod 2 ^ 64, [])"
proof (cases "z < 0")
  case True
  then have "strto_scan 0 (show_int z) = Some (True, nat (- z), [])"
    using strto_scan_sign [of "nat (- z)"] by (simp add: show_int_def)
  with True show ?thesis by (auto simp: strtoul_def u64_def nat_le_iff le_nat_iff)
next
  case False
  then show ?thesis using strto_scan_show_nat [of "nat z"]
    by (auto simp: strtoul_def show_int_def le_nat_iff)
qed

lemma strtoul_junk:
  assumes "0 < n" "10 \<le> digit_val c"
  shows "snd (strtoul 0 (show_nat n @ c # r)) = c # r"
proof -
  obtain d q where s: "show_nat n = digit_char d # q" and d: "0 < d" "d < 10"
    using show_nat_hd [OF assms(1)] by blast
  have z: "digit_char d \<noteq> CHR ''0''"
    using d digit_char_inj [of d 0] by (simp add: digit_char_zero)
  have "scan_base 0 (show_nat n @ c # r) = (10, show_nat n @ c # r)"
    using z by (cases q) (simp_all add: scan_base_def s)
  moreover have "scan_digits 10 0 (show_nat n @ c # r) = (n, c # r)"
  proof -
    have "\<forall>c \<in> set (show_nat n). digit_val c < 10" using show_nat_digits by fastforce
    with assms(2) scan_digits_show_nat [of n] show ?thesis by (simp add: scan_digits_append)
  qed
  ultimately have "strto_scan 0 (show_nat n @ c # r) = Some (False, n, c # r)"
    using d by (simp add: strto_scan_def s digit_char_neq Let_def)
  then show ?thesis by (simp add: strtoul_def)
qed

lemma i32_of_u64:
  "i32 (z mod 2 ^ 64) = (if z mod 2 ^ 32 < 2 ^ 31 then z mod 2 ^ 32 else z mod 2 ^ 32 - 2 ^ 32)"
proof -
  let ?w = "z mod 2 ^ 32"
  have c: "z mod 2 ^ 64 mod 2 ^ 32 = ?w" by (rule mod_mod_cancel) simp
  have "(z mod 2 ^ 64 + 2 ^ 31) mod 2 ^ 32 = (z mod 2 ^ 64 mod 2 ^ 32 + 2 ^ 31) mod 2 ^ 32"
    by (rule mod_add_left_eq [symmetric])
  then have m: "(z mod 2 ^ 64 + 2 ^ 31) mod 2 ^ 32 = (?w + 2 ^ 31) mod 2 ^ 32" by (simp only: c)
  have w: "0 \<le> ?w" "?w < 2 ^ 32" by simp_all
  show ?thesis
  proof (cases "?w < 2 ^ 31")
    case True
    then have "(?w + 2 ^ 31) mod 2 ^ 32 = ?w + 2 ^ 31" using w by (intro mod_pos_pos_trivial) simp_all
    with m True show ?thesis by (simp add: i32_def)
  next
    case False
    have "(?w + 2 ^ 31) mod 2 ^ 32 = (?w + 2 ^ 31 - 2 ^ 32) mod 2 ^ 32" by (rule minus_mod_self2 [symmetric])
    also have "\<dots> = ?w + 2 ^ 31 - 2 ^ 32" using False w by (intro mod_pos_pos_trivial) simp_all
    finally show ?thesis using m False by (simp add: i32_def)
  qed
qed

lemma set_ports_rejected:
  assumes "cchild s = 0" "2 ^ 64 \<le> \<bar>z\<bar> \<or> 65534 < z mod 2 ^ 32"
  shows "fst (set_ports os (show_int z) ep s) = Exit 1"
proof -
  let ?wp = "z mod 2 ^ 32"
  obtain v where v: "strtoul 0 (show_int z) = (v, [])" "i32 v < 0 \<or> 65534 < i32 v"
  proof (cases "2 ^ 64 \<le> \<bar>z\<bar>")
    case True
    have "i32 (2 ^ 64 - 1) = - 1" by (simp add: i32_def)
    with that [of "2 ^ 64 - 1"] True show thesis by (simp add: strtoul_decimal)
  next
    case False
    have "?wp < 2 ^ 32" by simp
    then have "i32 (z mod 2 ^ 64) < 0 \<or> 65534 < i32 (z mod 2 ^ 64)" using False assms(2) unfolding i32_of_u64 by auto
    with that [of "z mod 2 ^ 64"] False show thesis by (simp add: strtoul_decimal)
  qed
  moreover have "show_int z \<noteq> []" by (simp add: show_int_def)
  ultimately show ?thesis using assms(1) by (auto simp: set_ports_def xerrlog_exit)
qed

text \<open>A number in the range: the branch that \<^verbatim>\<open>set_ports\<close> takes.\<close>

lemma set_ports_in_range:
  assumes "\<not> (2 ^ 64 \<le> \<bar>z\<bar> \<or> 65534 < z mod 2 ^ 32)"
  shows "set_ports os (show_int z) ep s = (let s = s\<lparr>writep := Some (show_int z)\<rparr> in
    if z mod 2 ^ 32 = 0
    then (Return (0, [], []), (errlog os LOG_INFO ''port set to 0, monitoring disabled'' s)\<lparr>writep := None\<rparr>)
    else bind_p (set_forwards os (z mod 2 ^ 32) ep) (\<lambda>f. return_p (z mod 2 ^ 32, f)) s)"
proof -
  let ?wp = "z mod 2 ^ 32"
  have v: "strtoul 0 (show_int z) = (z mod 2 ^ 64, [])" "i32 (z mod 2 ^ 64) = ?wp"
    using assms unfolding strtoul_decimal i32_of_u64 by auto
  have "0 \<le> ?wp" by simp
  then have "\<not> (?wp > 65534 \<or> ?wp < 0)" "\<not> (show_int z = [] \<or> [] \<noteq> ([] :: string))"
    using assms by (auto simp: show_int_def)
  then show ?thesis unfolding set_ports_def v(1) by (simp only: Let_def prod.case v(2) if_False)
qed

lemma set_ports_off:
  assumes "\<not> (2 ^ 64 \<le> \<bar>z\<bar> \<or> 65534 < z mod 2 ^ 32)" "z mod 2 ^ 32 = 0"
  shows "\<exists>t. set_ports os (show_int z) ep s = (Return (0, [], []), t) \<and> writep t = None"
  unfolding set_ports_in_range [OF assms(1)] assms(2) by (simp add: Let_def)

lemma set_ports_on:
  assumes "\<not> (2 ^ 64 \<le> \<bar>z\<bar> \<or> 65534 < z mod 2 ^ 32)" "z mod 2 ^ 32 \<noteq> 0"
    and "length (mhost s) \<le> 235" "0 \<le> ep" "ep < 2 ^ 31"
  shows "\<exists>t. set_ports os (show_int z) ep s =
      (Return (z mod 2 ^ 32, forward_text (z mod 2 ^ 32) (mhost s) (if echop s = None then z mod 2 ^ 32 else ep),
         if echop s = None then forward_text (z mod 2 ^ 32) (mhost s) (z mod 2 ^ 32 + 1) else []), t) \<and>
    writep t = Some (show_int z) \<and> readp t = show_int (z mod 2 ^ 32 + 1)"
proof -
  let ?wp = "z mod 2 ^ 32" and ?u = "s\<lparr>writep := Some (show_int z)\<rparr>"
  have "0 \<le> ?wp" "?wp \<le> 65534" using assms(1) by simp_all
  then have F: "set_forwards os ?wp ep ?u =
      (Return (forward_text ?wp (mhost s) (if echop s = None then ?wp else ep),
         if echop s = None then forward_text ?wp (mhost s) (?wp + 1) else []), ?u\<lparr>readp := show_int (?wp + 1)\<rparr>)"
    using set_forwards_text [of ?u "nat ?wp" ep os] assms(3-5) by simp
  have "set_ports os (show_int z) ep s = bind_p (set_forwards os ?wp ep) (\<lambda>f. return_p (?wp, f)) ?u"
    unfolding set_ports_in_range [OF assms(1)] Let_def using assms(2) by (simp only: if_False)
  then show ?thesis unfolding bind_p_def F by (simp add: return_p_def)
qed

section \<open>Claims\<close>

text \<open>C20: However the program ends, it ends properly: with allocations that succeed and a \<^verbatim>\<open>getopt\<close>
  that only reorders its arguments, for every environment, command line, kernel, child and
  network, a run of the program from its initial state that ends does so with exit status 0 or 1
  or by the default action of a signal; no jump leaves the program, and no signal was ever sent to
  anything but a child that had not been collected yet.\<close>

theorem main_exit_status:
  assumes "\<And>n. al_calloc (mem h n) \<and> al_realloc (mem h n) \<and> al_malloc (mem h n)" "reorders h"
    and "length args < 2 ^ 28" "main h os args initial_proc = Some (r, t)"
  shows "(case r of Exit c \<Rightarrow> c = 0 \<or> c = 1 | Killed g \<Rightarrow> disp t g = SIG_DFL \<and> os_dfl_term os g | _ \<Rightarrow> False) \<and>
    sound (ledger_of os (trace t))"
proof -
  have "working_memory (mem h)" using assms(1) by unfold_locales simp_all
  from main_ends [OF this assms(2,3) fresh_initial assms(4)] show ?thesis by (simp add: books_def)
qed

text \<open>A host without variables on which \<^verbatim>\<open>getopt\<close> finds the version option.\<close>

definition version_host :: starter where
  "version_host = \<lparr>getenv = (\<lambda>_. None), fopen_append = (\<lambda>_. None),
     getopt = (\<lambda>argv. ([(CHR ''V'', None)], int (length argv), argv)), daemon = None, fopen_write = (\<lambda>_. None),
     pid_write = None, mem = (\<lambda>_. good_alloc)\<rparr>"

theorem main_exit_status_witness:
  "reorders version_host \<and>
   (\<exists>r t. main version_host idle_os [''autossh'', ''-V''] initial_proc = Some (r, t) \<and>
     (case r of Exit c \<Rightarrow> c = 0 \<or> c = 1 | Killed g \<Rightarrow> disp t g = SIG_DFL \<and> os_dfl_term idle_os g | _ \<Rightarrow> False) \<and>
     sound (ledger_of idle_os (trace t)))"
proof -
  have e: "\<exists>t. get_env_args version_host idle_os initial_proc = (Return (), t)"
    by (simp add: get_env_args_def version_host_def env_path_def env_loglevel_def env_poll_def env_first_poll_def
        env_gatetime_def env_maxstart_def env_message_def env_port_var_def env_maxlifetime_def env_max_session_def
        env_pidfile_def env_logfile_def then_p_def bind_p_def modify_p_def)
  then obtain u where u: "get_env_args version_host idle_os initial_proc = (Return (), u)" by blast
  have g: "getopt version_host argv = ([(CHR ''V'', None)], int (length argv), argv)" for argv
    by (simp add: version_host_def)
  obtain r t where run: "main version_host idle_os [''autossh'', ''-V''] initial_proc = Some (r, t)"
    by (auto simp: main_def autossh_main_def main_setup_def then_p_def u main_options_def g bind_p_def)
  have m: "mem version_host = (\<lambda>_. good_alloc)" by (simp add: version_host_def)
  have "reorders version_host" by (simp add: reorders_def g)
  moreover from main_exit_status [OF _ this _ run]
  have "(case r of Exit c \<Rightarrow> c = 0 \<or> c = 1 | Killed g \<Rightarrow> disp t g = SIG_DFL \<and> os_dfl_term idle_os g | _ \<Rightarrow> False) \<and>
      sound (ledger_of idle_os (trace t))"
    by (simp add: m good_alloc_def)
  ultimately show ?thesis using run by blast
qed

text \<open>C28: The network timeout of the monitor: for poll times up to 2147483 seconds it is the smaller of
  the default and half the poll time, and positive; from 2147484 to 4294966 seconds the
  32-bit product overflows and the timeout becomes negative, which
  makes the polls of the monitor wait without limit.\<close>

theorem net_timeout_adjusted:
  assumes "net_timeout s = TIMEO_NET_DEFAULT" "0 < poll_time s"
  shows "(poll_time s \<le> 2147483 \<longrightarrow>
      net_timeout (set_net_timeout os s) = min 15000 (500 * poll_time s) \<and> 0 < net_timeout (set_net_timeout os s)) \<and>
    (2147484 \<le> poll_time s \<and> poll_time s \<le> 4294966 \<longrightarrow> net_timeout (set_net_timeout os s) < 0)"
proof (intro conjI impI)
  assume p: "poll_time s \<le> 2147483"
  then have "i32 (poll_time s * 1000) = poll_time s * 1000" using assms by (simp add: in_i32_def)
  then have "net_timeout (set_net_timeout os s) = min 15000 (500 * poll_time s)"
    using assms by (simp add: set_net_timeout_sel tdiv_2 TIMEO_NET_DEFAULT_def)
  then show "net_timeout (set_net_timeout os s) = min 15000 (500 * poll_time s)" "0 < net_timeout (set_net_timeout os s)"
    using assms by simp_all
next
  assume p: "2147484 \<le> poll_time s \<and> poll_time s \<le> 4294966"
  have "i32 (poll_time s * 1000) = poll_time s * 1000 - 2 ^ 32"
  proof -
    have "(poll_time s * 1000 + 2 ^ 31) mod 2 ^ 32 = (poll_time s * 1000 + 2 ^ 31 - 2 ^ 32) mod 2 ^ 32"
      by (simp only: minus_mod_self2)
    also have "\<dots> = poll_time s * 1000 + 2 ^ 31 - 2 ^ 32" using p by (intro mod_pos_pos_trivial) simp_all
    finally show ?thesis by (simp add: i32_def)
  qed
  then have "tdiv (i32 (poll_time s * 1000)) 2 = - ((2 ^ 32 - poll_time s * 1000) div 2)" using p by (simp add: tdiv_neg)
  moreover have "1 \<le> (2 ^ 32 - poll_time s * 1000) div 2" using p by simp
  ultimately show "net_timeout (set_net_timeout os s) < 0" by (simp add: set_net_timeout_sel)
qed

theorem net_timeout_adjusted_witness:
  "net_timeout (set_net_timeout idle_os (initial_proc\<lparr>poll_time := 20\<rparr>)) = 10000 \<and>
   net_timeout (set_net_timeout idle_os (initial_proc\<lparr>poll_time := 2147484\<rparr>)) < 0"
  using net_timeout_adjusted [of "initial_proc\<lparr>poll_time := 20\<rparr>" idle_os]
    net_timeout_adjusted [of "initial_proc\<lparr>poll_time := 2147484\<rparr>" idle_os] by simp

text \<open>C27: Which monitor ports are accepted, and what they give. An empty argument and a number
  followed by anything but digits end the program with status 1. A decimal number \<open>z\<close> of either
  sign counts modulo \<open>2 ^ 32\<close> (a number of 64 bits or more is rejected): 0 turns the monitor off;
  1 to 65534 is accepted, the next port is the read port, and the forwarding strings name the
  port, the host and either the port and the next one or, when an echo port is set, the echo port
  alone; everything else ends the program with status 1.\<close>

theorem set_ports_decides:
  assumes "cchild s = 0" "length (mhost s) \<le> 235" "0 \<le> ep" "ep < 2 ^ 31"
  shows "fst (set_ports os [] ep s) = Exit 1 \<and>
    (0 < m \<and> 10 \<le> digit_val c \<longrightarrow> fst (set_ports os (show_nat m @ c # r) ep s) = Exit 1) \<and>
    (let wp = z mod 2 ^ 32 in
     if 2 ^ 64 \<le> \<bar>z\<bar> \<or> 65534 < wp then fst (set_ports os (show_int z) ep s) = Exit 1
     else if wp = 0 then \<exists>t. set_ports os (show_int z) ep s = (Return (0, [], []), t) \<and> writep t = None
     else \<exists>t. set_ports os (show_int z) ep s =
         (Return (wp, forward_text wp (mhost s) (if echop s = None then wp else ep),
            if echop s = None then forward_text wp (mhost s) (wp + 1) else []), t) \<and>
       writep t = Some (show_int z) \<and> readp t = show_int (wp + 1))"
proof (intro conjI impI)
  show "fst (set_ports os [] ep s) = Exit 1"
    using assms(1) by (simp add: set_ports_def xerrlog_exit split: prod.split)
  assume "0 < m \<and> 10 \<le> digit_val c"
  with strtoul_junk [of m c r] assms(1) show "fst (set_ports os (show_nat m @ c # r) ep s) = Exit 1"
    by (cases "strtoul 0 (show_nat m @ c # r)") (simp add: set_ports_def xerrlog_exit)
next
  show "let wp = z mod 2 ^ 32 in
     if 2 ^ 64 \<le> \<bar>z\<bar> \<or> 65534 < wp then fst (set_ports os (show_int z) ep s) = Exit 1
     else if wp = 0 then \<exists>t. set_ports os (show_int z) ep s = (Return (0, [], []), t) \<and> writep t = None
     else \<exists>t. set_ports os (show_int z) ep s =
         (Return (wp, forward_text wp (mhost s) (if echop s = None then wp else ep),
            if echop s = None then forward_text wp (mhost s) (wp + 1) else []), t) \<and>
       writep t = Some (show_int z) \<and> readp t = show_int (wp + 1)"
    using set_ports_rejected [OF assms(1), of z os ep] set_ports_off [of z os ep s]
      set_ports_on [OF _ _ assms(2-4), of z os] unfolding Let_def by presburger
qed

theorem set_ports_decides_witness:
  "(\<exists>t. set_ports idle_os (show_int 20000) 0 initial_proc =
      (Return (20000, forward_text 20000 ''127.0.0.1'' 20000, forward_text 20000 ''127.0.0.1'' 20001), t) \<and>
      readp t = show_int 20001) \<and>
   fst (set_ports idle_os (show_int 70000) 0 initial_proc) = Exit 1 \<and>
   fst (set_ports idle_os (show_int (-5)) 0 initial_proc) = Exit 1 \<and>
   fst (set_ports idle_os (show_nat 22 @ ''a'') 0 initial_proc) = Exit 1"
proof -
  have j: "10 \<le> digit_val (CHR ''a'')" by code_simp
  from set_ports_decides [of initial_proc 0 idle_os 22 "CHR ''a''" "[]" 20000]
    set_ports_decides [of initial_proc 0 idle_os 22 "CHR ''a''" "[]" 70000]
    set_ports_decides [of initial_proc 0 idle_os 22 "CHR ''a''" "[]" "-5"] j
  show ?thesis by (auto simp: Let_def)
qed

end
