(* ===== verification/Api.thy ===== *)
theory Api
  imports Startup
begin

text \<open>
  \<^verbatim>\<open>src/api.rs\<close>: the embeddable C interface. A session forks a supervisor that runs
  \<^verbatim>\<open>autossh_main\<close>; the host process starts, polls and stops it. Strings are C strings (\<open>None\<close> is a
  null pointer), ports are 16-bit values as integers. What the host's network and kernel answer is
  the parameter record \<open>api_os\<close>; failures carry the text of the error.
\<close>

section \<open>Configuration\<close>

abbreviation (input) AUTOSSH_SESSION_MONITOR_DISABLED :: int where "AUTOSSH_SESSION_MONITOR_DISABLED \<equiv> 1"
abbreviation (input) AUTOSSH_STATE_INIT :: int where "AUTOSSH_STATE_INIT \<equiv> 0"
abbreviation (input) AUTOSSH_STATE_STARTING :: int where "AUTOSSH_STATE_STARTING \<equiv> 1"
abbreviation (input) AUTOSSH_STATE_RUNNING :: int where "AUTOSSH_STATE_RUNNING \<equiv> 2"
abbreviation (input) AUTOSSH_STATE_EXITED :: int where "AUTOSSH_STATE_EXITED \<equiv> 3"
abbreviation (input) AUTOSSH_STATE_STOPPED :: int where "AUTOSSH_STATE_STOPPED \<equiv> 4"
abbreviation (input) AUTOSSH_STATE_ERROR :: int where "AUTOSSH_STATE_ERROR \<equiv> 5"

definition DEFAULT_BIND_HOST :: string where "DEFAULT_BIND_HOST = ''127.0.0.1''"
definition DEFAULT_TARGET_PORT :: int where "DEFAULT_TARGET_PORT = 22"
definition DEFAULT_START_TIMEOUT_MS :: int where "DEFAULT_START_TIMEOUT_MS = 15000"

record autossh_session_config =
  struct_size :: nat
  c_ssh_path :: cstr
  c_ssh_destination :: cstr
  c_target_host :: cstr
  c_target_port :: int
  c_bind_host :: cstr
  c_local_port :: int
  c_monitor_host :: cstr
  c_monitor_port :: int
  c_flags :: int
  c_poll_time :: int
  c_first_poll_time :: int
  c_gate_time :: rat
  c_max_start :: int
  c_max_session :: rat
  c_start_timeout_ms :: int
  c_extra_ssh_args :: "cstr list option"
  c_extra_ssh_args_len :: nat

record SessionConfig =
  sc_ssh_path :: cstr
  sc_ssh_destination :: string
  sc_target_host :: string
  sc_target_port :: int
  sc_bind_host :: string
  sc_local_port :: int
  sc_monitor_host :: cstr
  sc_monitor_port :: int
  sc_monitor_disabled :: bool
  sc_poll_time :: int
  sc_first_poll_time :: int
  sc_gate_time :: rat
  sc_max_start :: int
  sc_max_session :: rat
  sc_start_timeout_ms :: int
  sc_extra_ssh_args :: "string list"

text \<open>The size of the C structure on a 64-bit machine.\<close>

definition CONFIG_SIZE :: nat where "CONFIG_SIZE = 128"

definition default_config :: autossh_session_config where
  "default_config =
     \<lparr>struct_size = CONFIG_SIZE, c_ssh_path = None, c_ssh_destination = None, c_target_host = None,
      c_target_port = DEFAULT_TARGET_PORT, c_bind_host = None, c_local_port = 0, c_monitor_host = None,
      c_monitor_port = 0, c_flags = 0, c_poll_time = 0, c_first_poll_time = 0, c_gate_time = 0,
      c_max_start = -1, c_max_session = 0, c_start_timeout_ms = DEFAULT_START_TIMEOUT_MS,
      c_extra_ssh_args = None, c_extra_ssh_args_len = 0\<rparr>"

text \<open>Initialising through a pointer, which may be null.\<close>

definition autossh_session_config_init :: "autossh_session_config option \<Rightarrow> autossh_session_config option" where
  "autossh_session_config_init p = (case p of None \<Rightarrow> None | Some _ \<Rightarrow> Some default_config)"

definition optional_cstring :: "cstr \<Rightarrow> string \<Rightarrow> string + cstr" where
  "optional_cstring p field =
     (case p of
        None \<Rightarrow> Inr None
      | Some b \<Rightarrow> if NUL \<in> set b then Inl (field @ '' contains an interior NUL'') else Inr (Some b))"

definition required_cstring :: "cstr \<Rightarrow> string \<Rightarrow> string + string" where
  "required_cstring p field =
     and_then (optional_cstring p field) (\<lambda>r. case r of
       Some s \<Rightarrow> if s \<noteq> [] then Inr s else Inl (field @ '' is required'')
     | None \<Rightarrow> Inl (field @ '' is required''))"

definition string_from_cstring :: "string \<Rightarrow> string + string" where
  "string_from_cstring s = (if utf8_valid s then Inr s else Inl ''configuration contains non-UTF-8 text'')"

text \<open>The first \<open>n\<close> extra arguments; the caller hands over at least that many.\<close>

fun extra_args :: "cstr list \<Rightarrow> nat \<Rightarrow> string + string list" where
  "extra_args ps 0 = Inr []"
| "extra_args ps (Suc n) =
     and_then (required_cstring (hd ps) ''extra_ssh_args item'') (\<lambda>a.
       and_then (extra_args (tl ps) n) (\<lambda>as. Inr (a # as)))"

definition config_extra :: "autossh_session_config \<Rightarrow> string + string list" where
  "config_extra c =
     (if c_extra_ssh_args_len c > 0 then
        (case c_extra_ssh_args c of
           None \<Rightarrow> Inl ''extra_ssh_args is NULL''
         | Some ps \<Rightarrow> extra_args ps (c_extra_ssh_args_len c))
      else Inr [])"

definition parse_config :: "autossh_session_config option \<Rightarrow> string + SessionConfig" where
  "parse_config cfg =
     (case cfg of
        None \<Rightarrow> Inl ''config is NULL''
      | Some c \<Rightarrow>
          if struct_size c < CONFIG_SIZE then Inl ''config struct_size is too small''
          else and_then (required_cstring (c_ssh_destination c) ''ssh_destination'') (\<lambda>dest.
            and_then (required_cstring (c_target_host c) ''target_host'') (\<lambda>target.
            and_then (optional_cstring (c_bind_host c) ''bind_host'') (\<lambda>bind.
            and_then (optional_cstring (c_monitor_host c) ''monitor_host'') (\<lambda>mon.
            and_then (optional_cstring (c_ssh_path c) ''ssh_path'') (\<lambda>sshp.
            and_then (config_extra c) (\<lambda>extra.
              Inr \<lparr>sc_ssh_path = sshp, sc_ssh_destination = dest, sc_target_host = target,
                   sc_target_port = (if c_target_port c = 0 then DEFAULT_TARGET_PORT else c_target_port c),
                   sc_bind_host = (case bind of None \<Rightarrow> DEFAULT_BIND_HOST | Some b \<Rightarrow> b),
                   sc_local_port = c_local_port c, sc_monitor_host = mon, sc_monitor_port = c_monitor_port c,
                   sc_monitor_disabled = has_flag (c_flags c) AUTOSSH_SESSION_MONITOR_DISABLED,
                   sc_poll_time = c_poll_time c, sc_first_poll_time = c_first_poll_time c,
                   sc_gate_time = c_gate_time c, sc_max_start = c_max_start c, sc_max_session = c_max_session c,
                   sc_start_timeout_ms = (if c_start_timeout_ms c \<le> 0 then DEFAULT_START_TIMEOUT_MS
                                          else c_start_timeout_ms c),
                   sc_extra_ssh_args = extra\<rparr>)))))))"

section \<open>The supervisor's command line and environment\<close>

definition build_child_argv :: "SessionConfig \<Rightarrow> string + string list" where
  "build_child_argv c =
     and_then (string_from_cstring (sc_bind_host c)) (\<lambda>bind.
     and_then (string_from_cstring (sc_target_host c)) (\<lambda>target.
     and_then (string_from_cstring (sc_ssh_destination c)) (\<lambda>dest.
       Inr ([''autossh'', ''-M'', if sc_monitor_disabled c then ''0'' else show_int (sc_monitor_port c),
             ''-N'', ''-o'', ''ExitOnForwardFailure=yes'', ''-L'',
             bind @ '':'' @ show_int (sc_local_port c) @ '':'' @ target @ '':'' @ show_int (sc_target_port c)]
            @ sc_extra_ssh_args c @ [dest]))))"

text \<open>
  The variables that \<^verbatim>\<open>child_main\<close> sets over the inherited environment, in its order. The decimal
  form of a floating-point value is a parameter (\<open>fmt\<close>, Rust's \<^verbatim>\<open>Display\<close> for \<^verbatim>\<open>f64\<close>).
\<close>

definition set_if :: "bool \<Rightarrow> string \<Rightarrow> string \<Rightarrow> (string \<Rightarrow> cstr) \<Rightarrow> string \<Rightarrow> cstr" where
  "set_if b name v env = (if b then env(name := Some v) else env)"

definition child_env :: "(rat \<Rightarrow> string) \<Rightarrow> SessionConfig \<Rightarrow> (string \<Rightarrow> cstr) \<Rightarrow> string \<Rightarrow> cstr" where
  "child_env fmt c env0 =
     (let env = set_if (sc_ssh_path c \<noteq> None) ''AUTOSSH_PATH'' (the (sc_ssh_path c)) env0;
          env = set_if (sc_monitor_host c \<noteq> None) ''AUTOSSH_MHOST'' (the (sc_monitor_host c)) env;
          env = set_if (sc_poll_time c > 0) ''AUTOSSH_POLL'' (show_int (sc_poll_time c)) env;
          env = set_if (sc_first_poll_time c > 0) ''AUTOSSH_FIRST_POLL'' (show_int (sc_first_poll_time c)) env;
          env = set_if (sc_gate_time c \<ge> 0) ''AUTOSSH_GATETIME'' (fmt (sc_gate_time c)) env;
          env = set_if (sc_max_start c \<noteq> 0) ''AUTOSSH_MAXSTART'' (show_int (sc_max_start c)) env
      in set_if (sc_max_session c > 0) ''AUTOSSH_MAX_SESSION'' (fmt (sc_max_session c)) env)"

text \<open>The supervisor: it never returns to its caller, an unusable configuration is exit status 2.\<close>

definition child_main ::
  "(rat \<Rightarrow> string) \<Rightarrow> 'z starter_scheme \<Rightarrow> os \<Rightarrow> SessionConfig \<Rightarrow> proc \<Rightarrow> (int flow \<times> proc) option" where
  "child_main fmt h os c s =
     (case build_child_argv c of
        Inl _ \<Rightarrow> Some (Exit 2, s)
      | Inr argv \<Rightarrow>
          (case autossh_main (h\<lparr>getenv := child_env fmt c (getenv h)\<rparr>) os (map (\<lambda>a. a @ [NUL]) argv) s of
             Some (Return rc, t) \<Rightarrow> Some (Exit rc, t)
           | r \<Rightarrow> r))"

section \<open>Ports and the listener\<close>

text \<open>
  The host's answers: resolving a name to addresses (or the text of the error), the \<open>k\<close>-th bind to a local port (0 asks for a free one; the
  result is the port that was bound), reading back the port, the \<open>k\<close>-th poll of the supervisor
  (\<^verbatim>\<open>waitpid\<close> with its errno and status), the \<open>k\<close>-th connection attempt, the \<open>k\<close>-th reading of the
  clock in milliseconds, and the \<open>k\<close>-th fork.
\<close>

record api_os =
  ao_resolve :: "string \<Rightarrow> int \<Rightarrow> string + string list"
  ao_bind :: "nat \<Rightarrow> string + int"
  ao_local_addr :: "nat \<Rightarrow> string option"
  ao_waitpid :: "nat \<Rightarrow> int \<times> int \<times> int"
  ao_connect :: "nat \<Rightarrow> bool"
  ao_clock :: "nat \<Rightarrow> int"
  ao_fork :: "nat \<Rightarrow> int"

definition msg_resolve :: "string \<Rightarrow> int \<Rightarrow> string \<Rightarrow> string" where
  "msg_resolve host port e = ''resolve '' @ host @ '':'' @ show_int port @ '': '' @ e"

definition bind_addr :: "api_os \<Rightarrow> string \<Rightarrow> int \<Rightarrow> string + string" where
  "bind_addr ao host port =
     (case ao_resolve ao host port of
        Inl e \<Rightarrow> Inl (msg_resolve host port e)
      | Inr [] \<Rightarrow> Inl (msg_resolve host port ''no addresses'')
      | Inr (a # _) \<Rightarrow> Inr a)"

text \<open>Binding to a free port and reading it back, as the \<open>k\<close>-th bind.\<close>

definition bind_free :: "api_os \<Rightarrow> string \<Rightarrow> nat \<Rightarrow> string + int" where
  "bind_free ao host k =
     and_then (bind_addr ao host 0) (\<lambda>_.
       case ao_bind ao k of
         Inl e \<Rightarrow> Inl (''bind '' @ host @ '':0: '' @ e)
       | Inr p \<Rightarrow> (case ao_local_addr ao k of Some e \<Rightarrow> Inl (''read local address: '' @ e) | None \<Rightarrow> Inr p))"

definition reserve_port :: "api_os \<Rightarrow> string \<Rightarrow> nat \<Rightarrow> (string + int) \<times> nat" where
  "reserve_port ao host k = (bind_free ao host k, Suc k)"

text \<open>The loop by the number of rounds left; the state is the number of binds made.\<close>

fun reserve_loop :: "api_os \<Rightarrow> string \<Rightarrow> nat \<Rightarrow> nat \<Rightarrow> (string + int) \<times> nat" where
  "reserve_loop ao host 0 k = (Inl ''could not reserve adjacent monitor ports'', k)"
| "reserve_loop ao host (Suc n) k =
     (case bind_free ao host k of
        Inl e \<Rightarrow> (Inl e, Suc k)
      | Inr port \<Rightarrow>
          if port = 65535 then reserve_loop ao host n (Suc k)
          else (case bind_addr ao host (port + 1) of
             Inl e \<Rightarrow> (Inl e, Suc k)
           | Inr _ \<Rightarrow>
               (case ao_bind ao (Suc k) of
                  Inr _ \<Rightarrow> (Inr port, Suc (Suc k))
                | Inl _ \<Rightarrow> reserve_loop ao host n (Suc (Suc k)))))"

definition reserve_monitor_port :: "api_os \<Rightarrow> string \<Rightarrow> nat \<Rightarrow> (string + int) \<times> nat" where
  "reserve_monitor_port ao host k = reserve_loop ao host 64 k"

section \<open>Sessions\<close>

text \<open>A signal sent to the supervisor, or its last blocking wait.\<close>

datatype api_effect = ApiKill int int | ApiWait int | ApiSleep int

record autossh_session =
  ss_config :: SessionConfig
  ss_pid :: int
  ss_state :: int
  ss_last_error :: string
  api_trace :: "api_effect list"
  k_bind :: nat
  k_wait :: nat
  k_conn :: nat
  k_clock :: nat
  k_fork :: nat

definition api_emit :: "api_effect \<Rightarrow> autossh_session \<Rightarrow> autossh_session" where
  "api_emit e s = s\<lparr>api_trace := api_trace s @ [e]\<rparr>"

definition kill_pid :: "int \<Rightarrow> int \<Rightarrow> autossh_session \<Rightarrow> autossh_session" where
  "kill_pid pid signal s = (if pid \<le> 0 then s else api_emit (ApiKill pid signal) s)"

definition set_error :: "string \<Rightarrow> autossh_session \<Rightarrow> int \<times> autossh_session" where
  "set_error m s =
     (-1, s\<lparr>ss_state := AUTOSSH_STATE_ERROR,
            ss_last_error := if NUL \<in> set m then ''error message contains an interior NUL'' else m\<rparr>)"

definition autossh_session_new :: "autossh_session_config option \<Rightarrow> autossh_session option" where
  "autossh_session_new cfg =
     (case parse_config cfg of
        Inl _ \<Rightarrow> None
      | Inr c \<Rightarrow> Some \<lparr>ss_config = c, ss_pid = 0, ss_state = AUTOSSH_STATE_INIT, ss_last_error = [],
          api_trace = [], k_bind = 0, k_wait = 0, k_conn = 0, k_clock = 0, k_fork = 0\<rparr>)"

definition child_exited :: "api_os \<Rightarrow> int \<Rightarrow> autossh_session \<Rightarrow> int option \<times> autossh_session" where
  "child_exited ao pid s =
     (let (rc, e, status) = ao_waitpid ao (k_wait s)
      in (if rc = pid then Some status else None, s\<lparr>k_wait := Suc (k_wait s)\<rparr>))"

text \<open>Stopping: the polls of the grace period by the number left; \<open>True\<close> when the supervisor is gone.\<close>

fun stop_polls :: "api_os \<Rightarrow> nat \<Rightarrow> int \<Rightarrow> autossh_session \<Rightarrow> bool \<times> autossh_session" where
  "stop_polls ao 0 pid s = (False, s)"
| "stop_polls ao (Suc n) pid s =
     (let (rc, e, status) = ao_waitpid ao (k_wait s);
          s = s\<lparr>k_wait := Suc (k_wait s)\<rparr>
      in if rc = pid \<or> (rc = -1 \<and> e = ECHILD) then (True, s)
         else stop_polls ao n pid (api_emit (ApiSleep 100) s))"

definition autossh_session_stop :: "api_os \<Rightarrow> autossh_session \<Rightarrow> int \<times> autossh_session" where
  "autossh_session_stop ao s0 =
     (let pid = ss_pid s0; s = s0\<lparr>ss_pid := 0\<rparr> in
      if pid \<le> 0 then (0, s\<lparr>ss_state := AUTOSSH_STATE_STOPPED\<rparr>)
      else let (reaped, s) = stop_polls ao 50 pid (kill_pid pid SIGTERM s) in
        if reaped then (0, s\<lparr>ss_state := AUTOSSH_STATE_STOPPED\<rparr>)
        else (0, (api_emit (ApiWait pid) (kill_pid pid SIGKILL s))\<lparr>ss_state := AUTOSSH_STATE_STOPPED\<rparr>))"

definition autossh_session_state :: "api_os \<Rightarrow> autossh_session \<Rightarrow> int \<times> autossh_session" where
  "autossh_session_state ao s0 =
     (let pid = ss_pid s0 in
      if pid > 0 then
        (case child_exited ao pid s0 of
           (Some _, s) \<Rightarrow> (AUTOSSH_STATE_EXITED, s\<lparr>ss_pid := 0, ss_state := AUTOSSH_STATE_EXITED\<rparr>)
         | (None, s) \<Rightarrow> (ss_state s, s))
      else (ss_state s0, s0))"

text \<open>Waiting for the listener: the loop until the deadline; \<open>None\<close> is a loop that never ends.\<close>

definition msg_early :: "int \<Rightarrow> string" where
  "msg_early status = ''autossh supervisor exited early with status '' @ show_int status"

definition msg_timed_out :: "string \<Rightarrow> int \<Rightarrow> string" where
  "msg_timed_out host port = ''timed out waiting for local tunnel listener on '' @ host @ '':'' @ show_int port"

partial_function (option) listen_loop ::
  "api_os \<Rightarrow> int \<Rightarrow> autossh_session \<Rightarrow> ((string + unit) \<times> autossh_session) option" where
  "listen_loop ao deadline s0 =
     (let t = ao_clock ao (k_clock s0); s = s0\<lparr>k_clock := Suc (k_clock s0)\<rparr> in
      if t < deadline then
        (case child_exited ao (ss_pid s) s of
           (Some status, s) \<Rightarrow> Some (Inl (msg_early status), s)
         | (None, s) \<Rightarrow>
             if ao_connect ao (k_conn s) then Some (Inr (), s\<lparr>k_conn := Suc (k_conn s)\<rparr>)
             else listen_loop ao deadline (api_emit (ApiSleep 100) (s\<lparr>k_conn := Suc (k_conn s)\<rparr>)))
      else Some (Inl (msg_timed_out (sc_bind_host (ss_config s)) (sc_local_port (ss_config s))), s))"

definition wait_for_listener :: "api_os \<Rightarrow> autossh_session \<Rightarrow> ((string + unit) \<times> autossh_session) option" where
  "wait_for_listener ao s =
     (case and_then (string_from_cstring (sc_bind_host (ss_config s)))
             (\<lambda>host. bind_addr ao host (sc_local_port (ss_config s))) of
        Inl e \<Rightarrow> Some (Inl e, s)
      | Inr _ \<Rightarrow>
          listen_loop ao (ao_clock ao (k_clock s) + sc_start_timeout_ms (ss_config s)) (s\<lparr>k_clock := Suc (k_clock s)\<rparr>))"

definition reserve_ports :: "api_os \<Rightarrow> string \<Rightarrow> autossh_session \<Rightarrow> (string + unit) \<times> autossh_session" where
  "reserve_ports ao host s0 =
     (let (r, s) =
        (if sc_local_port (ss_config s0) = 0 then
           (case reserve_port ao host (k_bind s0) of
              (Inl e, k) \<Rightarrow> (Inl e, s0\<lparr>k_bind := k\<rparr>)
            | (Inr p, k) \<Rightarrow> (Inr (), s0\<lparr>k_bind := k, ss_config := (ss_config s0)\<lparr>sc_local_port := p\<rparr>\<rparr>))
         else (Inr (), s0))
      in case r of
           Inl e \<Rightarrow> (Inl e, s)
         | Inr _ \<Rightarrow>
             if \<not> sc_monitor_disabled (ss_config s) \<and> sc_monitor_port (ss_config s) = 0 then
               (case reserve_monitor_port ao host (k_bind s) of
                  (Inl e, k) \<Rightarrow> (Inl e, s\<lparr>k_bind := k\<rparr>)
                | (Inr p, k) \<Rightarrow> (Inr (), s\<lparr>k_bind := k, ss_config := (ss_config s)\<lparr>sc_monitor_port := p\<rparr>\<rparr>))
             else (Inr (), s))"

text \<open>Starting, in the host process: the child's side of the fork is \<open>child_main\<close>.\<close>

definition start_fork :: "api_os \<Rightarrow> autossh_session \<Rightarrow> (int \<times> autossh_session) option" where
  "start_fork ao s0 =
     (let pid = ao_fork ao (k_fork s0); s = s0\<lparr>ss_state := AUTOSSH_STATE_STARTING, k_fork := Suc (k_fork s0)\<rparr> in
      if pid < 0 then Some (set_error ''fork failed'' s)
      else case wait_for_listener ao (s\<lparr>ss_pid := pid\<rparr>) of
        None \<Rightarrow> None
      | Some (Inr _, s) \<Rightarrow> Some (0, s\<lparr>ss_state := AUTOSSH_STATE_RUNNING, ss_last_error := []\<rparr>)
      | Some (Inl e, s) \<Rightarrow> Some (set_error e (snd (autossh_session_stop ao s))))"

definition autossh_session_start :: "api_os \<Rightarrow> autossh_session \<Rightarrow> (int \<times> autossh_session) option" where
  "autossh_session_start ao s0 =
     (if ss_pid s0 > 0 then Some (set_error ''session is already started'' s0)
      else case string_from_cstring (sc_bind_host (ss_config s0)) of
        Inl e \<Rightarrow> Some (set_error e s0)
      | Inr host \<Rightarrow>
          (case reserve_ports ao host s0 of
             (Inl e, s) \<Rightarrow> Some (set_error e s)
           | (Inr _, s) \<Rightarrow> start_fork ao s))"

definition autossh_session_free :: "api_os \<Rightarrow> autossh_session \<Rightarrow> autossh_session" where
  "autossh_session_free ao s = snd (autossh_session_stop ao s)"

section \<open>The exported functions\<close>

text \<open>The entry points take a pointer: null is answered at once, otherwise the session behind it changes.\<close>

definition with_session :: "'r \<Rightarrow> autossh_session option \<Rightarrow> (autossh_session \<Rightarrow> 'r \<times> autossh_session) \<Rightarrow> 'r \<times> autossh_session option" where
  "with_session null p f = (case p of None \<Rightarrow> (null, None) | Some s \<Rightarrow> (case f s of (r, t) \<Rightarrow> (r, Some t)))"

definition start_ptr :: "api_os \<Rightarrow> autossh_session option \<Rightarrow> (int \<times> autossh_session option) option" where
  "start_ptr ao p =
     (case p of
        None \<Rightarrow> Some (-1, None)
      | Some s \<Rightarrow> map_option (\<lambda>(r, t). (r, Some t)) (autossh_session_start ao s))"

definition stop_ptr :: "api_os \<Rightarrow> autossh_session option \<Rightarrow> int \<times> autossh_session option" where
  "stop_ptr ao p = with_session (-1) p (autossh_session_stop ao)"

definition state_ptr :: "api_os \<Rightarrow> autossh_session option \<Rightarrow> int \<times> autossh_session option" where
  "state_ptr ao p = with_session AUTOSSH_STATE_ERROR p (autossh_session_state ao)"

definition free_ptr :: "api_os \<Rightarrow> autossh_session option \<Rightarrow> autossh_session option" where
  "free_ptr ao p = map_option (autossh_session_free ao) p"

definition autossh_session_pid :: "autossh_session option \<Rightarrow> int" where
  "autossh_session_pid s = (case s of None \<Rightarrow> 0 | Some x \<Rightarrow> ss_pid x)"

definition autossh_session_local_port :: "autossh_session option \<Rightarrow> int" where
  "autossh_session_local_port s = (case s of None \<Rightarrow> 0 | Some x \<Rightarrow> sc_local_port (ss_config x))"

definition autossh_session_bind_host :: "autossh_session option \<Rightarrow> cstr" where
  "autossh_session_bind_host s = map_option (\<lambda>x. sc_bind_host (ss_config x)) s"

definition autossh_session_last_error :: "autossh_session option \<Rightarrow> cstr" where
  "autossh_session_last_error s = map_option ss_last_error s"

end
