(* ===== verification/Session.thy ===== *)
theory Session
  imports Api
begin

text \<open>
  What a session of \<^verbatim>\<open>src/api.rs\<close> asks of its supervisor. The configuration travels as text, in the
  environment and on a command line, and is read back by \<^verbatim>\<open>src/env.rs\<close> and \<^verbatim>\<open>src/main_logic.rs\<close>; the
  claims here join the two sides. The decimal form of a whole floating-point value is that of the
  integer: this is the documented behaviour of Rust's \<^verbatim>\<open>Display\<close> and the one law asked of \<open>fmt\<close>.
\<close>

section \<open>Configurations without NUL\<close>







section \<open>Settings through the environment\<close>

text \<open>The settings a configuration asks for, over those of a fresh process.\<close>

definition asked :: "SessionConfig \<Rightarrow> proc \<Rightarrow> proc" where
  "asked c s =
     (let poll = (if sc_poll_time c > 0 then sc_poll_time c else poll_time s) in
      s\<lparr>ssh_path := (case sc_ssh_path c of None \<Rightarrow> ssh_path s | Some p \<Rightarrow> p),
        poll_time := poll,
        first_poll_time := (if sc_first_poll_time c > 0 then sc_first_poll_time c else poll),
        gate_time := sc_gate_time c,
        max_start := (if sc_max_start c \<noteq> 0 then sc_max_start c else max_start s),
        max_session := (if sc_max_session c > 0 then sc_max_session c else max_session s)\<rparr>)"

definition whole :: "rat \<Rightarrow> bool" where
  "whole x \<longleftrightarrow> (\<exists>n :: nat. n \<le> 2 ^ 53 \<and> x = of_nat n)"

lemma child_env_other:
  "name \<notin> {''AUTOSSH_PATH'', ''AUTOSSH_MHOST'', ''AUTOSSH_POLL'', ''AUTOSSH_FIRST_POLL'', ''AUTOSSH_GATETIME'',
     ''AUTOSSH_MAXSTART'', ''AUTOSSH_MAX_SESSION''} \<Longrightarrow> child_env fmt c env name = env name"
  by (auto simp: child_env_def set_if_def Let_def)

lemma child_env_sets:
  "child_env fmt c env ''AUTOSSH_PATH'' = (if sc_ssh_path c \<noteq> None then sc_ssh_path c else env ''AUTOSSH_PATH'')"
  "child_env fmt c env ''AUTOSSH_POLL'' = (if sc_poll_time c > 0 then Some (show_int (sc_poll_time c)) else env ''AUTOSSH_POLL'')"
  "child_env fmt c env ''AUTOSSH_FIRST_POLL'' =
     (if sc_first_poll_time c > 0 then Some (show_int (sc_first_poll_time c)) else env ''AUTOSSH_FIRST_POLL'')"
  "child_env fmt c env ''AUTOSSH_GATETIME'' = (if sc_gate_time c \<ge> 0 then Some (fmt (sc_gate_time c)) else env ''AUTOSSH_GATETIME'')"
  "child_env fmt c env ''AUTOSSH_MAXSTART'' = (if sc_max_start c \<noteq> 0 then Some (show_int (sc_max_start c)) else env ''AUTOSSH_MAXSTART'')"
  "child_env fmt c env ''AUTOSSH_MAX_SESSION'' = (if sc_max_session c > 0 then Some (fmt (sc_max_session c)) else env ''AUTOSSH_MAX_SESSION'')"
  by (auto simp: child_env_def set_if_def Let_def)

lemma show_int_pos: "0 \<le> i \<Longrightarrow> show_int i = show_nat (nat i)"
  by (simp add: show_int_def)

lemma show_int_not_Nil [simp]: "show_int i \<noteq> []"
  by (simp add: show_int_def)

lemma strtoul_show_int: "0 \<le> i \<Longrightarrow> in_i32 i \<Longrightarrow> strtoul 0 (show_int i) = (i, [])"
  using strtoul_show_nat [of "nat i"] by (simp add: show_int_pos in_i32_def)

lemma strtol_show_int: "-1 \<le> i \<Longrightarrow> in_i32 i \<Longrightarrow> strtol 0 (show_int i) = (i, [])"
proof (cases "0 \<le> i")
  case True
  moreover assume "in_i32 i"
  ultimately show ?thesis using strtol_show_nat [of "nat i"] by (simp add: show_int_pos in_i32_def)
next
  case False
  moreover assume "-1 \<le> i"
  ultimately have "i = -1" by simp
  moreover have "strtol 0 (show_int (-1)) = (-1, [])" by code_simp
  ultimately show ?thesis by simp
qed

lemma poll_value_id: "0 < i \<Longrightarrow> in_i32 i \<Longrightarrow> poll_value i = i"
  by (simp add: poll_value_def i32_id)

lemma whole_ul:
  assumes "\<And>n. fmt (of_nat n) = show_nat n" "whole x"
  shows "\<exists>v. strtoul 0 (fmt x) = (v, []) \<and> strtol 0 (fmt x) = (v, []) \<and> f64_of_int v = x \<and> fmt x \<noteq> []"
proof -
  obtain n :: nat where n: "n \<le> 2 ^ 53" "x = of_nat n" using assms(2) by (auto simp: whole_def)
  then have "f64_of_int (int n) = x" using f64_of_int_exact [of "int n"] by simp
  with n strtoul_show_nat [of n] strtol_show_nat [of n] assms(1) [of n] show ?thesis by auto
qed

definition sound_config :: "SessionConfig \<Rightarrow> bool" where
  "sound_config c \<longleftrightarrow> in_i32 (sc_poll_time c) \<and> in_i32 (sc_first_poll_time c) \<and> in_i32 (sc_max_start c) \<and>
     -1 \<le> sc_max_start c \<and> whole (sc_gate_time c) \<and> whole (sc_max_session c)"

text \<open>Each block of \<^verbatim>\<open>get_env_args\<close> on the environment of the child.\<close>

definition child :: "(rat \<Rightarrow> string) \<Rightarrow> SessionConfig \<Rightarrow> 'z host_scheme \<Rightarrow> 'z host_scheme" where
  "child fmt c h = h\<lparr>getenv := child_env fmt c (getenv h)\<rparr>"

definition sound_child :: "(rat \<Rightarrow> string) \<Rightarrow> SessionConfig \<Rightarrow> 'z host_scheme \<Rightarrow> bool" where
  "sound_child fmt c h \<longleftrightarrow> (\<forall>n :: nat. fmt (of_nat n) = show_nat n) \<and> sound_config c \<and>
     (\<forall>name. prefix ''AUTOSSH_'' name \<longrightarrow> getenv h name = None)"

lemma child_getenv [simp]: "getenv (child fmt c h) name = child_env fmt c (getenv h) name"
  by (simp add: child_def)

lemma unset_vars:
  assumes "sound_child fmt c h"
  shows "getenv h ''AUTOSSH_PATH'' = None" "getenv h ''AUTOSSH_DEBUG'' = None" "getenv h ''AUTOSSH_LOGLEVEL'' = None"
    "getenv h ''AUTOSSH_POLL'' = None" "getenv h ''AUTOSSH_FIRST_POLL'' = None" "getenv h ''AUTOSSH_GATETIME'' = None"
    "getenv h ''AUTOSSH_MAXSTART'' = None" "getenv h ''AUTOSSH_MESSAGE'' = None" "getenv h ''AUTOSSH_PORT'' = None"
    "getenv h ''AUTOSSH_MAXLIFETIME'' = None" "getenv h ''AUTOSSH_MAX_SESSION'' = None"
    "getenv h ''AUTOSSH_PIDFILE'' = None" "getenv h ''AUTOSSH_LOGFILE'' = None"
  using assms by (simp_all add: sound_child_def)

lemmas blocks = child_env_sets child_env_other unset_vars parse_ul_def parse_l_def is_empty_cstr_def
  strtoul_show_int strtol_show_int poll_value_id

lemma blocks_unset:
  assumes "sound_child fmt c h"
  shows "env_loglevel (child fmt c h) os s = (Return (), s)" "env_message (child fmt c h) os s = (Return (), s)"
    "env_port_var (child fmt c h) s = s" "env_maxlifetime (child fmt c h) os s = (Return (), s)"
    "env_pidfile (child fmt c h) s = s" "env_logfile (child fmt c h) os s = (Return (), s)"
  using assms by (simp_all add: env_loglevel_def env_message_def env_port_var_def env_maxlifetime_def env_pidfile_def
      env_logfile_def blocks)

lemma blocks_int:
  assumes "sound_child fmt c h"
  shows "env_path (child fmt c h) s = s\<lparr>ssh_path := (case sc_ssh_path c of None \<Rightarrow> ssh_path s | Some p \<Rightarrow> p)\<rparr>"
    "env_poll (child fmt c h) os s =
       (Return (), s\<lparr>poll_time := if sc_poll_time c > 0 then sc_poll_time c else poll_time s\<rparr>)"
    "env_first_poll (child fmt c h) os s =
       (Return (), s\<lparr>first_poll_time := if sc_first_poll_time c > 0 then sc_first_poll_time c else poll_time s\<rparr>)"
    "env_maxstart (child fmt c h) os s =
       (Return (), s\<lparr>max_start := if sc_max_start c \<noteq> 0 then sc_max_start c else max_start s\<rparr>)"
proof -
  have c: "sound_config c" using assms by (simp add: sound_child_def)
  show "env_path (child fmt c h) s = s\<lparr>ssh_path := (case sc_ssh_path c of None \<Rightarrow> ssh_path s | Some p \<Rightarrow> p)\<rparr>"
    using assms by (simp add: env_path_def blocks split: option.split)
  show "env_poll (child fmt c h) os s =
       (Return (), s\<lparr>poll_time := if sc_poll_time c > 0 then sc_poll_time c else poll_time s\<rparr>)"
    using assms c by (simp add: env_poll_def blocks sound_config_def)
  show "env_first_poll (child fmt c h) os s =
       (Return (), s\<lparr>first_poll_time := if sc_first_poll_time c > 0 then sc_first_poll_time c else poll_time s\<rparr>)"
    using assms c by (simp add: env_first_poll_def blocks sound_config_def)
  show "env_maxstart (child fmt c h) os s =
       (Return (), s\<lparr>max_start := if sc_max_start c \<noteq> 0 then sc_max_start c else max_start s\<rparr>)"
    using assms c by (simp add: env_maxstart_def blocks sound_config_def)
qed

lemma whole_nonneg: "whole x \<Longrightarrow> 0 \<le> x"
  by (auto simp: whole_def)

lemma blocks_float:
  assumes "sound_child fmt c h"
  shows "env_gatetime (child fmt c h) os s = (Return (), s\<lparr>gate_time := sc_gate_time c\<rparr>)"
    "env_max_session (child fmt c h) os s =
       (Return (), s\<lparr>max_session := if sc_max_session c > 0 then sc_max_session c else max_session s\<rparr>)"
proof -
  have w: "whole (sc_gate_time c)" "whole (sc_max_session c)" and f: "\<And>n. fmt (of_nat n) = show_nat n"
    using assms by (simp_all add: sound_child_def sound_config_def)
  show "env_gatetime (child fmt c h) os s = (Return (), s\<lparr>gate_time := sc_gate_time c\<rparr>)"
    using assms whole_ul [OF f w(1)] whole_nonneg [OF w(1)] by (auto simp: env_gatetime_def blocks)
  show "env_max_session (child fmt c h) os s =
      (Return (), s\<lparr>max_session := if sc_max_session c > 0 then sc_max_session c else max_session s\<rparr>)"
    using assms whole_ul [OF f w(2)] by (auto simp: env_max_session_def blocks)
qed

lemma child_settings: "sound_child fmt c h \<Longrightarrow> get_env_args (child fmt c h) os s = (Return (), asked c s)"
  by (simp add: get_env_args_def modify_p_def asked_def Let_def blocks_unset blocks_int blocks_float)

section \<open>The forwarding on the command line\<close>







lemma show_int_NUL: "NUL \<notin> set (show_int i)"
  using show_int_ascii(1) [of NUL i] by auto



section \<open>The life of a session\<close>

definition api_kills :: "autossh_session \<Rightarrow> (int \<times> int) list" where
  "api_kills s = [(p, g). ApiKill p g \<leftarrow> api_trace s]"

definition api_slept :: "autossh_session \<Rightarrow> int" where
  "api_slept s = sum_list [n. ApiSleep n \<leftarrow> api_trace s]"

text \<open>\<open>undisturbed s t\<close>: on the way from \<open>s\<close> to \<open>t\<close> no signal was sent and the supervisor did not change.\<close>

definition undisturbed :: "autossh_session \<Rightarrow> autossh_session \<Rightarrow> bool" where
  "undisturbed s t \<longleftrightarrow> api_kills t = api_kills s \<and> ss_pid t = ss_pid s \<and> ss_config t = ss_config s \<and> k_fork t = k_fork s"

lemma api_trace_simps [simp]:
  "api_kills (api_emit e s) = api_kills s @ (case e of ApiKill p g \<Rightarrow> [(p, g)] | _ \<Rightarrow> [])"
  "api_slept (api_emit e s) = api_slept s + (case e of ApiSleep n \<Rightarrow> n | _ \<Rightarrow> 0)"
  by (simp_all add: api_kills_def api_slept_def api_emit_def split: api_effect.split)

lemma api_trace_upd [simp]:
  "api_kills (s\<lparr>ss_pid := p\<rparr>) = api_kills s" "api_slept (s\<lparr>ss_pid := p\<rparr>) = api_slept s"
  "api_kills (s\<lparr>ss_state := p\<rparr>) = api_kills s" "api_slept (s\<lparr>ss_state := p\<rparr>) = api_slept s"
  "api_kills (s\<lparr>ss_config := c\<rparr>) = api_kills s" "api_kills (s\<lparr>ss_last_error := e\<rparr>) = api_kills s"
  "api_kills (s\<lparr>k_wait := n\<rparr>) = api_kills s" "api_slept (s\<lparr>k_wait := n\<rparr>) = api_slept s"
  "api_kills (s\<lparr>k_conn := n\<rparr>) = api_kills s" "api_kills (s\<lparr>k_clock := n\<rparr>) = api_kills s"
  "api_kills (s\<lparr>k_bind := n\<rparr>) = api_kills s" "api_kills (s\<lparr>k_fork := n\<rparr>) = api_kills s"
  by (simp_all add: api_kills_def api_slept_def)

lemma api_emit_upd [simp]:
  "ss_pid (api_emit e s) = ss_pid s" "ss_config (api_emit e s) = ss_config s" "k_fork (api_emit e s) = k_fork s"
  "k_wait (api_emit e s) = k_wait s" "k_clock (api_emit e s) = k_clock s" "ss_state (api_emit e s) = ss_state s"
  by (simp_all add: api_emit_def)

lemma kill_pid_sends: "0 < p \<Longrightarrow> kill_pid p g s = api_emit (ApiKill p g) s"
  by (simp add: kill_pid_def)

text \<open>The answer that ends a stop, and the first poll that gets it.\<close>

definition absent :: "api_os \<Rightarrow> int \<Rightarrow> nat \<Rightarrow> bool" where
  "absent ao p k \<longleftrightarrow> fst (ao_waitpid ao k) = p \<or> fst (ao_waitpid ao k) = -1 \<and> fst (snd (ao_waitpid ao k)) = ECHILD"

lemma stop_polls_runs:
  "\<exists>t. stop_polls ao n p s = (\<exists>i < n. absent ao p (k_wait s + i), t) \<and> api_kills t = api_kills s \<and>
    ss_pid t = ss_pid s \<and> ss_config t = ss_config s \<and> k_fork t = k_fork s \<and>
    api_slept s \<le> api_slept t \<and> api_slept t \<le> api_slept s + 100 * int n"
proof (induction n arbitrary: s)
  case (Suc n)
  obtain rc e st where w: "ao_waitpid ao (k_wait s) = (rc, e, st)" by (metis prod_cases3)
  show ?case
  proof (cases "absent ao p (k_wait s)")
    case True
    then have "\<exists>i < Suc n. absent ao p (k_wait s + i)" by (intro exI [of _ 0]) simp
    then show ?thesis using True w by (simp add: absent_def Let_def)
  next
    case False
    let ?s = "api_emit (ApiSleep 100) (s\<lparr>k_wait := Suc (k_wait s)\<rparr>)"
    have "(\<exists>i < Suc n. absent ao p (k_wait s + i)) \<longleftrightarrow> (\<exists>i < n. absent ao p (k_wait ?s + i))"
      using False by (simp add: Ex_less_Suc2)
    moreover have "stop_polls ao (Suc n) p s = stop_polls ao n p ?s" using False w by (auto simp: absent_def Let_def)
    ultimately show ?thesis using Suc.IH [of ?s] by force
  qed
qed simp

text \<open>What a stop does to a session that has a supervisor.\<close>

lemma session_stop_runs:
  assumes "0 < ss_pid s"
  shows "\<exists>t. autossh_session_stop ao s = (0, t) \<and> ss_pid t = 0 \<and> ss_state t = AUTOSSH_STATE_STOPPED \<and>
    ss_config t = ss_config s \<and> k_fork t = k_fork s \<and>
    api_kills t = api_kills s @ (ss_pid s, SIGTERM) #
      (if \<exists>i < 50. absent ao (ss_pid s) (k_wait s + i) then [] else [(ss_pid s, SIGKILL)]) \<and>
    api_slept t \<le> api_slept s + 5000"
proof -
  let ?s = "kill_pid (ss_pid s) SIGTERM (s\<lparr>ss_pid := 0\<rparr>)"
  have s: "?s = api_emit (ApiKill (ss_pid s) SIGTERM) (s\<lparr>ss_pid := 0\<rparr>)" using assms by (rule kill_pid_sends)
  obtain t where "stop_polls ao 50 (ss_pid s) ?s = (\<exists>i < 50. absent ao (ss_pid s) (k_wait ?s + i), t)"
    "api_kills t = api_kills ?s" "ss_pid t = ss_pid ?s" "ss_config t = ss_config ?s" "k_fork t = k_fork ?s"
    "api_slept t \<le> api_slept ?s + 100 * int 50"
    using stop_polls_runs [of ao 50 "ss_pid s" ?s] by blast
  then show ?thesis using assms s by (auto simp: autossh_session_stop_def Let_def kill_pid_sends)
qed

lemma listen_loop_ends:
  "deadline \<le> ao_clock ao k \<Longrightarrow> k_clock s \<le> k \<Longrightarrow> \<exists>r t. listen_loop ao deadline s = Some (r, t) \<and> undisturbed s t"
proof (induction "k - k_clock s" arbitrary: s)
  case 0
  then show ?case by (subst listen_loop.simps) (auto simp: Let_def undisturbed_def)
next
  case (Suc d)
  let ?s = "s\<lparr>k_clock := Suc (k_clock s), k_wait := Suc (k_wait s)\<rparr>"
  let ?t = "api_emit (ApiSleep 100) (?s\<lparr>k_conn := Suc (k_conn s)\<rparr>)"
  have "d = k - k_clock ?t" "k_clock ?t \<le> k" using Suc.hyps(2) Suc.prems by simp_all
  from Suc.hyps(1) [OF this(1) Suc.prems(1) this(2)] obtain r t where "listen_loop ao deadline ?t = Some (r, t)" "undisturbed ?t t" by blast
  then show ?case
    by (subst listen_loop.simps) (auto simp: Let_def undisturbed_def child_exited_def split: prod.split)
qed

lemma wait_for_listener_ends:
  assumes "\<And>d n. \<exists>k \<ge> n. d \<le> ao_clock ao k"
  shows "\<exists>r t. wait_for_listener ao s = Some (r, t) \<and> undisturbed s t"
proof -
  let ?d = "ao_clock ao (k_clock s) + sc_start_timeout_ms (ss_config s)" and ?s = "s\<lparr>k_clock := Suc (k_clock s)\<rparr>"
  obtain k where "Suc (k_clock s) \<le> k" "?d \<le> ao_clock ao k" using assms by blast
  then obtain r t where "listen_loop ao ?d ?s = Some (r, t)" "undisturbed ?s t" using listen_loop_ends [of ?d ao k ?s] by auto
  then show ?thesis by (auto simp: wait_for_listener_def undisturbed_def split: sum.split)
qed

lemma reserve_ports_frame:
  "\<exists>r t. reserve_ports ao host s = (r, t) \<and> ss_pid t = ss_pid s \<and> api_kills t = api_kills s \<and> k_fork t = k_fork s"
  by (auto simp: reserve_ports_def Let_def split: prod.split sum.split)

lemma set_error_result:
  "\<exists>t. set_error m s = (-1, t) \<and> ss_state t = AUTOSSH_STATE_ERROR \<and> ss_pid t = ss_pid s \<and> api_kills t = api_kills s \<and>
     k_fork t = k_fork s"
  by (simp add: set_error_def)

text \<open>How a start may end: with a running supervisor; with an error before any fork or because the fork
  failed, and then nothing is signalled; or with an error after a fork, and then the supervisor was
  sent SIGTERM, perhaps followed by SIGKILL, and is no longer recorded.\<close>

definition started :: "api_os \<Rightarrow> autossh_session \<Rightarrow> int \<times> autossh_session \<Rightarrow> bool" where
  "started ao s r \<longleftrightarrow>
     (case r of (rc, t) \<Rightarrow> let pid = ao_fork ao (k_fork s) in
        rc = 0 \<and> ss_state t = AUTOSSH_STATE_RUNNING \<and> k_fork t = Suc (k_fork s) \<and> 0 < pid \<and> ss_pid t = pid \<and>
          api_kills t = api_kills s \<or>
        rc = -1 \<and> ss_state t = AUTOSSH_STATE_ERROR \<and>
          (if k_fork t = Suc (k_fork s) \<and> 0 < pid
           then ss_pid t = 0 \<and>
             api_kills t \<in> {api_kills s @ [(pid, SIGTERM)], api_kills s @ [(pid, SIGTERM), (pid, SIGKILL)]}
           else k_fork t \<in> {k_fork s, Suc (k_fork s)} \<and> ss_pid t = ss_pid s \<and> api_kills t = api_kills s))"

lemma started_frame:
  "k_fork t = k_fork s \<Longrightarrow> ss_pid t = ss_pid s \<Longrightarrow> api_kills t = api_kills s \<Longrightarrow> started ao t r = started ao s r"
  by (simp add: started_def)

lemma start_fork_ends:
  assumes clock: "\<And>d n. \<exists>k \<ge> n. d \<le> ao_clock ao k" and fork: "ao_fork ao (k_fork s) \<noteq> 0" and p: "ss_pid s \<le> 0"
  shows "\<exists>r. start_fork ao s = Some r \<and> started ao s r"
proof (cases "ao_fork ao (k_fork s) < 0")
  case True
  then show ?thesis using p by (simp add: start_fork_def Let_def started_def set_error_def)
next
  case False
  let ?c = "ao_fork ao (k_fork s)"
  let ?s = "s\<lparr>ss_state := AUTOSSH_STATE_STARTING, k_fork := Suc (k_fork s), ss_pid := ?c\<rparr>"
  have pos: "0 < ?c" using False fork by simp
  obtain r t where r: "wait_for_listener ao ?s = Some (r, t)" "undisturbed ?s t"
    using wait_for_listener_ends [of ao ?s] clock by blast
  show ?thesis
  proof (cases r)
    case (Inr u)
    then show ?thesis using r pos False by (simp add: start_fork_def Let_def started_def undisturbed_def)
  next
    case (Inl e)
    have "0 < ss_pid t" using r(2) pos by (simp add: undisturbed_def)
    from session_stop_runs [OF this, of ao] obtain u where u: "autossh_session_stop ao t = (0, u)" "ss_pid u = 0" "k_fork u = k_fork t"
      "api_kills u = api_kills t @ (ss_pid t, SIGTERM) #
         (if \<exists>i < 50. absent ao (ss_pid t) (k_wait t + i) then [] else [(ss_pid t, SIGKILL)])" by blast
    obtain v where "set_error e u = (-1, v)" "ss_state v = AUTOSSH_STATE_ERROR" "ss_pid v = ss_pid u" "api_kills v = api_kills u" "k_fork v = k_fork u"
      using set_error_result by blast
    with u r Inl False pos show ?thesis by (auto simp: start_fork_def Let_def started_def undisturbed_def)
  qed
qed

lemma session_start_ends:
  assumes "\<And>d n. \<exists>k \<ge> n. d \<le> ao_clock ao k" and "\<And>k. ao_fork ao k \<noteq> 0" and "ss_pid s \<le> 0"
  shows "\<exists>r. autossh_session_start ao s = Some r \<and> started ao s r"
proof (cases "string_from_cstring (sc_bind_host (ss_config s))")
  case (Inl e)
  then show ?thesis using assms(3) by (simp add: autossh_session_start_def started_def set_error_def)
next
  case (Inr host)
  obtain r t where r: "reserve_ports ao host s = (r, t)" "ss_pid t = ss_pid s" "api_kills t = api_kills s" "k_fork t = k_fork s"
    using reserve_ports_frame by blast
  show ?thesis
  proof (cases r)
    case (Inl e)
    then show ?thesis using r Inr assms(3) by (simp add: autossh_session_start_def started_def set_error_def)
  next
    case (Inr u)
    have "\<exists>q. start_fork ao t = Some q \<and> started ao t q"
      using assms(1) assms(2) [of "k_fork t"] assms(3) r(2) by (intro start_fork_ends) simp_all
    then show ?thesis using \<open>string_from_cstring _ = Inr host\<close> Inr r assms(3)
      by (auto simp: autossh_session_start_def started_frame [OF r(4,2,3)])
  qed
qed

section \<open>The command line through the supervisor\<close>




text \<open>The host name and the ports that the monitor is given.\<close>

definition monitor_host :: "SessionConfig \<Rightarrow> proc \<Rightarrow> string" where
  "monitor_host c s = (case sc_monitor_host c of Some m \<Rightarrow> if m \<noteq> [] then m else mhost s | None \<Rightarrow> mhost s)"






lemma monitor_host_asked [simp]: "monitor_host c (asked c' s) = monitor_host c s" "env_port (asked c s) = env_port s"
  "echop (asked c s) = echop s" "monitor_host c (open_syslog s) = monitor_host c s" "env_port (open_syslog s) = env_port s"
  "echop (open_syslog s) = echop s" "ssh_path (open_syslog s) = ssh_path s"
  by (simp_all add: monitor_host_def asked_def Let_def open_syslog_def emit_def split: option.split)


section \<open>Claims\<close>

text \<open>A configuration with some settings, and a printer of whole numbers.\<close>

definition tuned :: SessionConfig where
  "tuned = \<lparr>sc_ssh_path = Some ''/opt/ssh'', sc_ssh_destination = ''host'', sc_target_host = ''db'', sc_target_port = 22,
     sc_bind_host = DEFAULT_BIND_HOST, sc_local_port = 9000, sc_monitor_host = None, sc_monitor_port = 20000,
     sc_monitor_disabled = False, sc_poll_time = 60, sc_first_poll_time = 0, sc_gate_time = 5, sc_max_start = -1,
     sc_max_session = 0, sc_start_timeout_ms = 15000, sc_extra_ssh_args = [''-4'', ''-fC'']\<rparr>"

definition show_whole :: "rat \<Rightarrow> string" where
  "show_whole x = show_int \<lfloor>x\<rfloor>"

lemma whole_numeral [simp]: "whole 0" "numeral n \<le> (2 :: nat) ^ 53 \<Longrightarrow> whole (numeral n)"
  by (auto simp: whole_def intro: exI [of _ "numeral n"] exI [of _ 0])

lemma tuned_sound: "sound_config tuned"
  by (simp add: sound_config_def tuned_def in_i32_def)

lemma show_whole_law: "show_whole (of_nat n) = show_nat n"
  by (simp add: show_whole_def show_int_pos)

lemma tuned_child: "sound_child show_whole tuned \<lparr>getenv = (\<lambda>_. None), fopen_append = (\<lambda>_. None)\<rparr>"
  by (simp add: sound_child_def show_whole_law tuned_sound)

text \<open>A host on which the tunnel never comes up, and a session on it.\<close>

definition lonely_os :: api_os where
  "lonely_os = \<lparr>ao_resolve = (\<lambda>host _. Inr [host]), ao_bind = (\<lambda>k. Inr (30000 + int k)), ao_local_addr = (\<lambda>_. None),
     ao_waitpid = (\<lambda>_. (0, 0, 0)), ao_connect = (\<lambda>_. False), ao_clock = (\<lambda>k. 10000 * int k), ao_fork = (\<lambda>_. 42)\<rparr>"

definition idle_session :: autossh_session where
  "idle_session = \<lparr>ss_config = tuned, ss_pid = 0, ss_state = AUTOSSH_STATE_INIT, ss_last_error = [],
     api_trace = [], k_bind = 0, k_wait = 0, k_conn = 0, k_clock = 0, k_fork = 0\<rparr>"

lemma lonely_clock: "\<exists>k \<ge> n. d \<le> ao_clock lonely_os k"
  by (rule exI [of _ "n + nat d"]) (simp add: lonely_os_def)

lemma lonely_start: "\<exists>r. autossh_session_start lonely_os idle_session = Some r"
  using session_start_ends [of lonely_os idle_session] lonely_clock by (auto simp: lonely_os_def idle_session_def)

text \<open>C23: The settings of a session survive the way through the environment: when no AUTOSSH variable
  is inherited, times are whole seconds and the start limit is at least -1, the supervisor's reading of
  the variables that the session set returns, with exactly the path, poll times, gate time, start
  limit and session limit of the configuration (zero poll times, start limit and session limit keep
  the default; a zero gate time does not), and with every other part of the state unchanged. The
  header \<^verbatim>\<open>autossh.h\<close> describes zeros the other way round: it lets them keep the defaults except for the
  start limit.\<close>

theorem child_settings_roundtrip:
  assumes "\<And>n :: nat. fmt (of_nat n) = show_nat n" and "sound_config c"
    and "\<And>name. prefix ''AUTOSSH_'' name \<Longrightarrow> getenv h name = None"
  shows "get_env_args (h\<lparr>getenv := child_env fmt c (getenv h)\<rparr>) os s = (Return (), asked c s)"
proof -
  have "sound_child fmt c h" using assms by (simp add: sound_child_def)
  from child_settings [OF this] show ?thesis by (simp add: child_def)
qed

theorem child_settings_roundtrip_witness:
  "let h = \<lparr>getenv = (\<lambda>_. None), fopen_append = (\<lambda>_. None)\<rparr> in
   \<exists>t. get_env_args (h\<lparr>getenv := child_env show_whole tuned (getenv h)\<rparr>) idle_os initial_proc = (Return (), t) \<and>
     poll_time t = 60 \<and> first_poll_time t = 60 \<and> gate_time t = 5 \<and> max_start t = -1 \<and> ssh_path t = ''/opt/ssh''"
  unfolding Let_def
  by (subst child_settings_roundtrip [OF show_whole_law tuned_sound]) (simp_all add: asked_def tuned_def)








text \<open>C18: Starting a session always comes to an end when the clock goes on, and leaves no supervisor
  behind: from a session without one, either the result is 0, the state is running, the recorded
  pid is the one that this start's fork returned, and nothing was signalled; or the result is -1
  and the state is error. In the second case, if a supervisor had been forked, it was sent SIGTERM
  (perhaps followed by SIGKILL, at most once), nobody else was signalled, and its pid is no longer
  recorded; if none had been forked, nothing was signalled and the recorded pid did not change.\<close>

theorem session_start_outcome:
  assumes "\<And>d n. \<exists>k \<ge> n. d \<le> ao_clock ao k" and "\<And>k. ao_fork ao k \<noteq> 0" and "ss_pid s \<le> 0"
  shows "\<exists>r. autossh_session_start ao s = Some r \<and> started ao s r"
  using assms by (rule session_start_ends)

theorem session_start_outcome_witness:
  "\<exists>r. autossh_session_start lonely_os idle_session = Some r \<and> started lonely_os idle_session r"
  using session_start_outcome [OF lonely_clock, of idle_session] by (simp add: lonely_os_def idle_session_def)

text \<open>C40: A supervisor that ends while the listener is awaited is signalled after it has been reaped: the
  poll that reports it has collected its status, the pid stays recorded, and the stop that follows
  sends SIGTERM to it, a pid the kernel is by then free to give to another process.\<close>

theorem early_exit_signals_reaped:
  assumes "ss_pid s \<le> 0" "string_from_cstring (sc_bind_host (ss_config s)) = Inr host"
    and "sc_local_port (ss_config s) \<noteq> 0" "sc_monitor_disabled (ss_config s) \<or> sc_monitor_port (ss_config s) \<noteq> 0"
    and "bind_addr ao host (sc_local_port (ss_config s)) = Inr addr" "ao_fork ao (k_fork s) = p" "0 < p"
    and "ao_clock ao (Suc (k_clock s)) < ao_clock ao (k_clock s) + sc_start_timeout_ms (ss_config s)"
    and "ao_waitpid ao (k_wait s) = (p, e, status)"
  shows "\<exists>t rest. autossh_session_start ao s = Some (-1, t) \<and> ss_last_error t = msg_early status \<and>
    api_kills t = api_kills s @ (p, SIGTERM) # rest"
proof -
  let ?u = "s\<lparr>ss_state := AUTOSSH_STATE_STARTING, k_fork := Suc (k_fork s), ss_pid := p, k_clock := Suc (Suc (k_clock s)),
      k_wait := Suc (k_wait s)\<rparr>"
  have r: "reserve_ports ao host s = (Inr (), s)" using assms(3,4) by (auto simp: reserve_ports_def)
  have l: "wait_for_listener ao (s\<lparr>ss_state := AUTOSSH_STATE_STARTING, k_fork := Suc (k_fork s), ss_pid := p\<rparr>) =
      Some (Inl (msg_early status), ?u)"
    using assms by (simp add: wait_for_listener_def and_then_def listen_loop.simps child_exited_def Let_def)
  obtain v where v: "autossh_session_stop ao ?u = (0, v)" "api_kills v = api_kills ?u @ (p, SIGTERM) #
      (if \<exists>i < 50. absent ao p (k_wait ?u + i) then [] else [(p, SIGKILL)])"
    using session_stop_runs [of ?u ao] assms(7) by auto
  have n: "NUL \<notin> set (msg_early status)" using show_int_NUL by (simp add: msg_early_def)
  have "autossh_session_start ao s = Some (set_error (msg_early status) v)"
    using assms(1,2,6,7) r l v(1) by (simp add: autossh_session_start_def start_fork_def Let_def)
  moreover have "api_kills (snd (set_error (msg_early status) v)) = api_kills v" by (simp add: set_error_def)
  ultimately show ?thesis using v(2) n by (simp add: set_error_def)
qed

theorem early_exit_signals_reaped_witness:
  "\<exists>t rest. autossh_session_start (lonely_os\<lparr>ao_waitpid := (\<lambda>k. if k = 0 then (42, 0, 256) else (-1, ECHILD, 0))\<rparr>) idle_session =
      Some (-1, t) \<and> ss_last_error t = msg_early 256 \<and> api_kills t = (42, SIGTERM) # rest"
proof -
  let ?ao = "lonely_os\<lparr>ao_waitpid := (\<lambda>k. if k = 0 then (42, 0, 256) else (-1, ECHILD, 0))\<rparr>"
  have "string_from_cstring (sc_bind_host (ss_config idle_session)) = Inr ''127.0.0.1''"
    by (simp add: idle_session_def tuned_def DEFAULT_BIND_HOST_def string_from_cstring_def utf8_Cons_ascii)
  from early_exit_signals_reaped [OF _ this, of ?ao "''127.0.0.1''" 42 0 256] show ?thesis
    by (simp add: idle_session_def tuned_def lonely_os_def bind_addr_def api_kills_def)
qed

text \<open>C19: Stopping a session that has a supervisor sends it SIGTERM, and SIGKILL exactly when none of
  the next 50 polls finds it gone; it sleeps at most five seconds, signals nobody else, and leaves
  the session stopped and without a pid. A second stop is then without effect on any process.\<close>

theorem session_stop_escalates:
  assumes "0 < ss_pid s"
  shows "\<exists>t. autossh_session_stop ao s = (0, t) \<and> ss_pid t = 0 \<and> ss_state t = AUTOSSH_STATE_STOPPED \<and>
    api_kills t = api_kills s @ (ss_pid s, SIGTERM) #
      (if \<exists>i < 50. absent ao (ss_pid s) (k_wait s + i) then [] else [(ss_pid s, SIGKILL)]) \<and>
    api_slept t \<le> api_slept s + 5000 \<and> api_kills (snd (autossh_session_stop ao t)) = api_kills t"
proof -
  from session_stop_runs [OF assms, of ao] obtain t where "autossh_session_stop ao s = (0, t)" "ss_pid t = 0"
    "ss_state t = AUTOSSH_STATE_STOPPED" "api_kills t = api_kills s @ (ss_pid s, SIGTERM) #
      (if \<exists>i < 50. absent ao (ss_pid s) (k_wait s + i) then [] else [(ss_pid s, SIGKILL)])"
    "api_slept t \<le> api_slept s + 5000" by blast
  moreover from this(2) have "api_kills (snd (autossh_session_stop ao t)) = api_kills t"
    by (simp add: autossh_session_stop_def)
  ultimately show ?thesis by blast
qed

theorem session_stop_escalates_witness:
  "\<exists>t. autossh_session_stop lonely_os (idle_session\<lparr>ss_pid := 42\<rparr>) = (0, t) \<and>
     api_kills t = [(42, SIGTERM), (42, SIGKILL)] \<and> api_slept t \<le> 5000"
  using session_stop_escalates [of "idle_session\<lparr>ss_pid := 42\<rparr>" lonely_os]
  by (auto simp: idle_session_def lonely_os_def absent_def api_kills_def api_slept_def)

end
