(* ===== verification/Session_Race.thy ===== *)
theory Session_Race
  imports Session "HOL-Library.Multiset"
begin

text \<open>
  Sessions shared by threads. The functions of \<^verbatim>\<open>src/api.rs\<close> may run at the same time on one
  session; they meet in the atomic pid and in the kernel, which gives a dead supervisor to whoever
  waits for it first. Each step below is one atomic operation on the pid, one fork, one wait or one
  kill of \<^verbatim>\<open>autossh_session_start\<close>, \<^verbatim>\<open>wait_for_listener\<close>, \<^verbatim>\<open>autossh_session_stop\<close> or
  \<^verbatim>\<open>autossh_session_state\<close>, so every interleaving of them is a path. A thread is the point it has
  reached; threads are anonymous, a multiset. The kernel may hand out the pid of a supervisor again
  once it has been reaped. Nothing here depends on the session's state code and configuration; they
  are left to the sequential model.
\<close>

section \<open>Threads and steps\<close>

text \<open>
  \<open>Start1\<close> has seen no supervisor and will fork, \<open>Listen\<close> is at the head of the loop of
  \<^verbatim>\<open>wait_for_listener\<close>, \<open>Listen1 q\<close> has loaded the pid \<open>q\<close> and will wait for it, \<open>Failing\<close> will stop
  the session. \<open>State1 p\<close> has loaded the pid, \<open>State2 p\<close> has reaped it. \<open>Stop1 p\<close> has taken the pid and
  will send SIGTERM, \<open>Stop2 p n\<close> is in the grace period with \<open>n\<close> polls left, \<open>Stop3 p\<close> will send
  SIGKILL and \<open>Stop4 p\<close> waits for the end.
\<close>

datatype pc = Outside | Start1 | Listen | Listen1 int | Failing | State1 int | State2 int
  | Stop1 int | Stop2 int nat | Stop3 int | Stop4 int

text \<open>The state: the atomic pid, the threads, the pids handed out by fork, the supervisors that have
  been reaped, and the signals sent, each with whether its target had been reaped.\<close>

record shared =
  sh_pid :: int
  pcs :: "pc multiset"
  forks :: "int list"
  reaped :: "int set"
  sent :: "(int \<times> int \<times> bool) list"

definition go :: "pc \<Rightarrow> pc \<Rightarrow> shared \<Rightarrow> shared" where
  "go a b w = w\<lparr>pcs := add_mset b (pcs w - {#a#})\<rparr>"

definition reap :: "int \<Rightarrow> shared \<Rightarrow> shared" where
  "reap p w = w\<lparr>reaped := insert p (reaped w)\<rparr>"

definition send :: "int \<Rightarrow> int \<Rightarrow> shared \<Rightarrow> shared" where
  "send p g w = (if p \<le> 0 then w else w\<lparr>sent := sent w @ [(p, g, p \<in> reaped w)]\<rparr>)"

text \<open>
  A wait for \<open>p > 0\<close> answers \<open>p\<close> when the supervisor is reaped by it (\<open>p \<notin> reaped\<close> before), 0 when it
  still runs and \<open>ECHILD\<close> when it has been reaped already. A wait for 0 is a wait for any child of
  the process group: its answer is 0, which equals the pid asked for, when none has ended
  (\<open>listen_gone\<close>), or the pid of a child it reaped (\<open>listen_other\<close>).
\<close>

inductive session_step :: "shared \<Rightarrow> shared \<Rightarrow> bool" where
  start_check: "Outside \<in># pcs w \<Longrightarrow> sh_pid w \<le> 0 \<Longrightarrow> session_step w (go Outside Start1 w)"
| start_failed: "Start1 \<in># pcs w \<Longrightarrow> session_step w (go Start1 Outside w)"
| start_fork: "Start1 \<in># pcs w \<Longrightarrow> 0 < p \<Longrightarrow> p \<notin> set (forks w) - reaped w \<Longrightarrow>
    session_step w (go Start1 Listen (w\<lparr>sh_pid := p, forks := forks w @ [p], reaped := reaped w - {p}\<rparr>))"
| listen_load: "Listen \<in># pcs w \<Longrightarrow> session_step w (go Listen (Listen1 (sh_pid w)) w)"
| listen_late: "Listen \<in># pcs w \<Longrightarrow> session_step w (go Listen Failing w)"
| listen_reap: "Listen1 p \<in># pcs w \<Longrightarrow> 0 < p \<Longrightarrow> p \<notin> reaped w \<Longrightarrow> session_step w (go (Listen1 p) Failing (reap p w))"
| listen_gone: "Listen1 p \<in># pcs w \<Longrightarrow> p = 0 \<Longrightarrow> session_step w (go (Listen1 p) Failing w)"
| listen_other: "Listen1 p \<in># pcs w \<Longrightarrow> p = 0 \<Longrightarrow> r \<in> set (forks w) - reaped w \<Longrightarrow>
    session_step w (go (Listen1 p) Listen (reap r w))"
| listen_again: "Listen1 p \<in># pcs w \<Longrightarrow> session_step w (go (Listen1 p) Listen w)"
| listen_up: "Listen1 p \<in># pcs w \<Longrightarrow> session_step w (go (Listen1 p) Outside w)"
| state_load: "Outside \<in># pcs w \<Longrightarrow> 0 < sh_pid w \<Longrightarrow> session_step w (go Outside (State1 (sh_pid w)) w)"
| state_alive: "State1 p \<in># pcs w \<Longrightarrow> session_step w (go (State1 p) Outside w)"
| state_reap: "State1 p \<in># pcs w \<Longrightarrow> p \<notin> reaped w \<Longrightarrow> session_step w (go (State1 p) (State2 p) (reap p w))"
| state_clear: "State2 p \<in># pcs w \<Longrightarrow>
    session_step w (go (State2 p) Outside (if sh_pid w = p then w\<lparr>sh_pid := 0\<rparr> else w))"
| stop_none: "c \<in># pcs w \<Longrightarrow> c = Outside \<or> c = Failing \<Longrightarrow> sh_pid w \<le> 0 \<Longrightarrow>
    session_step w (go c Outside (w\<lparr>sh_pid := 0\<rparr>))"
| stop_take: "c \<in># pcs w \<Longrightarrow> c = Outside \<or> c = Failing \<Longrightarrow> 0 < sh_pid w \<Longrightarrow>
    session_step w (go c (Stop1 (sh_pid w)) (w\<lparr>sh_pid := 0\<rparr>))"
| stop_term: "Stop1 p \<in># pcs w \<Longrightarrow> session_step w (go (Stop1 p) (Stop2 p 50) (send p SIGTERM w))"
| stop_gone: "Stop2 p (Suc n) \<in># pcs w \<Longrightarrow> session_step w (go (Stop2 p (Suc n)) Outside (reap p w))"
| stop_wait: "Stop2 p (Suc n) \<in># pcs w \<Longrightarrow> p \<notin> reaped w \<Longrightarrow> session_step w (go (Stop2 p (Suc n)) (Stop2 p n) w)"
| stop_late: "Stop2 p 0 \<in># pcs w \<Longrightarrow> session_step w (go (Stop2 p 0) (Stop3 p) w)"
| stop_kill: "Stop3 p \<in># pcs w \<Longrightarrow> session_step w (go (Stop3 p) (Stop4 p) (send p SIGKILL w))"
| stop_end: "Stop4 p \<in># pcs w \<Longrightarrow> session_step w (go (Stop4 p) Outside (reap p w))"

definition idle :: "nat \<Rightarrow> shared" where
  "idle n = \<lparr>sh_pid = 0, pcs = replicate_mset n Outside, forks = [], reaped = {}, sent = []\<rparr>"

inductive session_reach :: "shared \<Rightarrow> bool" where
  init: "session_reach (idle n)"
| more: "session_reach w \<Longrightarrow> session_step w w' \<Longrightarrow> session_reach w'"

section \<open>The invariant\<close>

text \<open>The pid that a thread holds and may signal.\<close>

fun pc_pid :: "pc \<Rightarrow> int option" where
  "pc_pid (State1 p) = Some p"
| "pc_pid (State2 p) = Some p"
| "pc_pid (Stop1 p) = Some p"
| "pc_pid (Stop2 p n) = Some p"
| "pc_pid (Stop3 p) = Some p"
| "pc_pid (Stop4 p) = Some p"
| "pc_pid _ = None"

definition known :: "shared \<Rightarrow> int \<Rightarrow> bool" where
  "known w p \<longleftrightarrow> 0 < p \<and> p \<in> set (forks w)"

definition terms :: "int \<Rightarrow> shared \<Rightarrow> nat" where
  "terms p w = length (filter (\<lambda>(q, g, _). q = p \<and> g = SIGTERM) (sent w))"

definition owed :: "int \<Rightarrow> shared \<Rightarrow> nat" where
  "owed p w = terms p w + count (pcs w) (Stop1 p) + (if sh_pid w = p then 1 else 0)"

text \<open>Every pid that may be signalled is one that fork handed out, and every fork pays for one SIGTERM.\<close>

definition session_inv :: "shared \<Rightarrow> bool" where
  "session_inv w \<longleftrightarrow>
     (0 < sh_pid w \<longrightarrow> known w (sh_pid w)) \<and>
     (\<forall>c p. c \<in># pcs w \<longrightarrow> pc_pid c = Some p \<longrightarrow> known w p) \<and>
     (\<forall>(p, g, b) \<in> set (sent w). known w p) \<and>
     (\<forall>p. 0 < p \<longrightarrow> owed p w \<le> count_list (forks w) p)"

lemma known_simps [simp]:
  "known (go a b w) p = known w p" "known (send q g w) p = known w p" "known (reap q w) p = known w p"
  "known (w\<lparr>sh_pid := i\<rparr>) p = known w p"
  by (simp_all add: known_def go_def send_def reap_def)

lemma shared_simps [simp]:
  "sh_pid (go a b w) = sh_pid w" "forks (go a b w) = forks w" "sent (go a b w) = sent w"
  "sh_pid (reap p w) = sh_pid w" "forks (reap p w) = forks w" "sent (reap p w) = sent w" "pcs (reap p w) = pcs w"
  "sh_pid (send p g w) = sh_pid w" "forks (send p g w) = forks w" "pcs (send p g w) = pcs w"
  "pcs (go a b w) = add_mset b (pcs w - {#a#})"
  by (simp_all add: go_def send_def reap_def)

lemma sent_send [simp]:
  "x \<in> set (sent (send p g w)) \<longleftrightarrow> x \<in> set (sent w) \<or> 0 < p \<and> x = (p, g, p \<in> reaped w)"
  by (auto simp: send_def)

lemma terms_simps [simp]:
  "terms p (go a b w) = terms p w" "terms p (reap q w) = terms p w" "terms p (w\<lparr>sh_pid := i\<rparr>) = terms p w"
  "terms p (send q g w) = terms p w + (if q = p \<and> g = SIGTERM \<and> 0 < q then 1 else 0)"
  by (simp_all add: terms_def send_def reap_def)

lemma session_invI:
  assumes "session_inv w" and "\<And>p. known w p \<Longrightarrow> known v p" and "0 < sh_pid v \<Longrightarrow> known v (sh_pid v)"
    and "\<And>c p. c \<in># pcs v \<Longrightarrow> pc_pid c = Some p \<Longrightarrow> c \<in># pcs w \<or> known v p"
    and "\<And>p g b. (p, g, b) \<in> set (sent v) \<Longrightarrow> (p, g, b) \<in> set (sent w) \<or> known v p"
    and "\<And>p. 0 < p \<Longrightarrow> owed p v + count_list (forks w) p \<le> owed p w + count_list (forks v) p"
  shows "session_inv v"
proof -
  have "owed p v \<le> count_list (forks v) p" if "0 < p" for p
  proof -
    have "owed p w \<le> count_list (forks w) p" using assms(1) that by (simp add: session_inv_def)
    then show ?thesis using assms(6) [OF that] by linarith
  qed
  moreover have "known v p" if "c \<in># pcs v" "pc_pid c = Some p" for c p
    using assms(4) [OF that] assms(1,2) that(2) unfolding session_inv_def by blast
  moreover have "known v p" if "(p, g, b) \<in> set (sent v)" for p g b
    using assms(5) [OF that] assms(1,2) unfolding session_inv_def by blast
  ultimately show ?thesis using assms(3) unfolding session_inv_def by blast
qed

lemma inv_known:
  assumes "session_inv w"
  shows "0 < sh_pid w \<Longrightarrow> known w (sh_pid w)" "c \<in># pcs w \<Longrightarrow> pc_pid c = Some p \<Longrightarrow> known w p"
  using assms by (auto simp: session_inv_def)

text \<open>A move that takes no pid: the new point holds only a pid the old one held.\<close>

lemma inv_go:
  assumes inv: "session_inv w" and b: "\<And>p. pc_pid b = Some p \<Longrightarrow> known w p" "\<And>p. b \<noteq> Stop1 p"
  shows "session_inv (go a b w)"
  using inv
  by (rule session_invI) (auto simp: b owed_def inv_known [OF inv] dest: in_diffD)

lemma inv_reap:
  assumes inv: "session_inv w"
  shows "session_inv (reap p w)"
  using inv by (rule session_invI) (auto simp: owed_def inv_known [OF inv])

lemma inv_clear: "session_inv w \<Longrightarrow> session_inv (w\<lparr>sh_pid := 0\<rparr>)"
  by (erule session_invI) (auto simp: owed_def)

lemma inv_fork: "session_inv w \<Longrightarrow> 0 < p \<Longrightarrow> session_inv (w\<lparr>sh_pid := p, forks := forks w @ [p], reaped := r\<rparr>)"
  by (erule session_invI) (auto simp: owed_def known_def terms_def)

lemma inv_send:
  assumes inv: "session_inv w" and "known w p" and g: "g \<noteq> SIGTERM"
  shows "session_inv (send p g w)"
  using inv by (rule session_invI) (use assms in \<open>auto simp: owed_def inv_known\<close>)

lemma inv_take:
  assumes inv: "session_inv w" and "0 < sh_pid w" "\<And>p. c \<noteq> Stop1 p"
  shows "session_inv (go c (Stop1 (sh_pid w)) (w\<lparr>sh_pid := 0\<rparr>))"
  using inv by (rule session_invI) (use assms in \<open>auto simp: owed_def inv_known dest: in_diffD\<close>)

lemma inv_term:
  assumes inv: "session_inv w" and p: "Stop1 p \<in># pcs w"
  shows "session_inv (go (Stop1 p) (Stop2 p n) (send p SIGTERM w))"
proof (rule session_invI [OF inv])
  have k: "known w p" using inv_known(2) [OF inv p] by simp
  show "\<And>c q. c \<in># pcs (go (Stop1 p) (Stop2 p n) (send p SIGTERM w)) \<Longrightarrow> pc_pid c = Some q \<Longrightarrow>
      c \<in># pcs w \<or> known (go (Stop1 p) (Stop2 p n) (send p SIGTERM w)) q"
    using k by (auto dest: in_diffD)
  show "\<And>q g b. (q, g, b) \<in> set (sent (go (Stop1 p) (Stop2 p n) (send p SIGTERM w))) \<Longrightarrow>
      (q, g, b) \<in> set (sent w) \<or> known (go (Stop1 p) (Stop2 p n) (send p SIGTERM w)) q"
    using k by auto
  show "\<And>q. 0 < q \<Longrightarrow> owed q (go (Stop1 p) (Stop2 p n) (send p SIGTERM w)) + count_list (forks w) q
      \<le> owed q w + count_list (forks (go (Stop1 p) (Stop2 p n) (send p SIGTERM w))) q"
    using p by (auto simp: owed_def)
qed (use inv_known(1) [OF inv] in auto)

lemma session_step_inv: "session_step w w' \<Longrightarrow> session_inv w \<Longrightarrow> session_inv w'"
proof (induction rule: session_step.induct)
  case (stop_term p w)
  then show ?case by (simp add: inv_term)
next
  case (stop_take c w)
  then show ?case by (auto intro: inv_take)
qed (auto intro!: inv_go inv_reap inv_clear inv_fork inv_send dest: inv_known)

lemma session_reach_inv: "session_reach w \<Longrightarrow> session_inv w"
proof (induction rule: session_reach.induct)
  case (init n)
  then show ?case by (auto simp: session_inv_def idle_def owed_def terms_def in_replicate_mset)
qed (rule session_step_inv)

section \<open>SIGTERM before SIGKILL\<close>

text \<open>The pid of a stop that has sent SIGTERM.\<close>

fun pc_termed :: "pc \<Rightarrow> int option" where
  "pc_termed (Stop2 p n) = Some p"
| "pc_termed (Stop3 p) = Some p"
| "pc_termed (Stop4 p) = Some p"
| "pc_termed _ = None"

fun_cases pc_termed_SomeE: "pc_termed c = Some p"

definition termed :: "int \<Rightarrow> (int \<times> int \<times> bool) list \<Rightarrow> bool" where
  "termed p ts \<longleftrightarrow> (\<exists>b. (p, SIGTERM, b) \<in> set ts)"

text \<open>Every SIGKILL in a list of signals has a SIGTERM to the same pid before it.\<close>

definition term_first :: "(int \<times> int \<times> bool) list \<Rightarrow> bool" where
  "term_first ts \<longleftrightarrow> (\<forall>i < length ts. case ts ! i of (p, g, _) \<Rightarrow> g = SIGKILL \<longrightarrow> termed p (take i ts))"

lemma term_first_snoc: "term_first (ts @ [(p, g, b)]) \<longleftrightarrow> term_first ts \<and> (g = SIGKILL \<longrightarrow> termed p ts)"
  by (auto simp: term_first_def nth_append less_Suc_eq)

definition kill_inv :: "shared \<Rightarrow> bool" where
  "kill_inv w \<longleftrightarrow> term_first (sent w) \<and> (\<forall>c p. c \<in># pcs w \<longrightarrow> pc_termed c = Some p \<longrightarrow> termed p (sent w))"

lemma termed_pos: "session_inv w \<Longrightarrow> c \<in># pcs w \<Longrightarrow> pc_termed c = Some p \<Longrightarrow> 0 < p"
  by (erule pc_termed_SomeE) (auto dest: inv_known simp: known_def)

lemma kill_invI:
  assumes "kill_inv w" "term_first (sent v)" "set (sent w) \<subseteq> set (sent v)"
    and "\<And>c p. c \<in># pcs v \<Longrightarrow> pc_termed c = Some p \<Longrightarrow> c \<in># pcs w \<or> termed p (sent v)"
  shows "kill_inv v"
proof -
  have "termed p (sent v)" if "c \<in># pcs v" "pc_termed c = Some p" for c p
    using assms(1,3) assms(4) [OF that] that(2) unfolding kill_inv_def termed_def by blast
  with assms(2) show ?thesis by (simp add: kill_inv_def)
qed

lemma kill_inv_send:
  assumes "kill_inv w" "0 < p" "g = SIGKILL \<Longrightarrow> termed p (sent w)" "pc_termed b = Some p" "g = SIGTERM \<or> termed p (sent w)"
  shows "kill_inv (go a b (send p g w))"
  by (rule kill_invI [OF assms(1)])
    (use assms in \<open>auto simp: kill_inv_def send_def term_first_snoc termed_def dest: in_diffD\<close>)

lemma session_step_kill: "session_step w w' \<Longrightarrow> session_inv w \<Longrightarrow> kill_inv w \<Longrightarrow> kill_inv w'"
proof (induction rule: session_step.induct)
  case (stop_term p w)
  then show ?case by (intro kill_inv_send) (auto dest: inv_known simp: known_def)
next
  case (stop_kill p w)
  then have "termed p (sent w)" "0 < p" using termed_pos [of w "Stop3 p" p] by (auto simp: kill_inv_def)
  with stop_kill show ?case by (intro kill_inv_send) simp_all
qed (auto simp: kill_inv_def dest: in_diffD)

lemma session_reach_kill: "session_reach w \<Longrightarrow> kill_inv w"
proof (induction rule: session_reach.induct)
  case (init n)
  then show ?case by (auto simp: kill_inv_def idle_def term_first_def in_replicate_mset)
next
  case (more w w')
  then show ?case using session_step_kill session_reach_inv by blast
qed

section \<open>Interleavings\<close>

text \<open>C16: in every interleaving of starts, state polls and stops, every signal goes to one positive
  pid that fork returned to this session (never to a process group), and a supervisor is sent
  SIGTERM at most once for every time its pid was handed out, and SIGKILL only after SIGTERM.\<close>

theorem session_signals_safe:
  assumes "session_reach w"
  shows "(\<forall>(p, g, b) \<in> set (sent w). 0 < p \<and> p \<in> set (forks w)) \<and>
    (0 < p \<longrightarrow> terms p w \<le> count_list (forks w) p) \<and> term_first (sent w)"
proof -
  have inv: "session_inv w" by (rule session_reach_inv [OF assms])
  then have "owed p w \<le> count_list (forks w) p" if "0 < p" using that by (simp add: session_inv_def)
  then show ?thesis using inv session_reach_kill [OF assms] by (auto simp: session_inv_def known_def owed_def kill_inv_def)
qed

text \<open>Two threads: one starts the session, then one polls its state while the other stops it.\<close>

lemma race_listening:
  "session_reach \<lparr>sh_pid = 42, pcs = {#Listen, Outside#}, forks = [42], reaped = {}, sent = []\<rparr>"
proof -
  have "session_reach (go Outside Start1 (idle 2))"
    by (rule more [OF init start_check]) (simp_all add: idle_def)
  from more [OF this start_fork [where p = 42]] show ?thesis by (simp add: idle_def go_def numeral_2_eq_2)
qed

lemma race_started:
  "session_reach \<lparr>sh_pid = 42, pcs = {#Outside, Outside#}, forks = [42], reaped = {}, sent = []\<rparr>"
proof -
  from more [OF race_listening listen_load]
  have "session_reach \<lparr>sh_pid = 42, pcs = {#Listen1 42, Outside#}, forks = [42], reaped = {}, sent = []\<rparr>"
    by (simp add: go_def)
  from more [OF this listen_up [where p = 42]] show ?thesis by (simp add: go_def)
qed

lemma race_reaped:
  "session_reach \<lparr>sh_pid = 0, pcs = {#State2 42, Stop1 42#}, forks = [42], reaped = {42}, sent = []\<rparr>"
proof -
  from more [OF race_started state_load]
  have "session_reach \<lparr>sh_pid = 42, pcs = {#State1 42, Outside#}, forks = [42], reaped = {}, sent = []\<rparr>"
    by (simp add: go_def)
  from more [OF this stop_take [where c = Outside]]
  have "session_reach \<lparr>sh_pid = 0, pcs = {#Stop1 42, State1 42#}, forks = [42], reaped = {}, sent = []\<rparr>"
    by (simp add: go_def)
  from more [OF this state_reap [where p = 42]] show ?thesis by (simp add: go_def reap_def)
qed

definition signalled :: shared where
  "signalled = \<lparr>sh_pid = 0, pcs = {#Stop2 42 50, State2 42#}, forks = [42], reaped = {42}, sent = [(42, SIGTERM, True)]\<rparr>"

lemma race_signalled: "session_reach signalled"
  using more [OF race_reaped stop_term [where p = 42]] by (simp add: go_def send_def signalled_def)

theorem session_signals_safe_witness:
  "session_reach signalled \<and> terms 42 signalled = 1 \<and> terms 42 signalled \<le> count_list (forks signalled) 42 \<and>
   term_first (sent signalled)"
  using race_signalled session_signals_safe [OF race_signalled, of 42] by (simp add: terms_def signalled_def)

text \<open>The pid is not re-read by a stop, yet the target of its signal may be gone. A state poll that
  runs between the swap and the kill reaps the supervisor, and SIGTERM then goes to a pid that the
  kernel is free to give to another process.\<close>

lemma stop_signals_reaped_pid:
  "\<exists>w. session_reach w \<and> forks w = [42] \<and> sent w = [(42, SIGTERM, True)]"
  by (rule exI [of _ signalled]) (use race_signalled in \<open>simp add: signalled_def\<close>)

text \<open>\<^verbatim>\<open>wait_for_listener\<close> does re-read the pid: after a stop on another thread it waits for pid 0,
  which is any child of the host's process group.\<close>

lemma listener_waits_for_group: "\<exists>w. session_reach w \<and> Listen1 0 \<in># pcs w \<and> forks w = [42]"
proof -
  from more [OF race_listening stop_take [where c = Outside]]
  have "session_reach \<lparr>sh_pid = 0, pcs = {#Stop1 42, Listen#}, forks = [42], reaped = {}, sent = []\<rparr>"
    by (simp add: go_def)
  from more [OF this listen_load]
  have "session_reach \<lparr>sh_pid = 0, pcs = {#Listen1 0, Stop1 42#}, forks = [42], reaped = {}, sent = []\<rparr>"
    by (simp add: go_def)
  then show ?thesis by force
qed

end
