(* ===== verification/Session_Steps.thy ===== *)
theory Session_Steps
  imports Session_Race
begin

text \<open>
  The sequential session functions as paths of the step relation: what \<^verbatim>\<open>autossh_session_start\<close>,
  \<^verbatim>\<open>autossh_session_stop\<close> and \<^verbatim>\<open>autossh_session_state\<close> do when they run alone is one of the
  interleavings of \<open>Session_Race\<close>, whatever the other threads are at. So the two models of
  \<^verbatim>\<open>src/api.rs\<close> agree.
\<close>

section \<open>One thread among others\<close>

text \<open>The shared state with one thread at \<open>c\<close> and the others in \<open>M\<close>.\<close>

definition placed :: "pc \<Rightarrow> pc multiset \<Rightarrow> shared \<Rightarrow> shared" where
  "placed c M w = w\<lparr>pcs := add_mset c M\<rparr>"

lemma placed_simps [simp]:
  "go a b (placed a M w) = placed b M w" "a \<in># pcs (placed a M w)" "sh_pid (placed a M w) = sh_pid w" "reaped (placed a M w) = reaped w"
  "forks (placed a M w) = forks w" "sent (placed a M w) = sent w" "reap p (placed a M w) = placed a M (reap p w)"
  "send p g (placed a M w) = placed a M (send p g w)" "(placed a M w)\<lparr>sh_pid := q\<rparr> = placed a M (w\<lparr>sh_pid := q\<rparr>)"
  by (simp_all add: placed_def go_def reap_def send_def)

lemma reaped_simps [simp]:
  "reaped (reap p w) = insert p (reaped w)" "reaped (send p g w) = reaped w" "reaped (go a b w) = reaped w"
  by (simp_all add: reap_def send_def go_def)

abbreviation steps :: "shared \<Rightarrow> shared \<Rightarrow> bool" where
  "steps \<equiv> session_step\<^sup>*\<^sup>*"

lemma step_then: "session_step u v \<Longrightarrow> steps v w \<Longrightarrow> steps u w"
  by (rule converse_rtranclp_into_rtranclp)

text \<open>The steps of a thread at its place.\<close>

lemma stop_hops:
  "0 < sh_pid w \<Longrightarrow> c = Outside \<or> c = Failing \<Longrightarrow> session_step (placed c M w) (placed (Stop1 (sh_pid w)) M (w\<lparr>sh_pid := 0\<rparr>))"
  "sh_pid w \<le> 0 \<Longrightarrow> c = Outside \<or> c = Failing \<Longrightarrow> session_step (placed c M w) (placed Outside M (w\<lparr>sh_pid := 0\<rparr>))"
  "session_step (placed (Stop1 p) M w) (placed (Stop2 p 50) M (send p SIGTERM w))"
  "session_step (placed (Stop2 p (Suc n)) M w) (placed Outside M (reap p w))"
  "p \<notin> reaped w \<Longrightarrow> session_step (placed (Stop2 p (Suc n)) M w) (placed (Stop2 p n) M w)"
  "session_step (placed (Stop2 p 0) M w) (placed (Stop3 p) M w)"
  "session_step (placed (Stop3 p) M w) (placed (Stop4 p) M (send p SIGKILL w))"
  "session_step (placed (Stop4 p) M w) (placed Outside M (reap p w))"
  using stop_take [of c "placed c M w"] stop_none [of c "placed c M w"] stop_term [of p "placed (Stop1 p) M w"]
    stop_gone [of p n "placed (Stop2 p (Suc n)) M w"] stop_wait [of p n "placed (Stop2 p (Suc n)) M w"]
    stop_late [of p "placed (Stop2 p 0) M w"] stop_kill [of p "placed (Stop3 p) M w"] stop_end [of p "placed (Stop4 p) M w"]
  by simp_all

lemma start_hops:
  "sh_pid w \<le> 0 \<Longrightarrow> session_step (placed Outside M w) (placed Start1 M w)"
  "session_step (placed Start1 M w) (placed Outside M w)"
  "session_step (placed Listen M w) (placed (Listen1 (sh_pid w)) M w)"
  "session_step (placed Listen M w) (placed Failing M w)"
  "0 < p \<Longrightarrow> p \<notin> reaped w \<Longrightarrow> session_step (placed (Listen1 p) M w) (placed Failing M (reap p w))"
  "session_step (placed (Listen1 p) M w) (placed Listen M w)"
  "session_step (placed (Listen1 p) M w) (placed Outside M w)"
  using start_check [of "placed Outside M w"] start_failed [of "placed Start1 M w"] listen_load [of "placed Listen M w"]
    listen_late [of "placed Listen M w"] listen_reap [of p "placed (Listen1 p) M w"] listen_again [of p "placed (Listen1 p) M w"]
    listen_up [of p "placed (Listen1 p) M w"]
  by simp_all

definition forked :: "int \<Rightarrow> shared \<Rightarrow> shared" where
  "forked p w = w\<lparr>sh_pid := p, forks := forks w @ [p], reaped := reaped w - {p}\<rparr>"

lemma fork_hop:
  "0 < p \<Longrightarrow> p \<notin> set (forks w) - reaped w \<Longrightarrow> session_step (placed Start1 M w) (placed Listen M (forked p w))"
  using session_step.start_fork [of "placed Start1 M w" p] by (simp add: placed_def go_def forked_def)

lemma state_hops:
  "0 < sh_pid w \<Longrightarrow> session_step (placed Outside M w) (placed (State1 (sh_pid w)) M w)"
  "session_step (placed (State1 p) M w) (placed Outside M w)"
  "p \<notin> reaped w \<Longrightarrow> session_step (placed (State1 p) M w) (placed (State2 p) M (reap p w))"
  "sh_pid w = p \<Longrightarrow> session_step (placed (State2 p) M w) (placed Outside M (w\<lparr>sh_pid := 0\<rparr>))"
  using state_load [of "placed Outside M w"] state_alive [of p "placed (State1 p) M w"] state_reap [of p "placed (State1 p) M w"]
    state_clear [of p "placed (State2 p) M w"]
  by simp_all

section \<open>Stopping\<close>

text \<open>\<open>shows s w\<close>: the shared state is what the session's pid and its signals are.\<close>

definition shows_session :: "autossh_session \<Rightarrow> shared \<Rightarrow> bool" where
  "shows_session s w \<longleftrightarrow> sh_pid w = ss_pid s \<and> map (\<lambda>(p, g, _). (p, g)) (sent w) = api_kills s"

text \<open>The kernel's answers fit what has been reaped: a supervisor that is already reaped is reported gone.\<close>

definition fits :: "api_os \<Rightarrow> int \<Rightarrow> autossh_session \<Rightarrow> shared \<Rightarrow> bool" where
  "fits ao p s w \<longleftrightarrow> (p \<in> reaped w \<longrightarrow> absent ao p (k_wait s))"

lemma polls_path:
  "stop_polls ao n p s = (g, t) \<Longrightarrow> fits ao p s w \<Longrightarrow> 0 < n \<Longrightarrow>
   steps (placed (Stop2 p n) M w) (if g then placed Outside M (reap p w) else placed (Stop2 p 0) M w)"
proof (induction n arbitrary: s)
  case (Suc n)
  obtain rc e st where r: "ao_waitpid ao (k_wait s) = (rc, e, st)" by (metis prod_cases3)
  show ?case
  proof (cases "absent ao p (k_wait s)")
    case True
    then have "g" using Suc.prems(1) r by (auto simp: absent_def Let_def)
    then show ?thesis using stop_hops(4) by auto
  next
    case False
    let ?s = "api_emit (ApiSleep 100) (s\<lparr>k_wait := Suc (k_wait s)\<rparr>)"
    have p: "p \<notin> reaped w" using False Suc.prems(2) by (simp add: fits_def)
    then have q: "stop_polls ao n p ?s = (g, t)" "fits ao p ?s w"
      using False Suc.prems(1) r by (auto simp: absent_def fits_def Let_def)
    show ?thesis
    proof (cases "n = 0")
      case True
      then show ?thesis using q(1) stop_hops(5) [OF p, of n] by auto
    next
      case False
      with Suc.IH [OF q] show ?thesis by (intro step_then [OF stop_hops(5) [OF p]]) simp
    qed
  qed
qed simp

lemma shows_send:
  "0 < p \<Longrightarrow> map (\<lambda>(p, g, _). (p, g)) (sent (send p g w)) = map (\<lambda>(p, g, _). (p, g)) (sent w) @ [(p, g)]"
  by (simp add: send_def)

text \<open>Taking the pid and sending SIGTERM, and the end of a supervisor that ignores it.\<close>

lemma term_path:
  assumes "0 < sh_pid w" "c = Outside \<or> c = Failing"
  shows "steps (placed c M w) (placed (Stop2 (sh_pid w) 50) M (send (sh_pid w) SIGTERM (w\<lparr>sh_pid := 0\<rparr>)))"
  using step_then [OF stop_hops(1) [OF assms] r_into_rtranclp [of session_step, OF stop_hops(3)]] .

lemma kill_path: "steps (placed (Stop2 p 0) M w) (placed Outside M (reap p (send p SIGKILL w)))"
  by (rule step_then [OF stop_hops(6) step_then [OF stop_hops(7) r_into_rtranclp [of session_step, OF stop_hops(8)]]])

lemma stop_path:
  assumes s: "shows_session s w" and f: "fits ao (ss_pid s) s w" and c: "c = Outside \<or> c = Failing"
  shows "\<exists>w'. steps (placed c M w) (placed Outside M w') \<and> shows_session (snd (autossh_session_stop ao s)) w'"
proof (cases "0 < ss_pid s")
  case False
  then have "steps (placed c M w) (placed Outside M (w\<lparr>sh_pid := 0\<rparr>))" using stop_hops(2) [OF _ c, of w] s by (auto simp: shows_session_def)
  moreover have "shows_session (snd (autossh_session_stop ao s)) (w\<lparr>sh_pid := 0\<rparr>)"
    using False s by (simp add: autossh_session_stop_def shows_session_def Let_def)
  ultimately show ?thesis by blast
next
  case True
  let ?p = "ss_pid s"
  let ?w = "send ?p SIGTERM (w\<lparr>sh_pid := 0\<rparr>)" and ?s = "kill_pid ?p SIGTERM (s\<lparr>ss_pid := 0\<rparr>)"
  obtain g t where g: "stop_polls ao 50 ?p ?s = (g, t)" by fastforce
  have t: "api_kills t = api_kills s @ [(?p, SIGTERM)]" "ss_pid t = 0"
    using stop_polls_runs [of ao 50 ?p ?s] g True by (auto simp: kill_pid_sends)
  have k: "fits ao ?p ?s ?w" using f True by (simp add: fits_def kill_pid_sends)
  have "steps (placed c M w) (placed (Stop2 ?p 50) M ?w)" using term_path [OF _ c, of w M] s True by (simp add: shows_session_def)
  from rtranclp_trans [OF this polls_path [OF g k]]
  have start: "steps (placed c M w) (if g then placed Outside M (reap ?p ?w) else placed (Stop2 ?p 0) M ?w)" by simp
  have sw: "map (\<lambda>(p, g, _). (p, g)) (sent ?w) = api_kills s @ [(?p, SIGTERM)]"
    using s True by (simp add: shows_session_def shows_send)
  let ?v = "if g then reap ?p ?w else reap ?p (send ?p SIGKILL ?w)"
  have "shows_session (snd (autossh_session_stop ao s)) ?v"
    using True g t sw by (simp add: autossh_session_stop_def shows_session_def Let_def kill_pid_sends shows_send)
  moreover have "steps (placed c M w) (placed Outside M ?v)"
    using start rtranclp_trans [OF _ kill_path, of "placed c M w" ?p M ?w] by (cases g) simp_all
  ultimately show ?thesis by blast
qed

section \<open>Polling the state\<close>

lemma state_path:
  assumes s: "shows_session s w" and f: "ss_pid s \<in> reaped w \<longrightarrow> fst (ao_waitpid ao (k_wait s)) \<noteq> ss_pid s"
  shows "\<exists>w'. steps (placed Outside M w) (placed Outside M w') \<and> shows_session (snd (autossh_session_state ao s)) w'"
proof (cases "0 < ss_pid s")
  case False
  then show ?thesis using s by (auto simp: autossh_session_state_def)
next
  case True
  let ?p = "ss_pid s"
  obtain rc e st where r: "ao_waitpid ao (k_wait s) = (rc, e, st)" by (metis prod_cases3)
  have load: "session_step (placed Outside M w) (placed (State1 ?p) M w)"
    using state_hops(1) [of w M] s True by (simp add: shows_session_def)
  show ?thesis
  proof (cases "rc = ?p")
    case False
    then have "shows_session (snd (autossh_session_state ao s)) w"
      using True s r by (simp add: autossh_session_state_def shows_session_def child_exited_def)
    then show ?thesis using step_then [OF load r_into_rtranclp [of session_step, OF state_hops(2)]] by blast
  next
    case True
    then have p: "?p \<notin> reaped w" using f r by auto
    have "steps (placed (State1 ?p) M w) (placed Outside M ((reap ?p w)\<lparr>sh_pid := 0\<rparr>))"
      using step_then [OF state_hops(3) [OF p] r_into_rtranclp [of session_step, OF state_hops(4)]] s
      by (simp add: shows_session_def)
    moreover have "shows_session (snd (autossh_session_state ao s)) ((reap ?p w)\<lparr>sh_pid := 0\<rparr>)"
      using True \<open>0 < ?p\<close> s r by (simp add: autossh_session_state_def shows_session_def child_exited_def)
    ultimately show ?thesis using load step_then by blast
  qed
qed

section \<open>Starting\<close>

text \<open>Once the kernel has handed out a supervisor's status, it reports it gone.\<close>

definition reaps_once :: "api_os \<Rightarrow> int \<Rightarrow> bool" where
  "reaps_once ao p \<longleftrightarrow> (\<forall>j. fst (ao_waitpid ao j) = p \<longrightarrow> absent ao p (Suc j))"

definition listened :: "api_os \<Rightarrow> int \<Rightarrow> autossh_session \<Rightarrow> (string + unit) \<times> autossh_session \<Rightarrow> bool" where
  "listened ao d s v \<longleftrightarrow>
     (\<forall>M w. reaps_once ao (ss_pid s) \<longrightarrow> shows_session s w \<longrightarrow> 0 < ss_pid s \<longrightarrow> ss_pid s \<notin> reaped w \<longrightarrow>
        (\<exists>w'. steps (placed Listen M w) (placed (case fst v of Inl _ \<Rightarrow> Failing | Inr _ \<Rightarrow> Outside) M w') \<and>
           shows_session (snd v) w' \<and> fits ao (ss_pid s) (snd v) w' \<and> ss_pid (snd v) = ss_pid s))"

text \<open>The four ways a turn of the loop goes: out of time, the supervisor has ended, the port answers,
  and once more.\<close>

lemma listened_late: "listened ao d s (Inl m, s\<lparr>k_clock := k\<rparr>)"
  unfolding listened_def using start_hops(4) by (fastforce simp: shows_session_def fits_def)

lemma listen_load_hop: "shows_session s w \<Longrightarrow> session_step (placed Listen M w) (placed (Listen1 (ss_pid s)) M w)"
  using start_hops(3) [of M w] by (simp add: shows_session_def)

lemma listened_early:
  assumes "fst (ao_waitpid ao (k_wait s)) = ss_pid s"
  shows "listened ao d s (Inl m, s\<lparr>k_clock := k, k_wait := Suc (k_wait s)\<rparr>)"
  unfolding listened_def
proof (intro allI impI)
  fix M w
  assume a: "reaps_once ao (ss_pid s)" "shows_session s w" "0 < ss_pid s" "ss_pid s \<notin> reaped w"
  have "absent ao (ss_pid s) (Suc (k_wait s))" using a(1) assms by (simp add: reaps_once_def)
  moreover have "steps (placed Listen M w) (placed Failing M (reap (ss_pid s) w))"
    by (rule step_then [OF listen_load_hop [OF a(2)] r_into_rtranclp [of session_step, OF start_hops(5) [OF a(3,4)]]])
  ultimately show "\<exists>w'. steps (placed Listen M w) (placed (case fst (Inl m, s\<lparr>k_clock := k, k_wait := Suc (k_wait s)\<rparr>) of
      Inl _ \<Rightarrow> Failing | Inr _ \<Rightarrow> Outside) M w') \<and> shows_session (snd (Inl m, s\<lparr>k_clock := k, k_wait := Suc (k_wait s)\<rparr>)) w' \<and>
      fits ao (ss_pid s) (snd (Inl m, s\<lparr>k_clock := k, k_wait := Suc (k_wait s)\<rparr>)) w' \<and>
      ss_pid (snd (Inl m, s\<lparr>k_clock := k, k_wait := Suc (k_wait s)\<rparr>)) = ss_pid s"
    using a(2) by (intro exI [of _ "reap (ss_pid s) w"]) (simp add: shows_session_def fits_def)
qed

lemma listened_up: "listened ao d s (Inr (), s\<lparr>k_clock := k, k_wait := l, k_conn := j\<rparr>)"
  unfolding listened_def
  using step_then [OF listen_load_hop r_into_rtranclp [of session_step, OF start_hops(7)]]
  by (fastforce simp: shows_session_def fits_def)

lemma listened_again:
  assumes "listened ao d (api_emit (ApiSleep 100) (s\<lparr>k_clock := k, k_wait := l, k_conn := j\<rparr>)) v"
  shows "listened ao d s v"
proof -
  have "steps (placed Listen M w) u" if "shows_session s w" "steps (placed Listen M w) u" for M w u
    using that(2) by (rule step_then [OF listen_load_hop [OF that(1)] step_then [OF start_hops(6)]])
  with assms show ?thesis unfolding listened_def by (simp add: shows_session_def)
qed

lemma listen_loop_path: "listen_loop ao d s = Some v \<Longrightarrow> listened ao d s v"
proof (rule listen_loop.raw_induct [where P = listened])
  fix f ao d s v
  assume IH: "\<And>ao d s v. f ao d s = Some v \<Longrightarrow> listened ao d s v"
    and run: "(let t = ao_clock ao (k_clock s); s = s\<lparr>k_clock := Suc (k_clock s)\<rparr> in
      if t < d then
        (case child_exited ao (ss_pid s) s of
           (Some status, s) \<Rightarrow> Some (Inl (msg_early status), s)
         | (None, s) \<Rightarrow>
             if ao_connect ao (k_conn s) then Some (Inr (), s\<lparr>k_conn := Suc (k_conn s)\<rparr>)
             else f ao d (api_emit (ApiSleep 100) (s\<lparr>k_conn := Suc (k_conn s)\<rparr>)))
      else Some (Inl (msg_timed_out (sc_bind_host (ss_config s)) (sc_local_port (ss_config s))), s)) = Some v"
  obtain rc e st where r: "ao_waitpid ao (k_wait s) = (rc, e, st)" by (metis prod_cases3)
  let ?s = "s\<lparr>k_clock := Suc (k_clock s), k_wait := Suc (k_wait s)\<rparr>"
  consider (late) "\<not> ao_clock ao (k_clock s) < d" | (early) "ao_clock ao (k_clock s) < d" "rc = ss_pid s"
    | (up) "ao_clock ao (k_clock s) < d" "rc \<noteq> ss_pid s" "ao_connect ao (k_conn s)"
    | (again) "ao_clock ao (k_clock s) < d" "rc \<noteq> ss_pid s" "\<not> ao_connect ao (k_conn s)" by blast
  then show "listened ao d s v"
  proof cases
    case late
    with run show ?thesis by (auto simp: Let_def listened_late)
  next
    case early
    with run r listened_early [of ao s d "msg_early st" "Suc (k_clock s)"] show ?thesis by (auto simp: Let_def child_exited_def)
  next
    case up
    with run r show ?thesis by (auto simp: Let_def child_exited_def listened_up)
  next
    case again
    with run r have "f ao d (api_emit (ApiSleep 100) (?s\<lparr>k_conn := Suc (k_conn s)\<rparr>)) = Some v"
      by (simp add: Let_def child_exited_def)
    from listened_again [OF IH [OF this]] show ?thesis .
  qed
qed

text \<open>A start that runs alone.\<close>

definition path_to :: "pc multiset \<Rightarrow> shared \<Rightarrow> autossh_session \<Rightarrow> bool" where
  "path_to M w t \<longleftrightarrow> (\<exists>w'. steps (placed Outside M w) (placed Outside M w') \<and> shows_session t w')"

lemma shows_error: "shows_session s w \<Longrightarrow> shows_session (snd (set_error m s)) w"
  by (simp add: shows_session_def set_error_def)

text \<open>Waiting for the listener of a supervisor that has just been forked.\<close>

lemma listener_path:
  assumes sh: "shows_session s w" and pos: "0 < ss_pid s" and new: "ss_pid s \<notin> reaped w" and once: "reaps_once ao (ss_pid s)"
    and run: "wait_for_listener ao s = Some (q, u)"
  obtains w' where "steps (placed Listen M w) (placed (case q of Inl _ \<Rightarrow> Failing | Inr _ \<Rightarrow> Outside) M w')"
    "shows_session u w'" "fits ao (ss_pid s) u w'" "ss_pid u = ss_pid s"
proof (cases "and_then (string_from_cstring (sc_bind_host (ss_config s))) (\<lambda>host. bind_addr ao host (sc_local_port (ss_config s)))")
  case (Inl e)
  then have "q = Inl e" "u = s" using run by (auto simp: wait_for_listener_def)
  with that [of w] sh new start_hops(4) [of M w] show thesis by (auto simp: fits_def)
next
  case (Inr a)
  then have l: "listen_loop ao (ao_clock ao (k_clock s) + sc_start_timeout_ms (ss_config s)) (s\<lparr>k_clock := Suc (k_clock s)\<rparr>) = Some (q, u)"
    using run by (simp add: wait_for_listener_def)
  have "shows_session (s\<lparr>k_clock := Suc (k_clock s)\<rparr>) w" using sh by (simp add: shows_session_def)
  with listen_loop_path [OF l] pos once new that show thesis by (fastforce simp: listened_def)
qed

lemma start_fork_path:
  assumes s: "shows_session s w" and p: "ss_pid s \<le> 0" and f: "ao_fork ao (k_fork s) \<noteq> 0"
    and new: "ao_fork ao (k_fork s) \<notin> set (forks w) - reaped w" and once: "reaps_once ao (ao_fork ao (k_fork s))"
    and run: "start_fork ao s = Some (r, t)"
  shows "path_to M w t"
proof (cases "ao_fork ao (k_fork s) < 0")
  case True
  with run have "t = snd (set_error ''fork failed'' (s\<lparr>ss_state := AUTOSSH_STATE_STARTING, k_fork := Suc (k_fork s)\<rparr>))"
    by (auto simp: start_fork_def Let_def)
  then have "shows_session t w" using s by (simp add: shows_session_def set_error_def)
  then show ?thesis unfolding path_to_def by blast
next
  case False
  let ?c = "ao_fork ao (k_fork s)"
  let ?s = "s\<lparr>ss_state := AUTOSSH_STATE_STARTING, k_fork := Suc (k_fork s), ss_pid := ?c\<rparr>"
  have pos: "0 < ?c" using False f by simp
  have "session_step (placed Outside M w) (placed Start1 M w)"
    using start_hops(1) [of w M] s p by (simp add: shows_session_def)
  then have go: "steps (placed Outside M w) (placed Listen M (forked ?c w))"
    using step_then r_into_rtranclp [of session_step, OF fork_hop [OF pos new]] by blast
  have sh: "shows_session ?s (forked ?c w)" "ss_pid ?s \<notin> reaped (forked ?c w)"
    using s by (simp_all add: shows_session_def forked_def)
  obtain q u where q: "wait_for_listener ao ?s = Some (q, u)"
    using run False by (auto simp: start_fork_def Let_def split: option.splits)
  obtain w' where w': "steps (placed Listen M (forked ?c w)) (placed (case q of Inl _ \<Rightarrow> Failing | Inr _ \<Rightarrow> Outside) M w')"
    "shows_session u w'" "fits ao ?c u w'" "ss_pid u = ?c"
    using listener_path [OF sh(1) _ sh(2) _ q, of M] pos once by auto
  note to = rtranclp_trans [OF go w'(1)]
  show ?thesis
  proof (cases q)
    case (Inr a)
    then have "t = u\<lparr>ss_state := AUTOSSH_STATE_RUNNING, ss_last_error := []\<rparr>"
      using run q False by (simp add: start_fork_def Let_def)
    then have "shows_session t w'" using w'(2) by (simp add: shows_session_def)
    with to Inr show ?thesis unfolding path_to_def by auto
  next
    case (Inl e)
    then have t: "t = snd (set_error e (snd (autossh_session_stop ao u)))"
      using run q False by (simp add: start_fork_def Let_def)
    obtain v where v: "steps (placed Failing M w') (placed Outside M v)" "shows_session (snd (autossh_session_stop ao u)) v"
      using stop_path [of u w' ao Failing M] w' by auto
    have "steps (placed Outside M w) (placed Outside M v)" using rtranclp_trans [OF to] v(1) Inl by simp
    then show ?thesis unfolding path_to_def using shows_error [OF v(2)] t by blast
  qed
qed

lemma session_start_path:
  assumes s: "shows_session s w" and f: "ao_fork ao (k_fork s) \<noteq> 0"
    and new: "ao_fork ao (k_fork s) \<notin> set (forks w) - reaped w" and once: "reaps_once ao (ao_fork ao (k_fork s))"
    and run: "autossh_session_start ao s = Some (r, t)"
  shows "path_to M w t"
proof (cases "0 < ss_pid s \<or> (\<exists>e. string_from_cstring (sc_bind_host (ss_config s)) = Inl e)")
  case True
  then have "\<exists>m. set_error m s = (r, t)" using run by (auto simp: autossh_session_start_def split: if_splits)
  then obtain m where "t = snd (set_error m s)" by (metis snd_conv)
  then show ?thesis unfolding path_to_def using shows_error [OF s] by blast
next
  case False
  then obtain host where h: "string_from_cstring (sc_bind_host (ss_config s)) = Inr host" and p: "ss_pid s \<le> 0"
    by (cases "string_from_cstring (sc_bind_host (ss_config s))") auto
  obtain q u where q: "reserve_ports ao host s = (q, u)" "ss_pid u = ss_pid s" "api_kills u = api_kills s" "k_fork u = k_fork s"
    using reserve_ports_frame by blast
  have u: "shows_session u w" using s q by (simp add: shows_session_def)
  show ?thesis
  proof (cases q)
    case (Inl e)
    then have "t = snd (set_error e u)" using run h p q(1) by (simp add: autossh_session_start_def)
    then show ?thesis unfolding path_to_def using shows_error [OF u] by blast
  next
    case (Inr a)
    then have "start_fork ao u = Some (r, t)" using run h p q(1) by (simp add: autossh_session_start_def)
    then show ?thesis using start_fork_path [OF u] f new once p q by simp
  qed
qed

section \<open>Claims\<close>

text \<open>C17: The two models of a session agree. From any shared state that shows the session, and whatever
  points the other threads are at, a call of stop, of state or of start that runs alone is a path of
  the step relation, and ends in a shared state that shows the session it returns, with the same pid
  and the same signals in the same order. What the kernel answers must fit what has been reaped: it
  hands out a status once, and pids that are not in use.\<close>

theorem session_calls_are_paths:
  assumes "shows_session s w"
  shows "(fits ao (ss_pid s) s w \<longrightarrow> path_to M w (snd (autossh_session_stop ao s))) \<and>
    ((ss_pid s \<in> reaped w \<longrightarrow> fst (ao_waitpid ao (k_wait s)) \<noteq> ss_pid s) \<longrightarrow>
      path_to M w (snd (autossh_session_state ao s))) \<and>
    (ao_fork ao (k_fork s) \<noteq> 0 \<and> ao_fork ao (k_fork s) \<notin> set (forks w) - reaped w \<and>
      reaps_once ao (ao_fork ao (k_fork s)) \<and> autossh_session_start ao s = Some (r, t) \<longrightarrow> path_to M w t)"
  using stop_path [OF assms, of ao Outside M] state_path [OF assms, of ao M] session_start_path [OF assms, of ao r t M]
  by (auto simp: path_to_def)

theorem session_calls_are_paths_witness:
  "\<exists>r t. autossh_session_start lonely_os idle_session = Some (r, t) \<and> path_to {#State1 7#} (idle 0) t"
proof -
  obtain r t where r: "autossh_session_start lonely_os idle_session = Some (r, t)" using lonely_start by auto
  have "shows_session idle_session (idle 0)" by (simp add: shows_session_def idle_session_def idle_def api_kills_def)
  from session_calls_are_paths [OF this, of lonely_os "{#State1 7#}" r t] r show ?thesis
    by (auto simp: lonely_os_def idle_session_def idle_def reaps_once_def)
qed

end
