(* ===== verification/Detector.thy ===== *)
theory Detector
  imports CString
begin

text \<open>
  \<^verbatim>\<open>ssh-stuck-detector/src/lib.rs\<close>: the library that is preloaded into ssh. Five library calls
  are wrapped; each has a tracker with the time at which the call in flight started. A monitor
  thread looks at the trackers once a second, warns on stderr and finally ends the process.

  The clock (\<^verbatim>\<open>now_secs\<close>), the environment variable and the wrapped functions are parameters.
  The wrapped function may itself use the library, so it runs on the detector's state.
\<close>

section \<open>Trackers\<close>

datatype hook = CONNECT_T | GETADDRINFO_T | RECV_T | RECVFROM_T | RECVMSG_T

record tracker =
  tr_name :: string
  start_sec :: int
  last_warn_sec :: int

record detector =
  trackers :: "hook \<Rightarrow> tracker"
  THRESHOLD_SECS :: int
  MONITOR_STARTED :: bool
  REAL :: "hook \<Rightarrow> bool"
  written :: "string list"

definition DEFAULT_THRESHOLD_SECS :: int where "DEFAULT_THRESHOLD_SECS = 30"

definition new_tracker :: "string \<Rightarrow> tracker" where
  "new_tracker name = \<lparr>tr_name = name, start_sec = 0, last_warn_sec = 0\<rparr>"

definition TRACKERS :: "hook list" where
  "TRACKERS = [CONNECT_T, GETADDRINFO_T, RECV_T, RECVFROM_T, RECVMSG_T]"

text \<open>The table has every tracker once, so it enumerates the type.\<close>

instantiation hook :: enum
begin

definition enum_hook :: "hook list" where
  "enum_hook = TRACKERS"

definition enum_all_hook :: "(hook \<Rightarrow> bool) \<Rightarrow> bool" where
  "enum_all_hook P = list_all P TRACKERS"

definition enum_ex_hook :: "(hook \<Rightarrow> bool) \<Rightarrow> bool" where
  "enum_ex_hook P = list_ex P TRACKERS"

instance
proof
  have all: "h \<in> set TRACKERS" for h by (cases h) (simp_all add: TRACKERS_def)
  show "(UNIV :: hook set) = set enum_class.enum" using all by (auto simp: enum_hook_def)
  show "distinct (enum_class.enum :: hook list)" by (simp add: enum_hook_def TRACKERS_def)
  show "enum_class.enum_all P \<longleftrightarrow> Ball UNIV P" for P :: "hook \<Rightarrow> bool"
    using all by (auto simp: enum_all_hook_def list_all_iff)
  show "enum_class.enum_ex P \<longleftrightarrow> Bex UNIV P" for P :: "hook \<Rightarrow> bool"
    using all by (auto simp: enum_ex_hook_def list_ex_iff)
qed

end

lemma TRACKERS_all [simp]: "distinct TRACKERS" "h \<in> set TRACKERS"
  using enum_distinct [where 'a = hook] in_enum [of h] by (simp_all add: enum_hook_def)

fun hook_name :: "hook \<Rightarrow> string" where
  "hook_name CONNECT_T = ''connect''"
| "hook_name GETADDRINFO_T = ''getaddrinfo''"
| "hook_name RECV_T = ''recv''"
| "hook_name RECVFROM_T = ''recvfrom''"
| "hook_name RECVMSG_T = ''recvmsg''"

definition initial_detector :: detector where
  "initial_detector =
     \<lparr>trackers = (\<lambda>h. new_tracker (hook_name h)), THRESHOLD_SECS = DEFAULT_THRESHOLD_SECS,
      MONITOR_STARTED = False, REAL = (\<lambda>_. False), written = []\<rparr>"

definition set_tracker :: "hook \<Rightarrow> tracker \<Rightarrow> detector \<Rightarrow> detector" where
  "set_tracker h t d = d\<lparr>trackers := (trackers d)(h := t)\<rparr>"

text \<open>Starting and ending a call at the time \<open>now\<close>; \<open>enter\<close> hands the previous start to \<open>leave\<close>.\<close>

definition enter :: "int \<Rightarrow> tracker \<Rightarrow> int \<times> tracker" where
  "enter now t =
     (let prev = start_sec t in (prev, if prev = 0 then t\<lparr>start_sec := now\<rparr> else t))"

definition leave :: "int \<Rightarrow> tracker \<Rightarrow> tracker" where
  "leave prev t = (if prev = 0 then t\<lparr>start_sec := 0, last_warn_sec := 0\<rparr> else t)"

section \<open>The threshold\<close>

definition read_threshold :: "string option \<Rightarrow> detector \<Rightarrow> detector" where
  "read_threshold raw d =
     (case raw of
        None \<Rightarrow> d
      | Some r \<Rightarrow>
          let (v, rest) = strtol 10 r in
          if v > 0 \<and> rest = [] then d\<lparr>THRESHOLD_SECS := v\<rparr> else d)"

section \<open>The warning line\<close>

definition write_stderr :: "string \<Rightarrow> detector \<Rightarrow> detector" where
  "write_stderr m d = d\<lparr>written := written d @ [m]\<rparr>"

text \<open>The byte loops fill a buffer of 128 bytes; bytes beyond it are dropped.\<close>

definition WARN_BUF :: nat where "WARN_BUF = 128"

definition push :: "string \<Rightarrow> string \<Rightarrow> string" where
  "push bs buf = foldl (\<lambda>buf b. if length buf < WARN_BUF then buf @ [b] else buf) buf bs"

text \<open>
  The digits of a positive number, least significant first, into an array of 20 bytes; an
  index beyond it panics, which is \<open>None\<close>.
\<close>

function itoa_loop :: "nat \<Rightarrow> string \<Rightarrow> string option" where
  "itoa_loop s digits =
     (if s = 0 then Some digits
      else if length digits < 20 then itoa_loop (s div 10) (digits @ [digit_char (s mod 10)])
      else None)"
  by pat_completeness auto
termination by (relation "measure fst") auto

declare itoa_loop.simps [simp del]

definition itoa :: "int \<Rightarrow> string option" where
  "itoa secs =
     (let s = (if secs < 0 then 0 else secs)
      in if s = 0 then Some ''0'' else itoa_loop (nat s) [])"

definition warn_stderr :: "string \<Rightarrow> int \<Rightarrow> detector \<Rightarrow> detector option" where
  "warn_stderr name secs d =
     (case itoa secs of
        None \<Rightarrow> None
      | Some digits \<Rightarrow>
          Some (write_stderr
            (push ('' secs'' @ [CHR 0x0A]) (push (rev digits) (push ''() for ''
              (push name (push ''ssh-stuck-detector: STUCK in '' []))))) d))"

section \<open>The monitor thread\<close>

definition msg_abort :: string where
  "msg_abort = ''ssh-stuck-detector: aborting stuck process'' @ [CHR 0x0A]"

text \<open>
  One tracker of a scan. The outcome \<open>Exit 1\<close> ends the host process; a panic in the warning
  would abort it (\<open>Killed 6\<close>).
\<close>

definition warn_tracker :: "int \<Rightarrow> int \<Rightarrow> hook \<Rightarrow> (detector, unit) prog" where
  "warn_tracker now elapsed h d =
     (let t = trackers d h in
      case warn_stderr (tr_name t) elapsed (set_tracker h (t\<lparr>last_warn_sec := now\<rparr>) d) of
        None \<Rightarrow> (Killed 6, d)
      | Some d' \<Rightarrow> (Return (), d'))"

definition scan_tracker :: "int \<Rightarrow> int \<Rightarrow> hook \<Rightarrow> (detector, unit) prog" where
  "scan_tracker now threshold h d =
     (let t = trackers d h; elapsed = i64 (now - start_sec t) in
      if start_sec t = 0 \<or> elapsed < threshold then (Return (), d)
      else then_p
        (if i64 (now - last_warn_sec t) \<ge> threshold then warn_tracker now elapsed h else return_p ())
        (if elapsed \<ge> i64 (threshold * 2) then then_p (modify_p (write_stderr msg_abort)) (exit_p 1)
         else return_p ()) d)"

primrec scan_trackers :: "int \<Rightarrow> int \<Rightarrow> hook list \<Rightarrow> (detector, unit) prog" where
  "scan_trackers now threshold [] = return_p ()"
| "scan_trackers now threshold (h # hs) =
     then_p (scan_tracker now threshold h) (scan_trackers now threshold hs)"

text \<open>One turn of the monitor loop after its sleep.\<close>

definition monitor_pass :: "int \<Rightarrow> (detector, unit) prog" where
  "monitor_pass now d = scan_trackers now (THRESHOLD_SECS d) TRACKERS d"

definition ensure_monitor :: "string option \<Rightarrow> detector \<Rightarrow> detector" where
  "ensure_monitor env d =
     (if MONITOR_STARTED d then d else (read_threshold env d)\<lparr>MONITOR_STARTED := True\<rparr>)"

section \<open>The wrapped calls\<close>

text \<open>
  Looking up the real function is remembered in \<open>REAL\<close>. The real call is a function of the
  detector's state; \<open>t\<close> is the time at which it starts.
\<close>

definition next_fn :: "hook \<Rightarrow> detector \<Rightarrow> detector" where
  "next_fn h d = (if REAL d h then d else d\<lparr>REAL := (REAL d)(h := True)\<rparr>)"

definition call_begin :: "hook \<Rightarrow> string option \<Rightarrow> int \<Rightarrow> detector \<Rightarrow> int \<times> detector" where
  "call_begin h env t d0 =
     (let d = ensure_monitor env (next_fn h d0);
          (prev, tr) = enter t (trackers d h)
      in (prev, set_tracker h tr d))"

definition call_end :: "hook \<Rightarrow> int \<Rightarrow> detector \<Rightarrow> detector" where
  "call_end h prev d = set_tracker h (leave prev (trackers d h)) d"

definition intercept ::
  "hook \<Rightarrow> string option \<Rightarrow> int \<Rightarrow> (detector \<Rightarrow> 'r \<times> detector) \<Rightarrow> detector \<Rightarrow> 'r \<times> detector" where
  "intercept h env t real d0 =
     (let (prev, d) = call_begin h env t d0;
          (r, d) = real d
      in (r, call_end h prev d))"

definition connect where
  "connect env t real fd addr len = intercept CONNECT_T env t (real fd addr len)"

definition getaddrinfo where
  "getaddrinfo env t real node service hints res = intercept GETADDRINFO_T env t (real node service hints res)"

definition recv where
  "recv env t real fd buf n flags = intercept RECV_T env t (real fd buf n flags)"

definition recvfrom where
  "recvfrom env t real fd buf n flags addr addrlen =
     intercept RECVFROM_T env t (real fd buf n flags addr addrlen)"

definition recvmsg where
  "recvmsg env t real fd msg flags = intercept RECVMSG_T env t (real fd msg flags)"

section \<open>The warning is never cut\<close>

lemma push_fits: "length buf + length bs \<le> WARN_BUF \<Longrightarrow> push bs buf = buf @ bs"
  unfolding push_def by (induction bs arbitrary: buf) simp_all

lemma itoa_loop_digits:
  "0 < s \<Longrightarrow> length ds + length (show_nat s) \<le> 20 \<Longrightarrow> itoa_loop s ds = Some (ds @ rev (show_nat s))"
proof (induction s arbitrary: ds rule: less_induct)
  case (less s)
  show ?case
  proof (cases "s div 10 = 0")
    case True
    with less.prems show ?thesis
      by (subst itoa_loop.simps) (simp add: itoa_loop.simps [of 0] div_eq_0_iff show_nat_one)
  next
    case False
    then have s: "show_nat s = show_nat (s div 10) @ [digit_char (s mod 10)]" by (simp add: show_nat_snoc)
    have "itoa_loop (s div 10) (ds @ [digit_char (s mod 10)]) =
        Some ((ds @ [digit_char (s mod 10)]) @ rev (show_nat (s div 10)))"
      using False less.prems by (intro less.IH) (auto simp: s)
    moreover have "length ds < 20" using less.prems by (simp add: s)
    ultimately show ?thesis using less.prems(1) by (subst itoa_loop.simps) (simp add: s)
  qed
qed

lemma show_nat_19: "secs < 2 ^ 63 \<Longrightarrow> length (show_nat (nat secs)) \<le> 19"
  by (rule show_nat_length) simp_all

lemma itoa_digits:
  assumes "secs < 2 ^ 63"
  shows "itoa secs = Some (rev (show_nat (nat secs)))"
proof (cases "0 < secs")
  case True
  with itoa_loop_digits [of "nat secs" "[]"] show_nat_19 [OF assms] show ?thesis
    by (simp add: itoa_def Let_def)
qed (simp add: itoa_def show_nat_one digit_chars Let_def)

definition warn_line :: "hook \<Rightarrow> int \<Rightarrow> string" where
  "warn_line h secs = ''ssh-stuck-detector: STUCK in '' @ hook_name h @ ''() for '' @ show_nat (nat secs)
     @ '' secs'' @ [CHR 0x0A]"

lemma hook_name_length: "length (hook_name h) \<le> 11"
  by (cases h) simp_all

lemma warn_stderr_writes:
  assumes "secs < 2 ^ 63"
  shows "warn_stderr (hook_name h) secs d = Some (write_stderr (warn_line h secs) d)"
proof -
  note l = hook_name_length [of h] show_nat_19 [OF assms]
  have "push (hook_name h) (push ''ssh-stuck-detector: STUCK in '' []) =
      ''ssh-stuck-detector: STUCK in '' @ hook_name h"
    using l by (simp add: push_fits WARN_BUF_def)
  moreover have "push ''() for '' (''ssh-stuck-detector: STUCK in '' @ hook_name h) =
      ''ssh-stuck-detector: STUCK in '' @ hook_name h @ ''() for ''"
    using l by (simp add: push_fits WARN_BUF_def)
  moreover have "push (show_nat (nat secs)) (''ssh-stuck-detector: STUCK in '' @ hook_name h @ ''() for '') =
      ''ssh-stuck-detector: STUCK in '' @ hook_name h @ ''() for '' @ show_nat (nat secs)"
    using l by (simp add: push_fits WARN_BUF_def)
  moreover have "push ('' secs'' @ [CHR 0x0A])
      (''ssh-stuck-detector: STUCK in '' @ hook_name h @ ''() for '' @ show_nat (nat secs)) = warn_line h secs"
    using l by (simp add: push_fits WARN_BUF_def warn_line_def)
  ultimately show ?thesis by (simp only: warn_stderr_def itoa_digits [OF assms] rev_rev_ident option.case)
qed

section \<open>One pass of the monitor\<close>

text \<open>What a pass at the time \<open>now\<close> does for a tracker: warn when the call is over the threshold
  and was not warned about within the last threshold, end the process at twice the threshold.\<close>

definition due :: "int \<Rightarrow> int \<Rightarrow> tracker \<Rightarrow> bool" where
  "due now thr t \<longleftrightarrow> start_sec t \<noteq> 0 \<and> thr \<le> now - start_sec t \<and> thr \<le> now - last_warn_sec t"

definition doomed :: "int \<Rightarrow> int \<Rightarrow> tracker \<Rightarrow> bool" where
  "doomed now thr t \<longleftrightarrow> start_sec t \<noteq> 0 \<and> 2 * thr \<le> now - start_sec t"

definition sane :: "int \<Rightarrow> hook \<Rightarrow> tracker \<Rightarrow> bool" where
  "sane now h t \<longleftrightarrow> tr_name t = hook_name h \<and> 0 \<le> start_sec t \<and> start_sec t \<le> now \<and>
     0 \<le> last_warn_sec t \<and> last_warn_sec t \<le> now \<and> now < 2 ^ 62"

definition warned :: "int \<Rightarrow> int \<Rightarrow> hook \<Rightarrow> detector \<Rightarrow> detector" where
  "warned now thr h d =
     (let t = trackers d h in
      if due now thr t
      then write_stderr (warn_line h (now - start_sec t)) (set_tracker h (t\<lparr>last_warn_sec := now\<rparr>) d)
      else d)"

lemma scan_tracker_spec:
  assumes "sane now h (trackers d h)" and "0 < thr" "thr < 2 ^ 63"
  shows "scan_tracker now thr h d =
    (if doomed now thr (trackers d h) then (Exit 1, write_stderr msg_abort (warned now thr h d))
     else (Return (), warned now thr h d))"
proof -
  let ?t = "trackers d h"
  have s: "tr_name ?t = hook_name h" "0 \<le> start_sec ?t" "start_sec ?t \<le> now"
    "0 \<le> last_warn_sec ?t" "last_warn_sec ?t \<le> now" "now < 2 ^ 62"
    using assms(1) by (simp_all add: sane_def)
  then have i: "i64 (now - start_sec ?t) = now - start_sec ?t" "i64 (now - last_warn_sec ?t) = now - last_warn_sec ?t"
    by (simp_all add: i64_id)
  have w: "warn_tracker now (now - start_sec ?t) h d = (Return (),
      write_stderr (warn_line h (now - start_sec ?t)) (set_tracker h (?t\<lparr>last_warn_sec := now\<rparr>) d))"
    using s by (simp add: warn_tracker_def warn_stderr_writes Let_def)
  show ?thesis
  proof (cases "start_sec ?t = 0 \<or> now - start_sec ?t < thr")
    case True
    then show ?thesis using assms by (auto simp: scan_tracker_def i warned_def due_def doomed_def)
  next
    case False
    then have "i64 (thr * 2) = thr * 2" using s assms(2) by (intro i64_id) auto
    with False show ?thesis
      by (auto simp: scan_tracker_def i w warned_def due_def doomed_def Let_def exit_p_def return_p_def then_p_def bind_p_def
          modify_p_def mult.commute)
  qed
qed

lemma trackers_warned:
  "trackers (warned now thr h d) h' =
     (if h' = h \<and> due now thr (trackers d h) then (trackers d h)\<lparr>last_warn_sec := now\<rparr> else trackers d h')"
  by (auto simp: warned_def write_stderr_def set_tracker_def Let_def)

lemma warned_keeps [simp]:
  "THRESHOLD_SECS (warned now thr h d) = THRESHOLD_SECS d"
  "MONITOR_STARTED (warned now thr h d) = MONITOR_STARTED d"
  by (simp_all add: warned_def write_stderr_def set_tracker_def Let_def)

definition pass_line :: "int \<Rightarrow> detector \<Rightarrow> hook \<Rightarrow> string" where
  "pass_line now d h = warn_line h (now - start_sec (trackers d h))"

lemma written_warned:
  "written (warned now thr h d) = written d @ (if due now thr (trackers d h) then [pass_line now d h] else [])"
  by (simp add: warned_def write_stderr_def set_tracker_def Let_def pass_line_def)

lemma scan_trackers_spec:
  assumes "distinct hs" "\<And>h. h \<in> set hs \<Longrightarrow> sane now h (trackers d h)" "0 < thr" "thr < 2 ^ 63"
  shows "if \<exists>h \<in> set hs. doomed now thr (trackers d h) then fst (scan_trackers now thr hs d) = Exit 1
    else scan_trackers now thr hs d = (Return (), fold (warned now thr) hs d)"
  using assms(1,2)
proof (induction hs arbitrary: d)
  case Nil
  then show ?case by (simp add: return_p_def)
next
  case (Cons h hs)
  have one: "scan_tracker now thr h d =
      (if doomed now thr (trackers d h) then (Exit 1, write_stderr msg_abort (warned now thr h d))
       else (Return (), warned now thr h d))"
    using Cons.prems assms(3,4) by (intro scan_tracker_spec) simp_all
  have same: "trackers (warned now thr h d) h' = trackers d h'" if "h' \<in> set hs" for h'
    using that Cons.prems(1) by (auto simp: trackers_warned)
  have "if \<exists>g \<in> set hs. doomed now thr (trackers d g)
     then fst (scan_trackers now thr hs (warned now thr h d)) = Exit 1
     else scan_trackers now thr hs (warned now thr h d) = (Return (), fold (warned now thr) hs (warned now thr h d))"
    using Cons.IH [of "warned now thr h d"] Cons.prems same by simp
  with one show ?case
    by (cases "doomed now thr (trackers d h)") (auto split: if_splits)
qed

lemma fold_warned:
  assumes "distinct hs"
  shows "written (fold (warned now thr) hs d) =
      written d @ map (pass_line now d) (filter (\<lambda>h. due now thr (trackers d h)) hs)"
    and "trackers (fold (warned now thr) hs d) h =
      (if h \<in> set hs \<and> due now thr (trackers d h) then (trackers d h)\<lparr>last_warn_sec := now\<rparr> else trackers d h)"
    and "THRESHOLD_SECS (fold (warned now thr) hs d) = THRESHOLD_SECS d"
    and "MONITOR_STARTED (fold (warned now thr) hs d) = MONITOR_STARTED d"
proof -
  have "written (fold (warned now thr) hs d) =
      written d @ map (pass_line now d) (filter (\<lambda>h. due now thr (trackers d h)) hs) \<and>
    trackers (fold (warned now thr) hs d) h =
      (if h \<in> set hs \<and> due now thr (trackers d h) then (trackers d h)\<lparr>last_warn_sec := now\<rparr> else trackers d h) \<and>
    THRESHOLD_SECS (fold (warned now thr) hs d) = THRESHOLD_SECS d \<and>
    MONITOR_STARTED (fold (warned now thr) hs d) = MONITOR_STARTED d"
    using assms
  proof (induction hs arbitrary: d)
    case (Cons g hs)
    have same: "g' \<in> set hs \<Longrightarrow> trackers (warned now thr g d) g' = trackers d g'" for g'
      using Cons.prems by (auto simp: trackers_warned)
    have "map (pass_line now (warned now thr g d)) (filter (\<lambda>h. due now thr (trackers (warned now thr g d) h)) hs) =
        map (pass_line now d) (filter (\<lambda>h. due now thr (trackers d h)) hs)"
      by (intro map_cong filter_cong refl) (auto simp: same pass_line_def)
    with Cons.IH [of "warned now thr g d"] Cons.prems same show ?case
      by (auto simp: written_warned trackers_warned)
  qed simp
  then show "written (fold (warned now thr) hs d) =
      written d @ map (pass_line now d) (filter (\<lambda>h. due now thr (trackers d h)) hs)"
    and "trackers (fold (warned now thr) hs d) h =
      (if h \<in> set hs \<and> due now thr (trackers d h) then (trackers d h)\<lparr>last_warn_sec := now\<rparr> else trackers d h)"
    and "THRESHOLD_SECS (fold (warned now thr) hs d) = THRESHOLD_SECS d"
    and "MONITOR_STARTED (fold (warned now thr) hs d) = MONITOR_STARTED d"
    by blast+
qed

section \<open>Calls and the monitor, interleaved\<close>

text \<open>
  A world: the detector, the clock and the calls in flight of one thread, innermost first, each
  with its token and the time it started. A call made while another one is in flight (from a
  signal handler, or by the resolver inside \<^verbatim>\<open>getaddrinfo\<close>) returns first. The monitor may pass
  between any two steps; here a pass is one step, and so are the beginning and the end of a call
  (the theory \<^verbatim>\<open>Detector_Steps\<close> splits them into their atomic operations and shows that these steps
  are paths there). The clock is monotone and stays below \<open>2 ^ 62\<close> seconds.
\<close>

record world =
  det :: detector
  clk :: int
  calls :: "(hook \<times> int \<times> int) list"

inductive dstep :: "string option \<Rightarrow> world \<Rightarrow> world \<Rightarrow> bool" for env where
  clock_tick: "clk w \<le> c \<Longrightarrow> c < 2 ^ 62 \<Longrightarrow> dstep env w (w\<lparr>clk := c\<rparr>)"
| call: "call_begin h env (clk w) (det w) = (prev, d) \<Longrightarrow>
    dstep env w (w\<lparr>det := d, calls := (h, prev, clk w) # calls w\<rparr>)"
| finish: "calls w = (h, prev, t) # cs \<Longrightarrow>
    dstep env w (w\<lparr>det := call_end h prev (det w), calls := cs\<rparr>)"
| pass: "MONITOR_STARTED (det w) \<Longrightarrow> monitor_pass (clk w) (det w) = (Return (), d) \<Longrightarrow>
    dstep env w (w\<lparr>det := d\<rparr>)"

inductive dreach :: "string option \<Rightarrow> world \<Rightarrow> bool" for env where
  start: "1 \<le> c \<Longrightarrow> c < 2 ^ 62 \<Longrightarrow> dreach env \<lparr>det = initial_detector, clk = c, calls = []\<rparr>"
| step: "dreach env w \<Longrightarrow> dstep env w w' \<Longrightarrow> dreach env w'"

text \<open>The specification of a tracker: when the outermost call in flight started, 0 if none.\<close>

fun outermost :: "hook \<Rightarrow> (hook \<times> int \<times> int) list \<Rightarrow> int" where
  "outermost h [] = 0"
| "outermost h ((g, p, t) # cs) =
     (if outermost h cs \<noteq> 0 then outermost h cs else if g = h then t else 0)"

fun stack_ok :: "int \<Rightarrow> (hook \<times> int \<times> int) list \<Rightarrow> bool" where
  "stack_ok now [] = True"
| "stack_ok now ((g, p, t) # cs) = (p = outermost g cs \<and> 0 < t \<and> t \<le> now \<and> stack_ok now cs)"

definition warn_ok :: "int \<Rightarrow> int \<Rightarrow> tracker \<Rightarrow> bool" where
  "warn_ok now thr t \<longleftrightarrow> last_warn_sec t = 0 \<or>
     start_sec t \<noteq> 0 \<and> start_sec t + thr \<le> last_warn_sec t \<and> last_warn_sec t \<le> now"

definition dinv :: "world \<Rightarrow> bool" where
  "dinv w \<longleftrightarrow> 1 \<le> clk w \<and> clk w < 2 ^ 62 \<and> 0 < THRESHOLD_SECS (det w) \<and> THRESHOLD_SECS (det w) < 2 ^ 63 \<and>
     stack_ok (clk w) (calls w) \<and> (calls w \<noteq> [] \<longrightarrow> MONITOR_STARTED (det w)) \<and>
     (\<forall>h. start_sec (trackers (det w) h) = outermost h (calls w) \<and> tr_name (trackers (det w) h) = hook_name h \<and>
          warn_ok (clk w) (THRESHOLD_SECS (det w)) (trackers (det w) h))"

lemma stack_ok_mono: "stack_ok n cs \<Longrightarrow> n \<le> m \<Longrightarrow> stack_ok m cs"
  by (induction cs rule: stack_ok.induct) auto

lemma warn_ok_mono: "warn_ok n thr t \<Longrightarrow> n \<le> m \<Longrightarrow> warn_ok m thr t"
  by (auto simp: warn_ok_def)

lemma outermost_range: "stack_ok now cs \<Longrightarrow> 0 \<le> now \<Longrightarrow> 0 \<le> outermost h cs \<and> outermost h cs \<le> now"
  by (induction cs rule: stack_ok.induct) auto

lemma outermost_Nil: "outermost h cs \<noteq> 0 \<Longrightarrow> cs \<noteq> []"
  by auto

lemma dinv_hook:
  assumes "dinv w"
  shows "start_sec (trackers (det w) h) = outermost h (calls w)" "tr_name (trackers (det w) h) = hook_name h"
    "warn_ok (clk w) (THRESHOLD_SECS (det w)) (trackers (det w) h)"
  using assms by (simp_all add: dinv_def)

lemma dinv_sane:
  assumes "dinv w"
  shows "sane (clk w) h (trackers (det w) h)"
proof -
  have b: "1 \<le> clk w" "clk w < 2 ^ 62" "0 < THRESHOLD_SECS (det w)" "stack_ok (clk w) (calls w)"
    using assms by (simp_all add: dinv_def)
  with outermost_range [of "clk w" "calls w" h] dinv_hook [OF assms, of h] show ?thesis
    by (auto simp: sane_def warn_ok_def)
qed

lemma threshold_range:
  "0 < THRESHOLD_SECS d \<and> THRESHOLD_SECS d < 2 ^ 63 \<Longrightarrow>
   0 < THRESHOLD_SECS (read_threshold env d) \<and> THRESHOLD_SECS (read_threshold env d) < 2 ^ 63"
  using strtol_range [of 10 "the env"]
  by (auto simp: read_threshold_def split: option.split prod.split)

lemma read_threshold_keeps [simp]:
  "trackers (read_threshold env d) = trackers d" "MONITOR_STARTED (read_threshold env d) = MONITOR_STARTED d"
  by (auto simp: read_threshold_def split: option.split prod.split)

lemma call_begin_effect:
  assumes "call_begin h env t d = (prev, d')"
  shows "prev = start_sec (trackers d h)" "MONITOR_STARTED d'"
    "THRESHOLD_SECS d' = (if MONITOR_STARTED d then THRESHOLD_SECS d else THRESHOLD_SECS (read_threshold env d))"
    "trackers d' = (trackers d)(h := (trackers d h)\<lparr>start_sec := if prev = 0 then t else prev\<rparr>)"
proof -
  have "THRESHOLD_SECS (read_threshold env (d\<lparr>REAL := r\<rparr>)) = THRESHOLD_SECS (read_threshold env d)" for r
    by (auto simp: read_threshold_def split: option.split prod.split)
  with assms show "prev = start_sec (trackers d h)" "MONITOR_STARTED d'"
    "THRESHOLD_SECS d' = (if MONITOR_STARTED d then THRESHOLD_SECS d else THRESHOLD_SECS (read_threshold env d))"
    "trackers d' = (trackers d)(h := (trackers d h)\<lparr>start_sec := if prev = 0 then t else prev\<rparr>)"
    by (auto simp: call_begin_def ensure_monitor_def next_fn_def enter_def set_tracker_def Let_def split: if_splits)
qed

lemma dinv_call:
  assumes inv: "dinv w" and c: "call_begin h env (clk w) (det w) = (prev, d)"
  shows "dinv (w\<lparr>det := d, calls := (h, prev, clk w) # calls w\<rparr>)"
proof -
  note e = call_begin_effect [OF c]
  have idle: "last_warn_sec (trackers (det w) g) = 0" if "\<not> MONITOR_STARTED (det w)" for g
    using that inv dinv_hook [OF inv, of g] by (auto simp: dinv_def warn_ok_def)
  have w: "warn_ok (clk w) (THRESHOLD_SECS d) (trackers d g)" for g
  proof (cases "MONITOR_STARTED (det w)")
    case True
    with dinv_hook(3) [OF inv, of g] e show ?thesis by (auto simp: warn_ok_def)
  next
    case False
    with idle [of g] e show ?thesis by (auto simp: warn_ok_def)
  qed
  have "0 < THRESHOLD_SECS d \<and> THRESHOLD_SECS d < 2 ^ 63"
    using inv threshold_range [of "det w" env] e(3) by (auto simp: dinv_def)
  with inv e w show ?thesis by (auto simp: dinv_def)
qed

lemma dinv_finish:
  assumes inv: "dinv w" and c: "calls w = (h, prev, t) # cs"
  shows "dinv (w\<lparr>det := call_end h prev (det w), calls := cs\<rparr>)"
proof -
  have s: "prev = outermost h cs" "0 < t" "stack_ok (clk w) cs"
    using inv c by (simp_all add: dinv_def)
  have "start_sec (trackers (call_end h prev (det w)) g) = outermost g cs \<and>
      tr_name (trackers (call_end h prev (det w)) g) = hook_name g \<and>
      warn_ok (clk w) (THRESHOLD_SECS (det w)) (trackers (call_end h prev (det w)) g)" for g
    using dinv_hook [OF inv, of g] c s
    by (auto simp: call_end_def leave_def set_tracker_def warn_ok_def split: if_splits)
  with inv c s show ?thesis by (auto simp: dinv_def call_end_def set_tracker_def)
qed

lemma monitor_pass_run:
  assumes "dinv w"
  shows "if \<exists>h. doomed (clk w) (THRESHOLD_SECS (det w)) (trackers (det w) h)
    then fst (monitor_pass (clk w) (det w)) = Exit 1
    else monitor_pass (clk w) (det w) =
      (Return (), fold (warned (clk w) (THRESHOLD_SECS (det w))) TRACKERS (det w))"
  using scan_trackers_spec [of TRACKERS "clk w" "det w" "THRESHOLD_SECS (det w)"] dinv_sane [OF assms] assms
  by (auto simp: monitor_pass_def dinv_def split: if_splits)

lemma dinv_pass:
  assumes inv: "dinv w" and r: "monitor_pass (clk w) (det w) = (Return (), d)"
  shows "dinv (w\<lparr>det := d\<rparr>)"
proof -
  from monitor_pass_run [OF inv] r have d: "d = fold (warned (clk w) (THRESHOLD_SECS (det w))) TRACKERS (det w)"
    by (auto split: if_splits)
  have "start_sec (trackers d g) = outermost g (calls w) \<and> tr_name (trackers d g) = hook_name g \<and>
      warn_ok (clk w) (THRESHOLD_SECS (det w)) (trackers d g)" for g
    using dinv_hook [OF inv, of g] by (auto simp: d fold_warned warn_ok_def due_def)
  with inv show ?thesis by (simp add: dinv_def d fold_warned)
qed

lemma dinv_clock: "dinv w \<Longrightarrow> clk w \<le> c \<Longrightarrow> c < 2 ^ 62 \<Longrightarrow> dinv (w\<lparr>clk := c\<rparr>)"
  by (auto simp: dinv_def intro: stack_ok_mono warn_ok_mono)

inductive_cases dstepE: "dstep env w w'"

lemma dstep_dinv: "dstep env w w' \<Longrightarrow> dinv w \<Longrightarrow> dinv w'"
  by (elim dstepE) (simp_all add: dinv_clock dinv_call dinv_finish dinv_pass)

lemma dreach_dinv: "dreach env w \<Longrightarrow> dinv w"
proof (induction rule: dreach.induct)
  case (start c)
  then show ?case
    by (simp add: dinv_def initial_detector_def new_tracker_def DEFAULT_THRESHOLD_SECS_def warn_ok_def)
qed (rule dstep_dinv)

lemma due_reached:
  assumes "dreach env w"
  shows "due (clk w) (THRESHOLD_SECS (det w)) (trackers (det w) h) \<longleftrightarrow>
    outermost h (calls w) \<noteq> 0 \<and> THRESHOLD_SECS (det w) \<le> clk w - outermost h (calls w) \<and>
    (last_warn_sec (trackers (det w) h) = 0 \<or>
     THRESHOLD_SECS (det w) \<le> clk w - last_warn_sec (trackers (det w) h))"
  using dinv_hook [OF dreach_dinv [OF assms], of h] dinv_sane [OF dreach_dinv [OF assms], of h]
  by (auto simp: due_def sane_def)

text \<open>An example run: a \<^verbatim>\<open>recv\<close> that starts at time 100 and is still in flight at 140.\<close>

definition stuck_recv :: world where
  "stuck_recv = \<lparr>det = snd (call_begin RECV_T None 100 initial_detector), clk = 140, calls = [(RECV_T, 0, 100)]\<rparr>"

lemma stuck_recv_reached: "dreach None stuck_recv"
proof -
  let ?w = "\<lparr>det = initial_detector, clk = 100, calls = []\<rparr>"
  obtain d where d: "call_begin RECV_T None 100 initial_detector = (0, d)"
    by (simp add: call_begin_def enter_def Let_def ensure_monitor_def next_fn_def initial_detector_def
        read_threshold_def new_tracker_def)
  have "dreach None ?w" by (rule dreach.start) simp_all
  moreover have "dstep None ?w \<lparr>det = d, clk = 100, calls = [(RECV_T, 0, 100)]\<rparr>"
    using dstep.call [of RECV_T None ?w] d by simp
  moreover have "dstep None \<lparr>det = d, clk = 100, calls = [(RECV_T, 0, 100)]\<rparr> stuck_recv"
    using dstep.clock_tick [of "\<lparr>det = d, clk = 100, calls = [(RECV_T, 0, 100)]\<rparr>" 140] d
    by (simp add: stuck_recv_def)
  ultimately show ?thesis by (blast intro: dreach.step)
qed

lemma stuck_recv_sel [simp]:
  "clk stuck_recv = 140" "calls stuck_recv = [(RECV_T, 0, 100)]" "THRESHOLD_SECS (det stuck_recv) = 30"
  "written (det stuck_recv) = []" "last_warn_sec (trackers (det stuck_recv) h) = 0"
  by (simp_all add: stuck_recv_def call_begin_def enter_def Let_def ensure_monitor_def next_fn_def set_tracker_def
      initial_detector_def read_threshold_def new_tracker_def DEFAULT_THRESHOLD_SECS_def)

lemma monitor_pass_decided:
  assumes "dreach env w"
  shows "let thr = THRESHOLD_SECS (det w); for_secs = (\<lambda>h. clk w - outermost h (calls w)) in
    if \<exists>h. outermost h (calls w) \<noteq> 0 \<and> 2 * thr \<le> for_secs h
    then fst (monitor_pass (clk w) (det w)) = Exit 1
    else \<exists>d. monitor_pass (clk w) (det w) = (Return (), d) \<and>
      written d = written (det w) @ map (\<lambda>h. warn_line h (for_secs h))
        (filter (\<lambda>h. outermost h (calls w) \<noteq> 0 \<and> thr \<le> for_secs h \<and>
           (last_warn_sec (trackers (det w) h) = 0 \<or> thr \<le> clk w - last_warn_sec (trackers (det w) h)))
         TRACKERS)"
proof -
  note inv = dreach_dinv [OF assms]
  have dm: "doomed (clk w) (THRESHOLD_SECS (det w)) (trackers (det w) h) \<longleftrightarrow>
      outermost h (calls w) \<noteq> 0 \<and> 2 * THRESHOLD_SECS (det w) \<le> clk w - outermost h (calls w)" for h
    using dinv_hook(1) [OF inv, of h] by (simp add: doomed_def)
  have pl: "pass_line (clk w) (det w) = (\<lambda>h. warn_line h (clk w - outermost h (calls w)))"
    using dinv_hook(1) [OF inv] by (simp add: pass_line_def fun_eq_iff)
  show ?thesis
    using monitor_pass_run [OF inv]
    by (auto simp: dm fold_warned pl due_reached [OF assms] Let_def split: if_splits)
qed

section \<open>Claims\<close>

text \<open>C29: What the monitor does in a pass, for every reachable interleaving of nested calls of one
  thread with passes of the monitor: it ends the process
  exactly when some call has been in flight for twice the threshold, and otherwise writes one
  complete line for each call that is over the threshold and was not warned about within the
  last threshold, in the order of the trackers, and nothing else.\<close>

theorem monitor_pass_decision:
  assumes "dreach env w"
  shows "let thr = THRESHOLD_SECS (det w); for_secs = (\<lambda>h. clk w - outermost h (calls w)) in
    if \<exists>h. outermost h (calls w) \<noteq> 0 \<and> 2 * thr \<le> for_secs h
    then fst (monitor_pass (clk w) (det w)) = Exit 1
    else \<exists>d. monitor_pass (clk w) (det w) = (Return (), d) \<and>
      written d = written (det w) @ map (\<lambda>h. warn_line h (for_secs h))
        (filter (\<lambda>h. outermost h (calls w) \<noteq> 0 \<and> thr \<le> for_secs h \<and>
           (last_warn_sec (trackers (det w) h) = 0 \<or> thr \<le> clk w - last_warn_sec (trackers (det w) h)))
         TRACKERS)"
  using assms by (rule monitor_pass_decided)

theorem monitor_pass_decision_witness:
  "dreach None stuck_recv \<and>
   (\<exists>d. monitor_pass 140 (det stuck_recv) = (Return (), d) \<and>
     written d = [''ssh-stuck-detector: STUCK in recv() for 40 secs'' @ [CHR 0x0A]])"
  using monitor_pass_decision [OF stuck_recv_reached] stuck_recv_reached
  by (simp add: TRACKERS_def warn_line_def show_nat.simps digit_chars Let_def split: if_splits)

text \<open>The fixed buffers are large enough: for every tracker and every 64-bit number of seconds
  the warning is written complete, the 128-byte line buffer drops nothing and the 20-byte digit
  buffer is never overrun.\<close>

lemma warn_stderr_complete:
  assumes "- (2 ^ 63) \<le> secs" "secs < 2 ^ 63"
  shows "warn_stderr (hook_name h) secs d =
    Some (write_stderr (''ssh-stuck-detector: STUCK in '' @ hook_name h @ ''() for ''
      @ show_int (max 0 secs) @ '' secs'' @ [CHR 0x0A]) d)"
  using warn_stderr_writes [OF assms(2), of h d]
  by (cases "secs < 0") (simp_all add: warn_line_def show_int_def max_def)

text \<open>The threshold setting is read back: a positive decimal number is taken as printed, and
  whatever the variable holds, the threshold in force is positive.\<close>

lemma read_threshold_roundtrip:
  "(0 < n \<and> n < 2 ^ 63 \<longrightarrow> THRESHOLD_SECS (ensure_monitor (Some (show_nat n)) initial_detector) = int n) \<and>
   0 < THRESHOLD_SECS (ensure_monitor env initial_detector)"
  using threshold_range [of initial_detector env]
  by (auto simp: ensure_monitor_def read_threshold_def strtol_show_nat10 initial_detector_def DEFAULT_THRESHOLD_SECS_def)

text \<open>C39: Calls that overlap without being nested, as two threads make them, lose track. While two
  calls of the same function are in flight, started at \<open>t1\<close> and \<open>t2\<close>: when the second returns
  first, as a nested call does, the tracker keeps the start of the first; when the first returns
  first, the tracker is idle although the second is still in flight, no later look of the monitor,
  at any time and threshold, warns about it or ends the process, and the second call's own return
  changes nothing.\<close>

theorem overlapping_calls_untracked:
  assumes "start_sec (trackers d h) = 0" "t1 \<noteq> 0"
    and "call_begin h env t1 d = (p1, d1)" "call_begin h env t2 d1 = (p2, d2)"
  shows "start_sec (trackers (call_end h p2 d2) h) = t1 \<and>
    start_sec (trackers (call_end h p1 d2) h) = 0 \<and>
    (\<forall>now thr. scan_tracker now thr h (call_end h p1 d2) = (Return (), call_end h p1 d2)) \<and>
    call_end h p2 (call_end h p1 d2) = call_end h p1 d2"
proof -
  note 1 = call_begin_effect [OF assms(3)] and 2 = call_begin_effect [OF assms(4)]
  have p: "p1 = 0" "p2 = t1" using 1(1,4) 2(1) assms(1) by simp_all
  have z: "start_sec (trackers (call_end h p1 d2) h) = 0"
    by (simp add: call_end_def leave_def set_tracker_def p)
  have "start_sec (trackers d2 h) = t1" using 2(4) p assms(2) by simp
  moreover have "scan_tracker now thr h (call_end h p1 d2) = (Return (), call_end h p1 d2)" for now thr
    by (simp add: scan_tracker_def z)
  ultimately show ?thesis
    using z assms(2) by (simp add: call_end_def leave_def set_tracker_def p)
qed

theorem overlapping_calls_untracked_witness:
  "\<exists>p1 d1 p2 d2. call_begin RECV_T None 100 initial_detector = (p1, d1) \<and> call_begin RECV_T None 110 d1 = (p2, d2) \<and>
     start_sec (trackers (call_end RECV_T p2 d2) RECV_T) = 100 \<and> start_sec (trackers (call_end RECV_T p1 d2) RECV_T) = 0"
proof -
  obtain p1 d1 where 1: "call_begin RECV_T None 100 initial_detector = (p1, d1)" by fastforce
  obtain p2 d2 where 2: "call_begin RECV_T None 110 d1 = (p2, d2)" by fastforce
  have "start_sec (trackers initial_detector RECV_T) = 0" by (simp add: initial_detector_def new_tracker_def)
  from overlapping_calls_untracked [OF this _ 1 2] 1 2 show ?thesis by auto
qed

end
