(* ===== verification/Detector_Steps.thy ===== *)
theory Detector_Steps
  imports Detector
begin

text \<open>
  \<^verbatim>\<open>ssh-stuck-detector/src/lib.rs\<close> at the grain of its atomics: one step is one load, one store,
  one reading of the clock or one write. The wrapped calls of one thread form a stack of frames; a
  call may interrupt another one anywhere, also inside \<^verbatim>\<open>enter\<close> and \<^verbatim>\<open>leave\<close> (from a signal
  handler), and ends before it. The monitor thread moves between any two steps. The steps of
  the two threads are interleaved; the relaxed atomics are taken as sequentially consistent.
\<close>

section \<open>The steps\<close>

text \<open>Where a wrapped call is: before the load of \<^verbatim>\<open>start_sec\<close>; the load gave 0; the clock was
  read; inside the real function, with the token for \<^verbatim>\<open>leave\<close> and the time of its start; after
  \<^verbatim>\<open>leave\<close> cleared \<^verbatim>\<open>start_sec\<close>.\<close>

datatype call_pc = Entering | Vacant | Stamped int | Running int int | Withdrawn

type_synonym frame = "hook \<times> call_pc"

text \<open>Where the monitor is, with its local variables \<^verbatim>\<open>now\<close>, \<^verbatim>\<open>threshold\<close>, \<^verbatim>\<open>t\<close>, \<^verbatim>\<open>start\<close> and
  the trackers that remain of the scan.\<close>

datatype monitor_pc =
    Asleep
  | Woken int
  | Scan int int "hook list"
  | Over int int hook int "hook list"
  | Warning int int hook int "hook list"
  | Writing int int hook int "hook list"
  | Deciding int int hook int "hook list"
  | Aborting int int hook int
  | Exiting
  | Exited

record fine =
  fdet :: detector
  fclk :: int
  frames :: "frame list"
  mon :: monitor_pc

definition store_start :: "hook \<Rightarrow> int \<Rightarrow> detector \<Rightarrow> detector" where
  "store_start h v d = set_tracker h ((trackers d h)\<lparr>start_sec := v\<rparr>) d"

definition store_warn :: "hook \<Rightarrow> int \<Rightarrow> detector \<Rightarrow> detector" where
  "store_warn h v d = set_tracker h ((trackers d h)\<lparr>last_warn_sec := v\<rparr>) d"

text \<open>\<^verbatim>\<open>enter\<close>, \<^verbatim>\<open>leave\<close> and the wrappers; the innermost frame is the one that runs.\<close>

inductive tstep :: "string option \<Rightarrow> fine \<Rightarrow> fine \<Rightarrow> bool" for env where
  invoke: "tstep env w (w\<lparr>fdet := ensure_monitor env (next_fn h (fdet w)), frames := (h, Entering) # frames w\<rparr>)"
| load_idle: "frames w = (h, Entering) # fs \<Longrightarrow> start_sec (trackers (fdet w) h) = 0 \<Longrightarrow>
    tstep env w (w\<lparr>frames := (h, Vacant) # fs\<rparr>)"
| load_busy: "frames w = (h, Entering) # fs \<Longrightarrow> start_sec (trackers (fdet w) h) = prev \<Longrightarrow> prev \<noteq> 0 \<Longrightarrow>
    tstep env w (w\<lparr>frames := (h, Running prev (fclk w)) # fs\<rparr>)"
| read_clock: "frames w = (h, Vacant) # fs \<Longrightarrow> tstep env w (w\<lparr>frames := (h, Stamped (fclk w)) # fs\<rparr>)"
| publish: "frames w = (h, Stamped t) # fs \<Longrightarrow>
    tstep env w (w\<lparr>fdet := store_start h t (fdet w), frames := (h, Running 0 t) # fs\<rparr>)"
| return_inner: "frames w = (h, Running prev t) # fs \<Longrightarrow> prev \<noteq> 0 \<Longrightarrow> tstep env w (w\<lparr>frames := fs\<rparr>)"
| clear_start: "frames w = (h, Running 0 t) # fs \<Longrightarrow>
    tstep env w (w\<lparr>fdet := store_start h 0 (fdet w), frames := (h, Withdrawn) # fs\<rparr>)"
| clear_warn: "frames w = (h, Withdrawn) # fs \<Longrightarrow>
    tstep env w (w\<lparr>fdet := store_warn h 0 (fdet w), frames := fs\<rparr>)"

text \<open>The loop of \<^verbatim>\<open>monitor_main\<close>.\<close>

inductive mstep :: "fine \<Rightarrow> fine \<Rightarrow> bool" where
  wake: "mon w = Asleep \<Longrightarrow> MONITOR_STARTED (fdet w) \<Longrightarrow> mstep w (w\<lparr>mon := Woken (fclk w)\<rparr>)"
| load_threshold: "mon w = Woken now \<Longrightarrow> mstep w (w\<lparr>mon := Scan now (THRESHOLD_SECS (fdet w)) TRACKERS\<rparr>)"
| scan_end: "mon w = Scan now thr [] \<Longrightarrow> mstep w (w\<lparr>mon := Asleep\<rparr>)"
| load_start: "mon w = Scan now thr (h # hs) \<Longrightarrow> start_sec (trackers (fdet w) h) = start \<Longrightarrow>
    mstep w (w\<lparr>mon := if start = 0 \<or> i64 (now - start) < thr then Scan now thr hs else Over now thr h start hs\<rparr>)"
| load_last: "mon w = Over now thr h start hs \<Longrightarrow>
    mstep w (w\<lparr>mon := if i64 (now - last_warn_sec (trackers (fdet w) h)) \<ge> thr then Warning now thr h start hs
      else Deciding now thr h start hs\<rparr>)"
| store_last: "mon w = Warning now thr h start hs \<Longrightarrow>
    mstep w (w\<lparr>fdet := store_warn h now (fdet w), mon := Writing now thr h start hs\<rparr>)"
| write_line: "mon w = Writing now thr h start hs \<Longrightarrow>
    warn_stderr (tr_name (trackers (fdet w) h)) (i64 (now - start)) (fdet w) = Some d \<Longrightarrow>
    mstep w (w\<lparr>fdet := d, mon := Deciding now thr h start hs\<rparr>)"
| decide: "mon w = Deciding now thr h start hs \<Longrightarrow>
    mstep w (w\<lparr>mon := if i64 (now - start) \<ge> i64 (thr * 2) then Aborting now thr h start else Scan now thr hs\<rparr>)"
| write_abort: "mon w = Aborting now thr h start \<Longrightarrow>
    mstep w (w\<lparr>fdet := write_stderr msg_abort (fdet w), mon := Exiting\<rparr>)"
| exit_process: "mon w = Exiting \<Longrightarrow> mstep w (w\<lparr>mon := Exited\<rparr>)"

inductive fstep :: "string option \<Rightarrow> fine \<Rightarrow> fine \<Rightarrow> bool" for env where
  tick: "fclk w \<le> c \<Longrightarrow> c < 2 ^ 62 \<Longrightarrow> fstep env w (w\<lparr>fclk := c\<rparr>)"
| thread: "mon w \<noteq> Exited \<Longrightarrow> tstep env w w' \<Longrightarrow> fstep env w w'"
| monitor: "mstep w w' \<Longrightarrow> fstep env w w'"

definition fine_start :: "int \<Rightarrow> fine" where
  "fine_start c = \<lparr>fdet = initial_detector, fclk = c, frames = [], mon = Asleep\<rparr>"

inductive freach :: "string option \<Rightarrow> fine \<Rightarrow> bool" for env where
  start: "1 \<le> c \<Longrightarrow> c < 2 ^ 62 \<Longrightarrow> freach env (fine_start c)"
| step: "freach env w \<Longrightarrow> fstep env w w' \<Longrightarrow> freach env w'"

inductive_cases tstepE: "tstep env w w'"
inductive_cases mstepE: "mstep w w'"
inductive_cases fstepE: "fstep env w w'"

lemma i64_bounds: "- (2 ^ 63) \<le> i64 x" "i64 x < 2 ^ 63"
  using pos_mod_bound [of "2 ^ 64" "x + 2 ^ 63"] pos_mod_sign [of "2 ^ 64" "x + 2 ^ 63"] by (simp_all add: i64_def)

section \<open>The invariant\<close>

text \<open>When the outermost call in flight started, 0 if there is none.\<close>

fun running :: "hook \<Rightarrow> frame list \<Rightarrow> int" where
  "running h [] = 0"
| "running h ((g, Running p t) # fs) = (if running h fs \<noteq> 0 then running h fs else if g = h then t else 0)"
| "running h (_ # fs) = running h fs"

definition stamps :: "hook \<Rightarrow> frame list \<Rightarrow> int set" where
  "stamps h fs = {t. (h, Stamped t) \<in> set fs}"

lemma stamps_simps [simp]:
  "stamps h [] = {}"
  "stamps h ((g, pc) # fs) = (case pc of Stamped t \<Rightarrow> (if g = h then insert t (stamps h fs) else stamps h fs) | _ \<Rightarrow> stamps h fs)"
  by (auto simp: stamps_def split: call_pc.split)

text \<open>What every frame knows of the frames it interrupted.\<close>

fun frames_ok :: "int \<Rightarrow> frame list \<Rightarrow> bool" where
  "frames_ok now [] = True"
| "frames_ok now ((h, pc) # fs) = (frames_ok now fs \<and> (case pc of
     Entering \<Rightarrow> True
   | Vacant \<Rightarrow> running h fs = 0
   | Stamped t \<Rightarrow> running h fs = 0 \<and> 0 < t \<and> t \<le> now \<and> (\<forall>t' \<in> stamps h fs. t' \<le> t)
   | Running p t \<Rightarrow> p = running h fs \<and> 0 < t \<and> t \<le> now \<and> (p = 0 \<longrightarrow> (\<forall>t' \<in> stamps h fs. t' \<le> t))
   | Withdrawn \<Rightarrow> running h fs = 0))"

text \<open>Times that a warning at \<open>x\<close> cannot hide: starts that are not before it, and starts that
  are at least a threshold before it.\<close>

definition clear_of :: "int \<Rightarrow> int \<Rightarrow> int \<Rightarrow> bool" where
  "clear_of x thr t \<longleftrightarrow> x \<le> t \<or> t + thr \<le> x"

definition starts :: "hook \<Rightarrow> frame list \<Rightarrow> int set" where
  "starts h fs = stamps h fs \<union> ({running h fs} - {0})"

definition mon_ok :: "fine \<Rightarrow> bool" where
  "mon_ok w \<longleftrightarrow> (case mon w of
     Asleep \<Rightarrow> True
   | Woken now \<Rightarrow> 0 \<le> now \<and> now \<le> fclk w
   | Scan now thr hs \<Rightarrow> 0 \<le> now \<and> now \<le> fclk w \<and> thr = THRESHOLD_SECS (fdet w)
   | Over now thr h start hs \<Rightarrow> now \<le> fclk w \<and> thr = THRESHOLD_SECS (fdet w) \<and> 0 < start \<and> start + thr \<le> now \<and>
       (\<forall>t \<in> starts h (frames w). clear_of now thr t)
   | Warning now thr h start hs \<Rightarrow> now \<le> fclk w \<and> thr = THRESHOLD_SECS (fdet w) \<and> 0 < start \<and> start + thr \<le> now \<and>
       (\<forall>t \<in> starts h (frames w). clear_of now thr t)
   | Writing now thr h start hs \<Rightarrow> now \<le> fclk w \<and> thr = THRESHOLD_SECS (fdet w) \<and> 0 < start \<and> start + thr \<le> now
   | Deciding now thr h start hs \<Rightarrow> now \<le> fclk w \<and> thr = THRESHOLD_SECS (fdet w) \<and> 0 < start \<and> start + thr \<le> now
   | Aborting now thr h start \<Rightarrow> now \<le> fclk w \<and> thr = THRESHOLD_SECS (fdet w) \<and> 0 < start \<and> start + 2 * thr \<le> now
   | Exiting \<Rightarrow> True
   | Exited \<Rightarrow> True)"

definition tracker_ok :: "fine \<Rightarrow> hook \<Rightarrow> bool" where
  "tracker_ok w h \<longleftrightarrow> (let t = trackers (fdet w) h in
     start_sec t = running h (frames w) \<and> tr_name t = hook_name h \<and> 0 \<le> last_warn_sec t \<and> last_warn_sec t \<le> fclk w \<and>
     (\<forall>x \<in> starts h (frames w). clear_of (last_warn_sec t) (THRESHOLD_SECS (fdet w)) x))"

definition finv :: "fine \<Rightarrow> bool" where
  "finv w \<longleftrightarrow> 1 \<le> fclk w \<and> fclk w < 2 ^ 62 \<and> 0 < THRESHOLD_SECS (fdet w) \<and> THRESHOLD_SECS (fdet w) < 2 ^ 63 \<and>
     frames_ok (fclk w) (frames w) \<and> (\<not> MONITOR_STARTED (fdet w) \<longrightarrow> frames w = [] \<and> mon w = Asleep) \<and>
     mon_ok w \<and> (\<forall>h. tracker_ok w h)"

lemma frames_ok_mono: "frames_ok n fs \<Longrightarrow> n \<le> m \<Longrightarrow> frames_ok m fs"
  by (induction fs rule: frames_ok.induct) (auto split: call_pc.splits)

lemma running_range: "frames_ok n fs \<Longrightarrow> 0 \<le> n \<Longrightarrow> 0 \<le> running h fs \<and> running h fs \<le> n"
  by (induction h fs rule: running.induct) auto

lemma stamps_range: "frames_ok n fs \<Longrightarrow> t \<in> stamps h fs \<Longrightarrow> 0 < t \<and> t \<le> n"
  by (induction fs rule: frames_ok.induct) (auto split: call_pc.splits if_splits)

text \<open>A call that was interrupted before it published its start has an older start than the call
  in flight.\<close>

lemma stamps_before_running:
  "frames_ok n fs \<Longrightarrow> running h fs \<noteq> 0 \<Longrightarrow> t \<in> stamps h fs \<Longrightarrow> t \<le> running h fs"
  by (induction h fs rule: running.induct) (auto split: if_splits)

lemma finv_tracker: "finv w \<Longrightarrow> tracker_ok w h"
  by (simp add: finv_def)

lemma invoke_keeps [simp]:
  "trackers (ensure_monitor env (next_fn h d)) = trackers d"
  "MONITOR_STARTED (ensure_monitor env (next_fn h d))"
  "MONITOR_STARTED d \<Longrightarrow> THRESHOLD_SECS (ensure_monitor env (next_fn h d)) = THRESHOLD_SECS d"
  by (auto simp: ensure_monitor_def next_fn_def)

lemma invoke_threshold:
  "0 < THRESHOLD_SECS d \<and> THRESHOLD_SECS d < 2 ^ 63 \<Longrightarrow>
   0 < THRESHOLD_SECS (ensure_monitor env (next_fn h d)) \<and> THRESHOLD_SECS (ensure_monitor env (next_fn h d)) < 2 ^ 63"
  using threshold_range [of "next_fn h d" env] by (auto simp: ensure_monitor_def next_fn_def)

lemma store_sel [simp]:
  "trackers (store_start h v d) = (trackers d)(h := (trackers d h)\<lparr>start_sec := v\<rparr>)"
  "trackers (store_warn h v d) = (trackers d)(h := (trackers d h)\<lparr>last_warn_sec := v\<rparr>)"
  "THRESHOLD_SECS (store_start h v d) = THRESHOLD_SECS d" "THRESHOLD_SECS (store_warn h v d) = THRESHOLD_SECS d"
  "MONITOR_STARTED (store_start h v d) = MONITOR_STARTED d" "MONITOR_STARTED (store_warn h v d) = MONITOR_STARTED d"
  "trackers (write_stderr m d) = trackers d" "THRESHOLD_SECS (write_stderr m d) = THRESHOLD_SECS d"
  "MONITOR_STARTED (write_stderr m d) = MONITOR_STARTED d"
  by (simp_all add: store_start_def store_warn_def set_tracker_def write_stderr_def)

lemma finv_invoke:
  assumes "finv w"
  shows "finv (w\<lparr>fdet := ensure_monitor env (next_fn h (fdet w)), frames := (h, Entering) # frames w\<rparr>)"
proof (cases "MONITOR_STARTED (fdet w)")
  case True
  with assms show ?thesis
    by (auto simp: finv_def tracker_ok_def mon_ok_def Let_def starts_def split: monitor_pc.splits)
next
  case False
  with assms have "frames w = []" "mon w = Asleep" by (auto simp: finv_def)
  with assms invoke_threshold [of "fdet w" env h] show ?thesis
    by (auto simp: finv_def tracker_ok_def mon_ok_def Let_def starts_def)
qed

lemma finv_tick: "finv w \<Longrightarrow> fclk w \<le> c \<Longrightarrow> c < 2 ^ 62 \<Longrightarrow> finv (w\<lparr>fclk := c\<rparr>)"
  by (auto simp: finv_def tracker_ok_def mon_ok_def Let_def intro: frames_ok_mono split: monitor_pc.splits)
     (meson order_trans)+

text \<open>A step of the thread that keeps the detector keeps the invariant when it adds no start but
  the present one.\<close>

lemma finv_frames:
  assumes "finv w" "frames_ok (fclk w) fs" "\<And>h. running h fs = running h (frames w)"
    and "\<And>h. stamps h fs \<subseteq> insert (fclk w) (stamps h (frames w))" "frames w \<noteq> []"
  shows "finv (w\<lparr>frames := fs\<rparr>)"
proof -
  have s: "x = fclk w \<or> x \<in> starts h (frames w)" if "x \<in> starts h fs" for x h
    using that assms(3,4) [of h] by (auto simp: starts_def)
  have "tracker_ok (w\<lparr>frames := fs\<rparr>) h" for h
    using finv_tracker [OF assms(1), of h] s [of _ h] assms(3) by (fastforce simp: tracker_ok_def Let_def clear_of_def)
  moreover have "mon_ok (w\<lparr>frames := fs\<rparr>)"
    using assms(1) s by (fastforce simp: finv_def mon_ok_def clear_of_def split: monitor_pc.splits)
  ultimately show ?thesis using assms(1,2,5) by (simp add: finv_def)
qed

lemma tstep_finv:
  assumes "tstep env w w'" "finv w"
  shows "finv w'"
  using assms(1)
proof cases
  case (invoke h)
  with finv_invoke [OF assms(2)] show ?thesis by simp
next
  case (load_idle h fs)
  have "tracker_ok w h" "frames_ok (fclk w) (frames w)" using assms(2) by (simp_all add: finv_def)
  with load_idle show ?thesis
    by (auto simp: tracker_ok_def Let_def intro!: finv_frames [OF assms(2)])
next
  case (load_busy h fs prev)
  have "tracker_ok w h" "frames_ok (fclk w) (frames w)" "1 \<le> fclk w" using assms(2) by (simp_all add: finv_def)
  with load_busy show ?thesis
    by (auto simp: tracker_ok_def Let_def intro!: finv_frames [OF assms(2)])
next
  case (read_clock h fs)
  have "frames_ok (fclk w) (frames w)" "1 \<le> fclk w" using assms(2) by (simp_all add: finv_def)
  with read_clock stamps_range [of "fclk w" fs _ h] show ?thesis
    by (auto intro!: finv_frames [OF assms(2)] split: if_splits)
next
  case (publish h t fs)
  have o: "running h fs = 0" "frames_ok (fclk w) ((h, Running 0 t) # fs)" "t \<noteq> 0"
    using assms(2) publish by (auto simp: finv_def)
  have s: "starts g ((h, Running 0 t) # fs) \<subseteq> starts g (frames w)" for g
    using o publish by (auto simp: starts_def)
  have "tracker_ok w' g" for g
    using finv_tracker [OF assms(2), of g] s [of g] publish o by (auto simp: tracker_ok_def Let_def)
  moreover have "mon_ok w'"
    using assms(2) s publish by (fastforce simp: finv_def mon_ok_def split: monitor_pc.splits)
  ultimately show ?thesis using assms(2) publish o by (simp add: finv_def)
next
  case (return_inner h prev t fs)
  with assms(2) have "frames_ok (fclk w) fs" "running h fs = prev" by (auto simp: finv_def)
  with return_inner show ?thesis by (auto intro!: finv_frames [OF assms(2)])
next
  case (clear_start h t fs)
  have o: "running h fs = 0" "frames_ok (fclk w) ((h, Withdrawn) # fs)" using assms(2) clear_start by (auto simp: finv_def)
  have s: "starts g ((h, Withdrawn) # fs) \<subseteq> starts g (frames w)" for g
    using o clear_start by (auto simp: starts_def)
  have "tracker_ok w' g" for g
    using finv_tracker [OF assms(2), of g] s [of g] clear_start o by (auto simp: tracker_ok_def Let_def)
  moreover have "mon_ok w'"
    using assms(2) s clear_start by (fastforce simp: finv_def mon_ok_def split: monitor_pc.splits)
  ultimately show ?thesis using assms(2) clear_start o by (simp add: finv_def)
next
  case (clear_warn h fs)
  have w': "w' = w\<lparr>fdet := store_warn h 0 (fdet w), frames := fs\<rparr>" using clear_warn by simp
  have o: "frames_ok (fclk w) fs" "1 \<le> fclk w" "frames w \<noteq> []" using assms(2) clear_warn by (auto simp: finv_def)
  have s: "starts g (frames w) = starts g fs" "running g (frames w) = running g fs" for g
    using clear_warn by (simp_all add: starts_def)
  have pos: "0 \<le> x" if "x \<in> starts g fs" for x g
    using that stamps_range [OF o(1), of x g] running_range [OF o(1), of g] o(2) by (auto simp: starts_def)
  have "tracker_ok w' g" for g
    using finv_tracker [OF assms(2), of g] o(2) pos [of _ g] by (cases "g = h") (simp_all add: tracker_ok_def Let_def clear_of_def s w')
  moreover have "mon_ok w'"
    using assms(2) by (simp add: finv_def mon_ok_def s w' split: monitor_pc.splits)
  ultimately show ?thesis using assms(2) o by (simp add: finv_def w')
qed

text \<open>A step of the monitor that keeps the detector only moves the monitor.\<close>

lemma finv_mon:
  assumes "finv w" "MONITOR_STARTED (fdet w)" "mon_ok (w\<lparr>mon := m\<rparr>)"
  shows "finv (w\<lparr>mon := m\<rparr>)"
  using assms by (simp add: finv_def tracker_ok_def)

lemma finv_i64:
  assumes "finv w" "0 \<le> x" "x \<le> fclk w" "now \<le> fclk w" "0 \<le> now"
  shows "i64 (now - x) = now - x"
  using assms by (intro i64_id) (auto simp: finv_def)

lemma mstep_started: "mstep w w' \<Longrightarrow> finv w \<Longrightarrow> MONITOR_STARTED (fdet w)"
  by (auto simp: finv_def elim!: mstepE)

text \<open>The monitor found the call in flight over the threshold: no start of that tracker lies
  within the threshold before \<open>now\<close>.\<close>

lemma over_clear:
  assumes "finv w" "now \<le> fclk w" "running h (frames w) \<noteq> 0" "running h (frames w) + THRESHOLD_SECS (fdet w) \<le> now"
    and "t \<in> starts h (frames w)"
  shows "clear_of now (THRESHOLD_SECS (fdet w)) t"
  using assms stamps_before_running [of "fclk w" "frames w" h t] by (auto simp: finv_def starts_def clear_of_def)

lemma mstep_finv:
  assumes "mstep w w'" "finv w"
  shows "finv w'"
proof -
  note st = mstep_started [OF assms]
  note k = finv_mon [OF assms(2) st]
  have c: "1 \<le> fclk w" "0 < THRESHOLD_SECS (fdet w)" "mon_ok w" using assms(2) by (simp_all add: finv_def)
  from assms(1) show ?thesis
  proof cases
    case (load_start now thr h hs start)
    have r: "start = running h (frames w)" using finv_tracker [OF assms(2), of h] load_start by (simp add: tracker_ok_def Let_def)
    have m: "0 \<le> now" "now \<le> fclk w" "thr = THRESHOLD_SECS (fdet w)" using c(3) load_start by (simp_all add: mon_ok_def)
    have p: "0 \<le> start" "start \<le> fclk w" using running_range [of "fclk w" "frames w" h] assms(2) r by (auto simp: finv_def)
    have i: "i64 (now - start) = now - start" by (rule finv_i64 [OF assms(2) p m(2,1)])
    have "mon_ok (w\<lparr>mon := if start = 0 \<or> now - start < thr then Scan now thr hs else Over now thr h start hs\<rparr>)"
      using over_clear [OF assms(2) m(2), of h] r m p by (auto simp: mon_ok_def)
    with k i load_start show ?thesis by simp
  next
    case (store_last now thr h start hs)
    have m: "now \<le> fclk w" "thr = THRESHOLD_SECS (fdet w)" "0 < start" "start + thr \<le> now"
        "\<forall>t \<in> starts h (frames w). clear_of now thr t"
      using c(3) store_last unfolding mon_ok_def by (auto simp only: monitor_pc.case)
    have "tracker_ok w' g" for g
      using finv_tracker [OF assms(2), of g] m c store_last by (auto simp: tracker_ok_def Let_def)
    then show ?thesis using assms(2) store_last m by (simp add: finv_def mon_ok_def)
  next
    case (write_line now thr h start hs d)
    have "d = write_stderr (warn_line h (i64 (now - start))) (fdet w)"
      using write_line(3) finv_tracker [OF assms(2), of h] i64_bounds [of "now - start"]
      by (simp add: tracker_ok_def Let_def warn_stderr_writes)
    with assms(2) write_line show ?thesis by (simp add: finv_def mon_ok_def tracker_ok_def)
  next
    case (decide now thr h start hs)
    have m: "now \<le> fclk w" "thr = THRESHOLD_SECS (fdet w)" "0 < start" "start + thr \<le> now"
      using c(3) decide by (simp_all add: mon_ok_def)
    have i: "i64 (now - start) = now - start" "i64 (thr * 2) = thr * 2"
      using m c assms(2) by (auto simp: finv_def intro!: i64_id)
    have "mon_ok (w\<lparr>mon := if now - start \<ge> thr * 2 then Aborting now thr h start else Scan now thr hs\<rparr>)"
      using m c by (simp add: mon_ok_def)
    with k i decide show ?thesis by simp
  next
    case write_abort
    then show ?thesis using assms(2) by (simp add: finv_def mon_ok_def tracker_ok_def)
  qed (use k c in \<open>auto simp: mon_ok_def\<close>)
qed

lemma freach_finv: "freach env w \<Longrightarrow> finv w"
proof (induction rule: freach.induct)
  case (start c)
  then show ?case
    by (simp add: finv_def fine_start_def initial_detector_def new_tracker_def DEFAULT_THRESHOLD_SECS_def mon_ok_def
        tracker_ok_def starts_def)
next
  case (step w w')
  from step.hyps(2) step.IH show ?case by (elim fstepE) (simp_all add: finv_tick tstep_finv mstep_finv)
qed

section \<open>The coarse steps are paths\<close>

abbreviation fsteps :: "string option \<Rightarrow> fine \<Rightarrow> fine \<Rightarrow> bool" where
  "fsteps env \<equiv> (fstep env)\<^sup>*\<^sup>*"

lemma freach_steps: "fsteps env w w' \<Longrightarrow> freach env w \<Longrightarrow> freach env w'"
  by (induction rule: rtranclp_induct) (auto intro: freach.step)

lemma mstep_path: "mstep w u \<Longrightarrow> fsteps env u v \<Longrightarrow> fsteps env w v"
  by (blast intro: fstep.monitor converse_rtranclp_into_rtranclp)

lemma tstep_path: "tstep env w u \<Longrightarrow> mon w \<noteq> Exited \<Longrightarrow> fsteps env u v \<Longrightarrow> fsteps env w v"
  by (blast intro: fstep.thread converse_rtranclp_into_rtranclp)

text \<open>A call that is not interrupted begins as \<open>call_begin\<close> does and ends as \<open>call_end\<close> does.\<close>

lemma call_begin_path:
  assumes "call_begin h env (fclk w) (fdet w) = (prev, d)" "mon w \<noteq> Exited"
  shows "fsteps env w (w\<lparr>fdet := d, frames := (h, Running prev (fclk w)) # frames w\<rparr>)"
proof -
  let ?d = "ensure_monitor env (next_fn h (fdet w))"
  let ?w = "w\<lparr>fdet := ?d, frames := (h, Entering) # frames w\<rparr>"
  have prev: "prev = start_sec (trackers ?d h)"
    and d: "d = (if prev = 0 then store_start h (fclk w) ?d else set_tracker h (trackers ?d h) ?d)"
    using assms(1) by (auto simp: call_begin_def enter_def Let_def store_start_def)
  have "fsteps env ?w (w\<lparr>fdet := d, frames := (h, Running prev (fclk w)) # frames w\<rparr>)"
  proof (cases "prev = 0")
    case True
    let ?v = "?w\<lparr>frames := (h, Vacant) # frames w\<rparr>"
    let ?s = "?w\<lparr>frames := (h, Stamped (fclk w)) # frames w\<rparr>"
    have "tstep env ?w ?v" using load_idle [of ?w h "frames w" env] prev True by simp
    moreover have "tstep env ?v ?s" using read_clock [of ?v h "frames w" env] by simp
    moreover have "tstep env ?s (w\<lparr>fdet := d, frames := (h, Running prev (fclk w)) # frames w\<rparr>)"
      using publish [of ?s h "fclk w" "frames w" env] d True by simp
    ultimately show ?thesis using assms(2) by (auto intro!: tstep_path [of env ?w ?v] tstep_path [of env ?v ?s] tstep_path [of env ?s])
  next
    case False
    then have "d = ?d" using d by (simp add: set_tracker_def)
    with load_busy [of ?w h "frames w" prev env] prev False assms(2) show ?thesis
      by (auto intro: tstep_path)
  qed
  with tstep.invoke [of env w h] assms(2) show ?thesis by (rule tstep_path)
qed

lemma call_end_path:
  assumes "frames w = (h, Running prev t) # fs" "mon w \<noteq> Exited"
  shows "fsteps env w (w\<lparr>fdet := call_end h prev (fdet w), frames := fs\<rparr>)"
proof (cases "prev = 0")
  case True
  let ?u = "w\<lparr>fdet := store_start h 0 (fdet w), frames := (h, Withdrawn) # fs\<rparr>"
  have "tstep env w ?u" using clear_start [of w h t fs env] assms True by simp
  moreover have "store_warn h 0 (store_start h 0 (fdet w)) = call_end h prev (fdet w)"
    using True by (simp add: call_end_def leave_def store_warn_def store_start_def set_tracker_def)
  then have "tstep env ?u (w\<lparr>fdet := call_end h prev (fdet w), frames := fs\<rparr>)" using clear_warn [of ?u h fs env] by simp
  ultimately show ?thesis using assms(2) by (auto intro!: tstep_path [of env w ?u] tstep_path [of env ?u])
next
  case False
  then have "call_end h prev (fdet w) = fdet w" by (simp add: call_end_def leave_def set_tracker_def)
  with return_inner [of w h prev t fs env] assms False show ?thesis by (auto intro: tstep_path)
qed

text \<open>A scan during which the thread does not move does what \<open>scan_tracker\<close> and \<open>monitor_pass\<close> do.\<close>

lemma decide_path:
  assumes "mon w = Deciding now thr h start hs"
    and "(if i64 (now - start) \<ge> i64 (thr * 2) then then_p (modify_p (write_stderr msg_abort)) (exit_p 1)
      else return_p ()) (fdet w) = (r, d)"
  shows "fsteps env w (w\<lparr>fdet := d, mon := if r = Return () then Scan now thr hs else Exited\<rparr>)"
proof (cases "i64 (now - start) \<ge> i64 (thr * 2)")
  case True
  let ?a = "w\<lparr>mon := Aborting now thr h start\<rparr>"
  let ?b = "w\<lparr>fdet := d, mon := Exiting\<rparr>"
  have d: "d = write_stderr msg_abort (fdet w)" "r = Exit 1"
    using assms(2) True by (simp_all add: then_p_def bind_p_def modify_p_def exit_p_def)
  have "mstep w ?a" using decide [OF assms(1)] True by simp
  moreover have "mstep ?a ?b" using write_abort [of ?a now thr h start] d by simp
  moreover have "mstep ?b (w\<lparr>fdet := d, mon := Exited\<rparr>)" using exit_process [of ?b] by simp
  ultimately have "fsteps env w (w\<lparr>fdet := d, mon := Exited\<rparr>)" by (blast intro: mstep_path)
  then show ?thesis using d by simp
next
  case False
  then have "d = fdet w" "r = Return ()" using assms(2) by (simp_all add: return_p_def)
  with decide [OF assms(1)] False show ?thesis by (auto intro: mstep_path)
qed

lemma scan_tracker_path:
  assumes "mon w = Scan now thr (h # hs)" "scan_tracker now thr h (fdet w) = (r, d)" "r \<noteq> Killed 6"
  shows "fsteps env w (w\<lparr>fdet := d, mon := if r = Return () then Scan now thr hs else Exited\<rparr>)"
proof -
  define start where "start = start_sec (trackers (fdet w) h)"
  define last where "last = last_warn_sec (trackers (fdet w) h)"
  let ?o = "w\<lparr>mon := Over now thr h start hs\<rparr>"
  let ?D = "w\<lparr>mon := Deciding now thr h start hs\<rparr>"
  let ?fin = "if i64 (now - start) \<ge> i64 (thr * 2) then then_p (modify_p (write_stderr msg_abort)) (exit_p 1) else return_p ()"
  note S = assms(2) [unfolded scan_tracker_def Let_def, folded start_def last_def]
  note load = load_start [OF assms(1) start_def [symmetric]]
  consider (idle) "start = 0 \<or> i64 (now - start) < thr"
    | (quiet) "\<not> (start = 0 \<or> i64 (now - start) < thr)" "\<not> i64 (now - last) \<ge> thr"
    | (warn) "\<not> (start = 0 \<or> i64 (now - start) < thr)" "i64 (now - last) \<ge> thr" by blast
  then show ?thesis
  proof cases
    case idle
    with S load show ?thesis by (auto intro: mstep_path)
  next
    case quiet
    have "mstep w ?o" using load quiet by simp
    moreover have "mstep ?o ?D" using load_last [of ?o now thr h start hs] quiet by (simp add: last_def)
    moreover have "?fin (fdet w) = (r, d)" using S quiet by (simp add: then_p_def bind_p_def return_p_def)
    then have "fsteps env ?D (w\<lparr>fdet := d, mon := if r = Return () then Scan now thr hs else Exited\<rparr>)"
      using decide_path [of ?D now thr h start hs r d env] by simp
    ultimately show ?thesis by (blast intro: mstep_path)
  next
    case warn
    let ?d1 = "store_warn h now (fdet w)"
    let ?W = "w\<lparr>mon := Warning now thr h start hs\<rparr>"
    let ?X = "w\<lparr>fdet := ?d1, mon := Writing now thr h start hs\<rparr>"
    obtain d2 where d2: "warn_stderr (tr_name (trackers ?d1 h)) (i64 (now - start)) ?d1 = Some d2" and fin: "?fin d2 = (r, d)"
      using S warn assms(3)
      by (auto simp: warn_tracker_def Let_def store_warn_def [symmetric] then_p_def bind_p_def split: option.splits)
    let ?Y = "w\<lparr>fdet := d2, mon := Deciding now thr h start hs\<rparr>"
    have "mstep w ?o" using load warn by simp
    moreover have "mstep ?o ?W" using load_last [of ?o now thr h start hs] warn by (simp add: last_def)
    moreover have "mstep ?W ?X" using store_last [of ?W now thr h start hs] by simp
    moreover have "mstep ?X ?Y" using write_line [of ?X now thr h start hs d2] d2 by simp
    moreover have "fsteps env ?Y (w\<lparr>fdet := d, mon := if r = Return () then Scan now thr hs else Exited\<rparr>)"
      using decide_path [of ?Y now thr h start hs r d env] fin by simp
    ultimately show ?thesis by (blast intro: mstep_path)
  qed
qed

lemma scan_trackers_path:
  assumes "mon w = Scan now thr hs" "scan_trackers now thr hs (fdet w) = (r, d)" "\<forall>g. r \<noteq> Killed g"
  shows "fsteps env w (w\<lparr>fdet := d, mon := if r = Return () then Asleep else Exited\<rparr>)"
  using assms
proof (induction hs arbitrary: w)
  case Nil
  with scan_end [of w now thr] show ?case by (auto simp: return_p_def intro: mstep_path)
next
  case (Cons h hs)
  obtain q u where q: "scan_tracker now thr h (fdet w) = (q, u)" by fastforce
  with Cons.prems(2,3) have "q \<noteq> Killed 6" by (auto simp: then_p_def bind_p_def)
  note one = scan_tracker_path [OF Cons.prems(1) q this, of env]
  show ?case
  proof (cases "q = Return ()")
    case True
    let ?v = "w\<lparr>fdet := u, mon := Scan now thr hs\<rparr>"
    have "scan_trackers now thr hs (fdet ?v) = (r, d)" using Cons.prems(2) q True by (simp add: then_p_def bind_p_def)
    with Cons.IH [of ?v] Cons.prems(3)
    have two: "fsteps env ?v (w\<lparr>fdet := d, mon := if r = Return () then Asleep else Exited\<rparr>)" by simp
    have "fsteps env w ?v" using one True by simp
    from this two show ?thesis by (rule rtranclp_trans)
  next
    case False
    then have "r \<noteq> Return ()" "d = u" using Cons.prems(2) q by (auto simp: then_p_def bind_p_def split: flow.splits)
    with one False show ?thesis by simp
  qed
qed

lemma monitor_pass_path:
  assumes "mon w = Asleep" "MONITOR_STARTED (fdet w)" "monitor_pass (fclk w) (fdet w) = (r, d)" "\<forall>g. r \<noteq> Killed g"
  shows "fsteps env w (w\<lparr>fdet := d, mon := if r = Return () then Asleep else Exited\<rparr>)"
proof -
  let ?u = "w\<lparr>mon := Woken (fclk w)\<rparr>"
  let ?v = "w\<lparr>mon := Scan (fclk w) (THRESHOLD_SECS (fdet w)) TRACKERS\<rparr>"
  have "mstep w ?u" by (rule wake [OF assms(1,2)])
  moreover have "mstep ?u ?v" using load_threshold [of ?u "fclk w"] by simp
  moreover have "fsteps env ?v (w\<lparr>fdet := d, mon := if r = Return () then Asleep else Exited\<rparr>)"
    using scan_trackers_path [of ?v "fclk w" "THRESHOLD_SECS (fdet w)" TRACKERS r d env] assms(3,4)
    by (simp add: monitor_pass_def)
  ultimately show ?thesis by (blast intro: mstep_path)
qed

text \<open>Every state of the coarse relation, where a call begins, ends and the monitor passes in one
  step each, is a state of the fine one.\<close>

definition fine_of :: "world \<Rightarrow> fine" where
  "fine_of w = \<lparr>fdet = det w, fclk = clk w, frames = map (\<lambda>(h, p, t). (h, Running p t)) (calls w), mon = Asleep\<rparr>"

lemma fine_of_sel [simp]:
  "fdet (fine_of w) = det w" "fclk (fine_of w) = clk w" "mon (fine_of w) = Asleep"
  "frames (fine_of w) = map (\<lambda>(h, p, t). (h, Running p t)) (calls w)"
  by (simp_all add: fine_of_def)

lemma running_outermost: "running h (frames (fine_of w)) = outermost h (calls w)"
proof -
  have "running h (map (\<lambda>(h, p, t). (h, Running p t)) cs) = outermost h cs" for cs
    by (induction h cs rule: outermost.induct) auto
  then show ?thesis by simp
qed

lemma dstep_path:
  assumes "dstep env w w'"
  shows "fsteps env (fine_of w) (fine_of w')"
  using assms
proof cases
  case (clock_tick c)
  with fstep.tick [of "fine_of w" c env] show ?thesis by (auto simp: fine_of_def)
next
  case (call h prev d)
  with call_begin_path [of h env "fine_of w" prev d] show ?thesis by (simp add: fine_of_def)
next
  case (finish h prev t cs)
  with call_end_path [of "fine_of w" h prev t "frames (fine_of (w\<lparr>calls := cs\<rparr>))" env] show ?thesis
    by (simp add: fine_of_def)
next
  case (pass d)
  with monitor_pass_path [of "fine_of w" "Return ()" d env] show ?thesis by (simp add: fine_of_def)
qed

lemma dreach_freach: "dreach env w \<Longrightarrow> freach env (fine_of w)"
proof (induction rule: dreach.induct)
  case (start c)
  then have "freach env (fine_start c)" by (rule freach.start)
  then show ?case by (simp add: fine_of_def fine_start_def)
next
  case (step w w')
  then show ?case by (blast intro: freach_steps dstep_path)
qed

section \<open>A return in the middle of a pass\<close>

text \<open>A \<^verbatim>\<open>recv\<close> that has been in flight for 40 seconds returns while the monitor is between its
  loads and its store of \<^verbatim>\<open>last_warn_sec\<close>: no call is left, and the warning time stays.\<close>

definition stale_warning :: fine where
  "stale_warning = \<lparr>fdet = store_warn RECV_T 140 (call_end RECV_T 0 (det stuck_recv)), fclk = 140, frames = [],
     mon = Writing 140 30 RECV_T 100 [RECVFROM_T, RECVMSG_T]\<rparr>"

lemma stale_warning_reached: "freach None stale_warning"
proof -
  let ?w = "fine_of stuck_recv"
  let ?s = "\<lambda>hs. ?w\<lparr>mon := Scan 140 30 hs\<rparr>"
  let ?o = "?w\<lparr>mon := Over 140 30 RECV_T 100 [RECVFROM_T, RECVMSG_T]\<rparr>"
  let ?W = "?w\<lparr>mon := Warning 140 30 RECV_T 100 [RECVFROM_T, RECVMSG_T]\<rparr>"
  let ?e = "?W\<lparr>fdet := call_end RECV_T 0 (det stuck_recv), frames := []\<rparr>"
  have st: "MONITOR_STARTED (det stuck_recv)"
    using dreach_dinv [OF stuck_recv_reached] by (simp add: dinv_def)
  have sec: "start_sec (trackers (det stuck_recv) h) = (if h = RECV_T then 100 else 0)" for h
    using dinv_hook(1) [OF dreach_dinv [OF stuck_recv_reached], of h] by simp
  have "mstep ?w (?w\<lparr>mon := Woken 140\<rparr>)" using wake [of ?w] st by simp
  moreover have "mstep (?w\<lparr>mon := Woken 140\<rparr>) (?s TRACKERS)" using load_threshold [of "?w\<lparr>mon := Woken 140\<rparr>" 140] by simp
  moreover have "mstep (?s TRACKERS) (?s [GETADDRINFO_T, RECV_T, RECVFROM_T, RECVMSG_T])"
    using load_start [of "?s TRACKERS" 140 30 CONNECT_T] by (simp add: TRACKERS_def sec)
  moreover have "mstep (?s [GETADDRINFO_T, RECV_T, RECVFROM_T, RECVMSG_T]) (?s [RECV_T, RECVFROM_T, RECVMSG_T])"
    using load_start [of "?s [GETADDRINFO_T, RECV_T, RECVFROM_T, RECVMSG_T]" 140 30 GETADDRINFO_T] by (simp add: sec)
  moreover have "mstep (?s [RECV_T, RECVFROM_T, RECVMSG_T]) ?o"
    using load_start [of "?s [RECV_T, RECVFROM_T, RECVMSG_T]" 140 30 RECV_T] by (simp add: sec i64_id)
  moreover have "mstep ?o ?W" using load_last [of ?o 140 30 RECV_T 100] by (simp add: i64_id)
  moreover have "fsteps None ?W ?e" using call_end_path [of ?W RECV_T 0 100 "[]" None] by simp
  moreover have "mstep ?e stale_warning"
    using store_last [of ?e 140 30 RECV_T 100 "[RECVFROM_T, RECVMSG_T]"] by (simp add: stale_warning_def fine_of_def)
  ultimately have "fsteps None ?w stale_warning"
    by (meson mstep_path rtranclp.rtrancl_refl rtranclp_trans)
  then show ?thesis by (rule freach_steps [OF _ dreach_freach [OF stuck_recv_reached]])
qed

text \<open>So an idle tracker may hold a warning time (\<^verbatim>\<open>leave\<close> clears it too early).\<close>

lemma idle_tracker_keeps_warning:
  "\<exists>w. freach None w \<and> frames w = [] \<and> start_sec (trackers (fdet w) RECV_T) = 0 \<and>
     last_warn_sec (trackers (fdet w) RECV_T) = 140"
  by (rule exI [of _ stale_warning])
     (simp add: stale_warning_reached, simp add: stale_warning_def call_end_def leave_def set_tracker_def)

section \<open>Claims\<close>

text \<open>C30: Whatever the interleaving of the atomic operations of the wrapped calls of one thread
  (nested, also when a call interrupts another one inside \<^verbatim>\<open>enter\<close> or \<^verbatim>\<open>leave\<close>) with those of the
  monitor thread: a tracker holds exactly the time at which the outermost call in flight started,
  0 when there is none. The last warning time never lies in the future, and for a call in flight
  it is either not later than its start (left over from an earlier call, so it suppresses no
  warning about this one) or at least a threshold after it. The monitor is about to end the process only for a call that, when
  its tracker was read, had been in flight for at least twice the threshold.\<close>

theorem detector_tracks_outermost:
  assumes "freach env w"
  shows "let t = trackers (fdet w) h; thr = THRESHOLD_SECS (fdet w); start = running h (frames w) in
    0 < thr \<and> start_sec t = start \<and> 0 \<le> last_warn_sec t \<and> last_warn_sec t \<le> fclk w \<and>
    (start \<noteq> 0 \<longrightarrow> last_warn_sec t \<le> start \<or> start + thr \<le> last_warn_sec t) \<and>
    (\<forall>now k s. mon w = Aborting now k h s \<longrightarrow> k = thr \<and> 0 < s \<and> s + 2 * thr \<le> now \<and> now \<le> fclk w)"
  using freach_finv [OF assms] finv_tracker [OF freach_finv [OF assms], of h]
  by (auto simp: tracker_ok_def finv_def mon_ok_def Let_def starts_def clear_of_def)

theorem detector_tracks_outermost_witness:
  "freach None stale_warning \<and> freach None (fine_of stuck_recv) \<and>
   start_sec (trackers (fdet stale_warning) RECV_T) = 0 \<and>
   start_sec (trackers (det stuck_recv) RECV_T) = 100 \<and> start_sec (trackers (det stuck_recv) CONNECT_T) = 0"
proof -
  note s = dreach_freach [OF stuck_recv_reached]
  from detector_tracks_outermost [OF stale_warning_reached, of RECV_T] detector_tracks_outermost [OF s, of RECV_T]
    detector_tracks_outermost [OF s, of CONNECT_T] stale_warning_reached s
  show ?thesis by (simp add: stale_warning_def)
qed

end
