(* ===== verification/Progress.thy ===== *)
theory Progress
  imports Reaping
begin

text \<open>
  That the supervisor comes to an end. \<^verbatim>\<open>src/watch.rs\<close> polls the child once in every round and leaves
  the loop when a poll finds it ended, so a watch ends when the child does; \<^verbatim>\<open>src/run.rs\<close> starts at most
  as many children as the limit allows, and none after a termination signal.
\<close>

section \<open>One poll in every round\<close>

definition polled :: "nat \<Rightarrow> watch_next \<Rightarrow> proc \<Rightarrow> bool" where
  "polled n x t \<longleftrightarrow> (case x of Again _ \<Rightarrow> n_waitpid t = n | Verdict _ \<Rightarrow> True)"

text \<open>Abrupt ends: a jump out of the wait has not polled again.\<close>

definition jumped :: "nat \<Rightarrow> unit flow \<Rightarrow> proc \<Rightarrow> bool" where
  "jumped n r t \<longleftrightarrow> (case r of Longjmp _ \<Rightarrow> n_waitpid t = n | _ \<Rightarrow> True)"

lemma quits_jumped: "quits os r t \<Longrightarrow> jumped n r t"
  by (auto simp: quits_def ended_def jumped_def)

lemma gone_jumped: "gone os r t \<Longrightarrow> jumped n r t"
  by (auto simp: gone_def jumped_def)

lemma killed_polled: "ok (killed_verdict savedmask s rc) (quits os) p \<Longrightarrow> ok (polled n) (jumped n) p"
  by (erule ok_mono) (auto simp: killed_verdict_def polled_def quits_jumped)

lemmas kill_polled = killed_polled [OF kill_ret_keeps] killed_polled [OF port_failed_ret_keeps]

lemma entry_polls: "entry os t = entry os s \<Longrightarrow> n_waitpid t = n_waitpid s"
  by (simp add: entry_def)

lemma after_poll_polled:
  assumes "calm s" "n_waitpid s = n"
  shows "ok (polled n) (jumped n) (after_poll os savedmask revents s)"
proof -
  obtain r t where c: "(if has_flag revents POLLIN then check_ssh_stderr os s else (0, s)) = (r, t)"
    by fastforce
  have t: "calm t" "n_waitpid t = n"
    using c assms check_ssh_stderr_core [of os s r t] entry_polls [OF check_ssh_stderr_entry, of os s r t]
    by (auto split: if_splits)
  then show ?thesis
    unfolding after_poll_def c
    using entry_polls [OF entry_calls(2) [of os os t]] by (simp add: kill_polled polled_def)
qed

lemma watch_wait_polled:
  assumes "n_waitpid s = n"
  shows "ok (polled n) (jumped n) (watch_wait os savedmask s)"
proof (cases "exit_signalled s = 0")
  case False
  then show ?thesis by (simp add: watch_wait_def kill_polled)
next
  case True
  obtain r t where w: "wait_point os savedmask s = (r, t)" by fastforce
  then have "n_waitpid t = n" using entry_polls [OF wait_point_entry, of os savedmask s r t] assms by simp
  with True w show ?thesis
    by (cases r) (simp_all add: watch_wait_def bind_p_def Let_def jumped_def after_poll_polled polled_def)
qed

lemma ssh_wait_polls: "ssh_wait os options s = (r, t) \<Longrightarrow> n_waitpid t = Suc (n_waitpid s)"
proof (erule ssh_wait_cases)
  fix d u l m
  assume "check_ssh_stderr os (emit (Waitpid (cchild s) options) (s\<lparr>n_waitpid := Suc (n_waitpid s)\<rparr>)) = (d, u)"
    and t: "t = u \<or> t = errlog os l m u \<or> t = errlog os l m (tick u)"
  from entry_polls [OF check_ssh_stderr_entry [OF this(1), of os]] t
  show "n_waitpid t = Suc (n_waitpid s)" by (auto simp: emit_def errlog_upd tick_def)
qed (simp add: emit_def)

lemma watch_try_polled:
  assumes "calm s"
  shows "ok (polled (Suc (n_waitpid s))) (jumped (Suc (n_waitpid s))) (watch_try os savedmask p s)"
proof -
  obtain r t where w: "ssh_wait os WNOHANG s = (r, t)" by fastforce
  have "n_waitpid (arm_alarm os p t) = Suc (n_waitpid s)"
    using ssh_wait_polls [OF w] entry_polls [OF entry_calls(3) [of os os p t]] by simp
  moreover have "ok (polled n) (jumped n) (ret os savedmask r t)" for n
    by (rule ok_mono [OF ret_keeps]) (use ssh_wait_core(4) [OF w] assms in \<open>auto simp: polled_def quits_jumped\<close>)
  ultimately show ?thesis using w by (simp add: watch_try_def watch_wait_polled)
qed

lemma conn_test_polled:
  assumes "calm s"
  shows "ok (\<lambda>_ t. calm t \<and> n_waitpid t = n_waitpid s) (jumped n) (conn_test os sock h p s)"
  by (rule ok_mono [OF ok_conj [OF monitor_calm.conn_test_ok [OF assms, of os sock h p]
        monitor_keeps.conn_test_ok [of s "conn_frame s" os sock h p, OF refl]]])
    (auto simp: conn_frame_def ended_def jumped_def)

lemma alarm_checks_polled:
  assumes "calm s" "n_waitpid s = n"
  shows "ok (polled n) (jumped n) (alarm_checks os sock savedmask s)"
proof -
  obtain r t where c: "check_ssh_stderr os s = (r, t)" by fastforce
  have t: "calm t" "n_waitpid t = n"
    using check_ssh_stderr_core [OF c] entry_polls [OF check_ssh_stderr_entry [OF c, of os]] assms by simp_all
  have "ok (polled n) (jumped n) (bind_p (conn_test os sock (mhost t) wp) (\<lambda>up s.
      if up = 0 then kill_ret os savedmask P_RESTART (errlog os LOG_INFO ''port down, restarting ssh'' s)
      else (Return (Again (poll_time s)), s)) t)" for wp
    by (rule ok_bind, rule conn_test_polled [OF t(1)]) (use t(2) in \<open>auto simp: kill_polled polled_def\<close>)
  with t c show ?thesis by (simp add: alarm_checks_def kill_polled polled_def split: option.split)
qed

lemma on_alarm_polled:
  assumes "calm s" "n_waitpid s = n"
  shows "ok (polled n) (jumped n) (on_alarm os sock savedmask s)"
proof -
  obtain r t where x: "exceeded_lifetime os s = (r, t)" by fastforce
  have t: "calm t" "n_waitpid t = n"
    using exceeded_lifetime_core [OF x] entry_polls [OF entry_calls(1) [of os os s]] x assms by simp_all
  moreover have "n_waitpid (tick t) = n" using t(2) by (simp add: tick_def)
  ultimately show ?thesis
    unfolding on_alarm_def x by (auto simp: kill_polled alarm_checks_polled split: option.split)
qed

lemma watch_catch_polled:
  assumes "calm s" "n_waitpid s = n"
  shows "ok (polled n) (jumped n) (watch_catch os sock savedmask val s)"
proof -
  obtain r t where m: "restore_mask os savedmask s = (r, t)" by fastforce
  have "n_waitpid t = n"
    using async_frame [of os "s\<lparr>sigmask := savedmask\<rparr>" r t n_waitpid] m assms(2)
    by (simp add: restore_mask_def)
  moreover have "ok (\<lambda>_. calm) (quits os) (r, t)"
    using ok_mono [OF restore_keeps [OF assms(1), of savedmask os], of "\<lambda>_. calm" "quits os"] m by simp
  ultimately show ?thesis
    using m quits_jumped [of os _ t n]
    by (cases r) (auto simp: watch_catch_def then_p_def bind_p_def kill_polled on_alarm_polled polled_def)
qed

lemma watch_iter_polls:
  assumes "calm s" "watch_iter os sock savedmask p s = (Return (Again q), t)"
  shows "n_waitpid t = Suc (n_waitpid s)"
proof -
  let ?b = "block_signals s" and ?n = "Suc (n_waitpid s)"
  have b: "calm ?b" "n_waitpid ?b = n_waitpid s" using assms(1) by (simp_all add: block_signals_def)
  have kr: "ok (polled ?n) (jumped ?n)
      (kill_ret os savedmask P_RESTART (errlog os LOG_INFO ''signalled to kill and restart ssh'' ?b))"
    using b by (simp add: kill_polled)
  obtain r u where w: "watch_try os savedmask p ?b = (r, u)" by fastforce
  note tr = watch_try_polled [OF b(1), of os savedmask p, unfolded w b(2)]
  have "ok (polled ?n) (jumped ?n) (watch_catch os sock savedmask g u)" if "r = Longjmp g" for g
    by (rule watch_catch_polled)
      (use that tr watch_try_keeps [OF b(1), of os savedmask p, unfolded w] in \<open>auto simp: try_abrupt_def jumped_def\<close>)
  with w tr kr assms(2) have "polled ?n (Again q) t"
    by (cases r) (auto simp: watch_iter_def Let_def split: if_splits)
  then show ?thesis by (simp add: polled_def)
qed

text \<open>A round whose poll finds the child ended is the last one.\<close>

lemma watch_iter_ended:
  assumes "calm s" "ending_of (os_waitpid os (n_waitpid s)) \<noteq> Running"
  shows "fst (watch_iter os sock savedmask p s) \<noteq> Return (Again q)"
proof -
  let ?b = "block_signals s" and ?V = "\<lambda>x (_ :: proc). \<exists>v. x = Verdict v"
  have b: "calm ?b" "n_waitpid ?b = n_waitpid s" using assms(1) by (simp_all add: block_signals_def)
  obtain c u where sw: "ssh_wait os WNOHANG ?b = (c, u)" by fastforce
  have c: "c \<noteq> P_CONTINUE"
    using sw assms(2) unfolding b(2) [symmetric]
    by (auto simp: ssh_wait_def exit_policy_def ending_of_def Let_def split: prod.splits if_splits)
  have "calm u" using ssh_wait_core(4) [OF sw] b by simp
  from ok_mono [OF ret_keeps [OF this, of c savedmask os], of ?V "gone os"] quits_gone
  have R: "ok ?V (gone os) (watch_try os savedmask p ?b)" using sw c by (auto simp: watch_try_def)
  have K: "ok ?V (gone os) (kill_ret os savedmask P_RESTART (errlog os LOG_INFO ''signalled to kill and restart ssh'' ?b))"
    by (rule ok_mono [OF kill_ret_keeps]) (use b in \<open>auto simp: killed_verdict_def quits_gone\<close>)
  obtain r t where "watch_try os savedmask p ?b = (r, t)" by fastforce
  with R K have "ok ?V (gone os) (watch_iter os sock savedmask p s)"
    by (cases r) (auto simp: watch_iter_def Let_def gone_def)
  then show ?thesis by (auto simp: ok_def split: prod.splits)
qed

section \<open>The watch ends when the child does\<close>

text \<open>Children are mortal: from any poll on, some poll finds the child ended.\<close>

definition mortal :: "os \<Rightarrow> bool" where
  "mortal os \<longleftrightarrow> (\<forall>n. \<exists>k \<ge> n. ending_of (os_waitpid os k) \<noteq> Running)"

lemma watch_loop_ends:
  assumes "calm s" "n_waitpid s \<le> k" "ending_of (os_waitpid os k) \<noteq> Running"
  shows "\<exists>v. watch_loop os sock savedmask p s = Some v"
  using assms(1,2)
proof (induction "k - n_waitpid s" arbitrary: s p rule: less_induct)
  case less
  obtain x t where i: "watch_iter os sock savedmask p s = (x, t)" by fastforce
  show ?case
  proof (cases "loop_exit x")
    case None
    then obtain q where x: "x = Return (Again q)"
      by (auto simp: loop_exit_def split: flow.splits watch_next.splits)
    have c: "calm t" using watch_iter_keeps [OF less(2), of os savedmask sock p] i x by (simp add: iter_post_def)
    have n: "n_waitpid t = Suc (n_waitpid s)" using watch_iter_polls [OF less(2)] i x by simp
    have "n_waitpid s \<noteq> k" using watch_iter_ended [OF less(2), of os sock savedmask p q] assms(3) i x by auto
    with n less(1) [OF _ c, of q] less(3) have "\<exists>v. watch_loop os sock savedmask q t = Some v" by simp
    then show ?thesis using i x by (subst watch_loop.simps) simp
  next
    case (Some y)
    then show ?thesis using i
      by (subst watch_loop.simps) (auto simp: loop_exit_def split: flow.splits watch_next.splits)
  qed
qed

lemma mortal_watch_ends: "mortal os \<Longrightarrow> calm s \<Longrightarrow> \<exists>v. ssh_watch os sock s = Some v"
  unfolding mortal_def ssh_watch_def by (metis calm_upd(6) watch_loop_ends)

section \<open>The start loop\<close>

lemma run_iter_ends:
  assumes "mortal os" "calm s"
  shows "\<exists>v. run_iter os sock s = Some v"
proof -
  obtain x u where prep: "run_prepare os s = (x, u)" by fastforce
  obtain y v where fork: "run_fork os u = (y, v)" by fastforce
  have "\<exists>w. ssh_watch os sock v = Some w" if "x = Return None" "y = Return z" for z
  proof -
    have "calm u" using run_prepare_post [OF assms(2) prep] that(1) assms(2) by (auto simp: run_frame_def)
    then have "calm v" using run_fork_post [OF _ fork] that(2) by (auto simp: run_frame_def)
    then show ?thesis by (rule mortal_watch_ends [OF assms(1)])
  qed
  then show ?thesis
    using prep fork by (cases x; cases y) (fastforce simp: run_iter_def split: option.splits flow.splits)+
qed

lemma run_loop_ends:
  assumes "mortal os" "calm s" "0 \<le> start_count s" "0 \<le> max_start s" "max_start s < 2 ^ 31"
  shows "\<exists>v. run_loop os sock s = Some v"
  using assms(2-)
proof (induction "nat (max_start s - start_count s)" arbitrary: s rule: less_induct)
  case less
  obtain x t where i: "run_iter os sock s = Some (x, t)"
    using run_iter_ends [OF assms(1) less(2)] by fastforce
  note P = run_iter_post [OF less(2) i]
  show ?case
  proof (cases "run_exit x")
    case None
    then have x: "x = Return Restart" by (auto simp: run_exit_def split: flow.splits run_next.splits)
    with P have t: "run_frame t = run_frame s" "start_count t = i32 (start_count s + 1)" "start_count s < max_start s"
      using less(4) by (auto simp: run_post_def)
    have c: "start_count t = start_count s + 1" using t(2,3) less(3,5) by (simp add: in_i32_def)
    have "\<exists>v. run_loop os sock t = Some v"
      by (rule less(1)) (use t c less run_frame_sel [OF t(1)] in auto)
    then show ?thesis using i x by (subst run_loop.simps) simp
  next
    case (Some y)
    then show ?thesis using i
      by (subst run_loop.simps) (auto simp: run_exit_def split: flow.splits run_next.splits)
  qed
qed

text \<open>With a start limit, the supervisor comes to an end if its children do, whatever the clock, the
  network and the signals do.\<close>

lemma ssh_run_terminates:
  assumes "mortal os" "calm s" "ssh_stderr_fd s < 0" "0 \<le> start_count s" "0 \<le> max_start s" "max_start s < 2 ^ 31"
  shows "\<exists>r t. ssh_run os sock s = Some (r, t) \<and>
    (case r of Return v \<Rightarrow> v \<in> {P_EXITOK, P_EXITERR} | _ \<Rightarrow> gone os (void r) t)"
proof -
  obtain r t where run: "ssh_run os sock s = Some (r, t)"
    using run_loop_ends [OF assms(1), of "install_for_child os (set_exit_sig_handler s)" sock] assms(2-)
    by (auto simp: ssh_run_def run_entry)
  with ssh_run_ends [OF assms(2,3) run] show ?thesis by (cases r) auto
qed

text \<open>The children of this kernel are mortal.\<close>

lemma term_os_mortal: "mortal term_os"
  unfolding mortal_def
proof
  show "\<exists>k \<ge> n. ending_of (os_waitpid term_os k) \<noteq> Running" for n
    by (rule exI [of _ "Suc n"]) (simp add: term_os_def ending_of_def WIFSIGNALED_def WTERMSIG_def)
qed

end
