(* ===== verification/Whole_Run.thy ===== *)
theory Whole_Run
  imports Startup Progress
begin

text \<open>
  The end of the whole program: the start limit that \<^verbatim>\<open>src/env.rs\<close> reads from the environment is the
  one the start loop of \<^verbatim>\<open>src/run.rs\<close> counts against, since nothing \<^verbatim>\<open>src/main_logic.rs\<close> does in between
  touches it.
\<close>

section \<open>Programs that leave the start limit alone\<close>

definition limits :: "proc \<Rightarrow> int \<times> int" where
  "limits s = (max_start s, start_count s)"

definition leaves :: "(proc, 'a) prog \<Rightarrow> bool" where
  "leaves m \<longleftrightarrow> (\<forall>s. ok (\<lambda>_ t. limits t = limits s) (\<lambda>_ _. True) (m s))"

lemma leavesD: "leaves m \<Longrightarrow> limits s = c \<Longrightarrow> ok (\<lambda>_ t. limits t = c) (\<lambda>_ _. True) (m s)"
  by (auto simp: leaves_def)

lemma leaves_return [hoare]: "leaves (return_p a)"
  by (simp add: leaves_def)

lemma leaves_bind [hoare]:
  assumes "leaves m" "\<And>a. leaves (f a)"
  shows "leaves (bind_p m f)"
  unfolding leaves_def
proof
  fix s
  show "ok (\<lambda>_ t. limits t = limits s) (\<lambda>_ _. True) (bind_p m f s)"
    by (rule ok_bind, rule leavesD [OF assms(1) refl]) (rule leavesD [OF assms(2)])
qed

lemma leaves_then [hoare]: "leaves m \<Longrightarrow> leaves k \<Longrightarrow> leaves (then_p m k)"
  unfolding then_p_def by (rule leaves_bind)

lemma leaves_modify [hoare]: "(\<And>s. limits (f s) = limits s) \<Longrightarrow> leaves (modify_p f)"
  by (simp add: leaves_def modify_p_def)

lemma fails [intro, simp]: "ok Q (\<lambda>_ _. True) (xerrlog os l m s)"
  by (rule xerrlog_ok [OF xerrlog_abrupt])

lemma limits_upd [simp]:
  "limits (s\<lparr>ssh_path := a\<rparr>) = limits s" "limits (s\<lparr>syslog_perror := i\<rparr>) = limits s" "limits (s\<lparr>loglevel := i\<rparr>) = limits s"
  "limits (s\<lparr>poll_time := i\<rparr>) = limits s" "limits (s\<lparr>first_poll_time := i\<rparr>) = limits s" "limits (s\<lparr>gate_time := q\<rparr>) = limits s"
  "limits (s\<lparr>echo_message := a\<rparr>) = limits s" "limits (s\<lparr>env_port := c\<rparr>) = limits s" "limits (s\<lparr>max_lifetime := q\<rparr>) = limits s"
  "limits (s\<lparr>max_session := q\<rparr>) = limits s" "limits (s\<lparr>pid_file_name := c\<rparr>) = limits s" "limits (s\<lparr>flog := c\<rparr>) = limits s"
  "limits (s\<lparr>logtype := i\<rparr>) = limits s" "limits (s\<lparr>pid_start_time := i\<rparr>) = limits s" "limits (s\<lparr>writep := c\<rparr>) = limits s"
  "limits (s\<lparr>readp := a\<rparr>) = limits s" "limits (s\<lparr>echop := c\<rparr>) = limits s" "limits (s\<lparr>mhost := a\<rparr>) = limits s"
  "limits (s\<lparr>net_timeout := i\<rparr>) = limits s" "limits (s\<lparr>pid_file_created := i\<rparr>) = limits s" "limits (tick s) = limits s"
  "limits (errlog os l m s) = limits s" "limits (emit e s) = limits s"
  by (simp_all add: limits_def tick_def errlog_upd emit_def)

lemma limits_lifetime_set [simp]: "limits (lifetime_set os life s) = limits s"
  by (simp add: lifetime_set_def Let_def)

section \<open>Reading the environment\<close>

lemma leaves_env:
  "leaves (modify_p (env_path h))" "leaves (env_loglevel h os)" "leaves (env_poll h os)" "leaves (env_first_poll h os)"
  "leaves (env_gatetime h os)" "leaves (env_message h os)" "leaves (modify_p (env_port_var h))" "leaves (env_maxlifetime h os)"
  "leaves (env_max_session h os)" "leaves (modify_p (env_pidfile h))" "leaves (env_logfile h os)"
  by (auto simp: leaves_def modify_p_def env_path_def env_loglevel_def env_poll_def env_first_poll_def env_gatetime_def
      env_message_def env_port_var_def env_maxlifetime_def env_max_session_def env_pidfile_def env_logfile_def Let_def
      split: option.split prod.split)

lemma env_maxstart_limit:
  assumes "getenv h ''AUTOSSH_MAXSTART'' = Some (show_nat n)" "n < 2 ^ 31"
  shows "env_maxstart h os s = (Return (), s\<lparr>max_start := int n\<rparr>)"
proof -
  have "parse_l (show_nat n) = (int n, [])" using assms(2) by (simp add: parse_l_def strtol_show_nat)
  moreover have "i32 (int n) = int n" using assms(2) by (simp add: in_i32_def)
  ultimately show ?thesis using assms(1) by (simp add: env_maxstart_def is_empty_cstr_def)
qed

lemma env_limit:
  assumes "getenv h ''AUTOSSH_MAXSTART'' = Some (show_nat n)" "n < 2 ^ 31"
  shows "ok (\<lambda>_ t. limits t = (int n, start_count s)) (\<lambda>_ _. True) (get_env_args h os s)"
proof -
  let ?c = "(int n, start_count s)"
  have rest: "leaves (then_p (env_message h os) (then_p (modify_p (env_port_var h)) (then_p (env_maxlifetime h os)
      (then_p (env_max_session h os) (then_p (modify_p (env_pidfile h)) (env_logfile h os))))))"
    by (intro hoare leaves_env)
  have tail: "ok (\<lambda>_ t. limits t = ?c) (\<lambda>_ _. True)
      (then_p (env_maxstart h os) (then_p (env_message h os) (then_p (modify_p (env_port_var h)) (then_p (env_maxlifetime h os)
        (then_p (env_max_session h os) (then_p (modify_p (env_pidfile h)) (env_logfile h os)))))) t)"
    if "limits t = limits s" for t
    using leavesD [OF rest, of "t\<lparr>max_start := int n\<rparr>" ?c] that
    by (simp add: then_p_def bind_p_def env_maxstart_limit [OF assms] limits_def)
  note step = ok_then [where R = "\<lambda>t. limits t = limits s", OF leavesD [OF _ _]]
  show ?thesis
    unfolding get_env_args_def
    by (intro step leaves_env tail refl) simp_all
qed

section \<open>The rest of the setup\<close>

lemma leaves_opt_loop: "leaves (opt_loop os opts w d)"
  unfolding leaves_def
proof
  show "ok (\<lambda>_ t. limits t = limits s) (\<lambda>_ _. True) (opt_loop os opts w d s)" for s
    by (induction os opts w d s rule: opt_loop.induct) (auto simp: usage_def)
qed

lemma leaves_ports:
  "leaves (set_echo os e)" "leaves (modify_p (set_mhost h))" "leaves (modify_p (set_net_timeout os))" "leaves (set_ports os p ep)"
proof -
  have s: "leaves (snprintf_fwd os x)" for x by (auto simp: leaves_def snprintf_fwd_def)
  have f: "leaves (set_forwards os wp ep)" for wp ep
    unfolding leaves_def set_forwards_def Let_def
    by (auto intro!: ok_bind [where R = "\<lambda>_ t. limits t = limits _"] leavesD [OF s])
  show "leaves (set_ports os p ep)"
    unfolding leaves_def set_ports_def Let_def
    by (auto intro!: leavesD [OF leaves_bind [OF f leaves_return]] split: prod.split)
  show "leaves (set_echo os e)" "leaves (modify_p (set_mhost h))" "leaves (modify_p (set_net_timeout os))"
    by (auto simp: leaves_def modify_p_def set_echo_def set_mhost_def set_net_timeout_def Let_def split: option.split prod.split)
qed

lemma leaves_main_argv: "leaves (main_argv h os argv w wp wm rm)"
  by (auto simp: leaves_def main_argv_def alloc_fail_def split: sum.split arg_error.split option.split)

lemma leaves_main_ports: "leaves (main_ports h os argv w p)"
proof -
  have "leaves (bind_p (set_echo os (snd (split_port p))) (\<lambda>ep. then_p (modify_p (set_mhost h))
      (bind_p (set_ports os (fst (split_port p)) ep) (\<lambda>(wp, wm, rm).
        then_p (modify_p (set_net_timeout os)) (main_argv h os argv' w wp wm rm)))))" for argv'
    by (intro hoare leaves_ports) (auto intro!: hoare leaves_ports leaves_main_argv split: prod.split)
  then show ?thesis by (simp add: leaves_def main_ports_def)
qed

lemma leaves_main_options: "leaves (main_options h os argv)"
proof -
  obtain opts optind argv' where o: "getopt h argv = (opts, optind, argv')" by (metis prod_cases3)
  have "leaves (\<lambda>s. case port_text argv' w s of None \<Rightarrow> usage os 1 s
      | Some p \<Rightarrow> if int (length argv) = optind then usage os 1 s
          else bind_p (main_ports h os argv' w p) (\<lambda>a. return_p (a, d)) (open_syslog s))" for w d
    unfolding leaves_def
    by (auto simp: usage_def open_syslog_def intro!: leavesD [OF leaves_bind [OF leaves_main_ports leaves_return]] split: option.split)
  then show ?thesis
    unfolding main_options_def o by (auto intro!: hoare leaves_opt_loop split: prod.split)
qed

lemma leaves_start:
  "leaves (go_daemon h os d)" "leaves (open_monitor os)" "leaves (write_pid_file h os)"
proof -
  show "leaves (go_daemon h os d)" "leaves (write_pid_file h os)"
    by (auto simp: leaves_def go_daemon_def write_pid_file_def Let_def split: option.split)
  have "ok (\<lambda>_ t. limits t = limits s) (\<lambda>_ _. True) (conn_listen os (mhost s) (readp s) s)" for s
    by (rule ok_mono [OF monitor_keeps.conn_listen_ok [of s "conn_frame s", OF refl]])
      (auto simp: conn_frame_def limits_def config_def launch_def)
  then show "leaves (open_monitor os)" by (simp add: leaves_def open_monitor_def)
qed

lemma main_setup_limit:
  assumes "getenv h ''AUTOSSH_MAXSTART'' = Some (show_nat n)" "n < 2 ^ 31"
  shows "ok (\<lambda>_ t. limits t = (int n, start_count s)) (\<lambda>_ _. True) (main_setup h os argv s)"
proof -
  have "leaves (bind_p (main_options h os argv) (\<lambda>(a, d). then_p (go_daemon h os d)
      (bind_p (open_monitor os) (\<lambda>sock. then_p (write_pid_file h os) (return_p (a, sock))))))"
    by (auto intro!: hoare leaves_main_options leaves_start split: prod.split)
  from ok_then [OF env_limit [OF assms] leavesD [OF this]] show ?thesis by (simp add: main_setup_def)
qed

section \<open>Claims\<close>

text \<open>C5: The program ends if its children do: with \<^verbatim>\<open>AUTOSSH_MAXSTART\<close> set to a number, allocations that
  succeed and a \<^verbatim>\<open>getopt\<close> that only reorders its arguments, and if from any poll on some poll finds
  the child ended, then for every other variable, command line, clock, network and sequence of
  signals the program ends, with exit status 0 or 1 or by the default action of a signal.\<close>

theorem main_terminates:
  assumes "\<And>k. al_calloc (mem h k) \<and> al_realloc (mem h k) \<and> al_malloc (mem h k)" "reorders h" "length args < 2 ^ 28"
    and "getenv h ''AUTOSSH_MAXSTART'' = Some (show_nat n)" "n < 2 ^ 31" "mortal os"
  shows "\<exists>r t. main h os args initial_proc = Some (r, t) \<and>
    (case r of Exit c \<Rightarrow> c = 0 \<or> c = 1 | Killed g \<Rightarrow> disp t g = SIG_DFL \<and> os_dfl_term os g | _ \<Rightarrow> False)"
proof -
  let ?argv = "map (\<lambda>a. a @ [NUL]) args"
  have w: "working_memory (mem h)" using assms(1) by unfold_locales simp_all
  have p: "ok (\<lambda>_. fresh os) (ends os) (main_setup h os ?argv initial_proc)"
    using assms(3) by (intro preparesD [OF prepares_setup [OF w assms(2)] fresh_initial]) (auto simp: terminated_def)
  obtain r0 s0 where m: "main_setup h os ?argv initial_proc = (r0, s0)" by fastforce
  have "\<exists>v. ssh_run os sock s0 = Some v" if "r0 = Return (a, sock)" for a sock
  proof -
    have "calm s0" "ssh_stderr_fd s0 < 0" using p m that by (simp_all add: fresh_def)
    moreover have "max_start s0 = int n" "start_count s0 = 0"
      using main_setup_limit [OF assms(4,5), of initial_proc os ?argv] m that by (simp_all add: limits_def)
    ultimately show ?thesis using ssh_run_terminates [OF assms(6), of s0 sock] assms(5) by auto
  qed
  then have "\<exists>v. main h os args initial_proc = Some v"
    using m by (cases r0) (fastforce simp: main_def autossh_main_def split: option.splits flow.splits)+
  then obtain r t where run: "main h os args initial_proc = Some (r, t)" by auto
  with main_ends(1) [OF w assms(2,3) fresh_initial run] show ?thesis by blast
qed

text \<open>A host that asks for one start and no monitor.\<close>

definition one_start_host :: starter where
  "one_start_host = version_host\<lparr>getenv := (\<lambda>x. if x = ''AUTOSSH_MAXSTART'' then Some ''1''
      else if x = ''AUTOSSH_PORT'' then Some ''0'' else None), getopt := (\<lambda>argv. ([], 1, argv))\<rparr>"

theorem main_terminates_witness:
  "mortal term_os \<and> (\<exists>r t. main one_start_host term_os [''autossh'', ''host''] initial_proc = Some (r, t))"
proof -
  have "mem one_start_host = (\<lambda>_. good_alloc)" "reorders one_start_host"
    "getenv one_start_host ''AUTOSSH_MAXSTART'' = Some (show_nat 1)"
    by (simp_all add: one_start_host_def version_host_def reorders_def show_nat.simps digit_chars)
  with main_terminates [of one_start_host "[''autossh'', ''host'']" 1 term_os] term_os_mortal show ?thesis
    by (auto simp: good_alloc_def)
qed

end
