(* ===== verification/Spec2Isabelle.thy ===== *)
theory Spec2Isabelle
  imports Session_Steps Detector_Steps Whole_Run
begin

text \<open>
  A verification of autossh, the Rust port: a supervisor that starts ssh, tests its tunnel, and
  restarts it when it dies or hangs; a C interface (\<^verbatim>\<open>libautossh\<close>) through which a host process runs
  such supervisors as sessions; and a library, preloaded into ssh, that reports calls that hang.

  \<^bold>\<open>The program.\<close> \<^verbatim>\<open>main\<close> (\<^verbatim>\<open>src/main.rs\<close>) hands its arguments to \<^verbatim>\<open>autossh_main\<close>
  (\<^verbatim>\<open>src/main_logic.rs\<close>), which reads the environment (\<^verbatim>\<open>src/env.rs\<close>), the options and the monitor
  port, builds the command line of ssh (\<^verbatim>\<open>src/args.rs\<close>), opens the monitor socket, writes the pid
  file and enters \<^verbatim>\<open>ssh_run\<close> (\<^verbatim>\<open>src/run.rs\<close>). Each turn of that loop waits out the backoff
  (\<^verbatim>\<open>src/grace.rs\<close>), forks a child, and watches it (\<^verbatim>\<open>src/watch.rs\<close>): the watch sleeps until a
  signal, output of the child or the alarm; it reaps the child (\<^verbatim>\<open>src/wait.rs\<close>), scans its stderr
  (\<^verbatim>\<open>src/stderr_drain.rs\<close>), sends a message through the tunnel and expects it back
  (\<^verbatim>\<open>src/conn.rs\<close>), and ends the child (\<^verbatim>\<open>src/kill.rs\<close>) when it must be restarted. Signals reach
  the watch through flags and a jump (\<^verbatim>\<open>src/signals.rs\<close>). The child preloads the detector
  (\<^verbatim>\<open>src/stuck_detector.rs\<close>, \<^verbatim>\<open>ssh-stuck-detector/src/lib.rs\<close>), whose lines on stderr come back to
  the drain. \<^verbatim>\<open>src/api.rs\<close> forks a supervisor per session and talks to it through the environment,
  a command line and signals.

  \<^bold>\<open>State and effects.\<close> The static variables of \<^verbatim>\<open>src/globals.rs\<close> are the record \<open>globals\<close>; \<open>proc\<close>
  extends it with signal dispositions, the mask, the trace of system calls and one counter for each
  kind of call. Answers of kernel, network, clock and child are the record \<open>os\<close>, indexed by these
  counters: a theorem for all \<open>os\<close> speaks of every behaviour of the outside. A function that may
  exit, die of a signal or jump is a \<open>prog\<close>: a state transformer whose outcome is \<open>Return\<close>, \<open>Exit\<close>,
  \<open>Killed\<close> or \<open>Longjmp\<close>. Signals arrive at the sleeps, the waits and the points where the mask is
  restored. Machine integers are integers with the wrap-around written out (\<open>i32\<close>, \<open>u64\<close>);
  doubles are rationals that are rounded after every operation.

  \<^bold>\<open>Theories.\<close>
  \<^item> \<open>Prelude\<close>: machine integers, outcomes, the sequencing of programs and the rules \<open>ok\<close> for them.
  \<^item> \<open>F64\<close>: binary64 rounding; the locale \<open>rounding\<close> is what the components use of it.
  \<^item> \<open>CString\<close>: C string functions, decimal printing and parsing with their round trips, UTF-8.
  \<^item> \<open>Globals\<close>: \<^verbatim>\<open>src/globals.rs\<close>, \<^verbatim>\<open>src/log.rs\<close>, the kernel's answers and the trace.
  \<^item> \<open>Signals\<close>: the handler, the dispositions, delivery at a point of the program.
  \<^item> \<open>Kill\<close>: the teardown of the child and \<^verbatim>\<open>xerrlog\<close>; the locale \<open>teardown\<close> is its contract.
  \<^item> \<open>Lifetime\<close>: alarm, lifetime and backoff; the locale \<open>backoff\<close> has the curve over any rounding.
  \<^item> \<open>Stderr_Drain\<close>, \<open>Wait\<close>: the scan of stderr, the table of exit policies.
  \<^item> \<open>Conn\<close>: the connection test; the locales \<open>io_frame\<close> and \<open>net_frame\<close> carry an assertion through
    the network code and are interpreted for the settings, the signal state, the bytes received,
    the descriptors held and, in \<open>Reaping\<close>, the ledger of children.
  \<^item> \<open>Watch\<close>, \<open>Stuck_Detector\<close>, \<open>Run\<close>: the monitoring loop, the preload, the start loop.
  \<^item> \<open>Reaping\<close>: the children forked and not yet collected, replayed from the trace; the locale
    \<open>entry_frame\<close> carries an assertion about them through everything but \<^verbatim>\<open>fork\<close>, \<^verbatim>\<open>kill\<close> and \<^verbatim>\<open>waitpid\<close>.
  \<^item> \<open>Progress\<close>, \<open>Whole_Run\<close>: that the watch ends when the child does, the start loop within its limit,
    and the program as a whole.
  \<^item> \<open>Args\<close>, \<open>Env\<close>: the argument vector (locale \<open>arg_builder\<close>) and the environment.
  \<^item> \<open>Main_Logic\<close>, \<open>Command_Line\<close>, \<open>Startup\<close>: the entry point, the command line of ssh as a function
    on lists (locale \<open>working_memory\<close>), and the start as a whole.
  \<^item> \<open>Api\<close>, \<open>Session\<close>: the C interface one call at a time, and what a session promises.
  \<^item> \<open>Session_Race\<close>, \<open>Session_Steps\<close>: the interleavings of concurrent calls as a step relation (the fork
    and the store of its pid are two steps), and the calls of \<open>Api\<close> as paths of it.
  \<^item> \<open>Detector\<close>: the preloaded library, with nested calls of one thread and whole passes of the monitor
    as steps of a relation.
  \<^item> \<open>Detector_Steps\<close>: the same one atomic operation at a time; every state that \<open>Detector\<close> reaches is
    reached here, but not the other way round.

  \<^bold>\<open>What is shown.\<close> The start loop and the watch keep settings, mask and jump state, signal only their
  own children, start nothing more once a termination signal has been noted, and honour the start
  limit (\<open>Run\<close>, \<open>Watch\<close>); no signal goes to a
  child that has been collected (\<open>Reaping\<close>); with a start limit and children that end, the program
  ends (\<open>Progress\<close>, \<open>Whole_Run\<close>). A teardown is
  bounded and escalates exactly when needed (\<open>Kill\<close>). The connection test is sound on every network;
  on one where no call fails it finds a live tunnel unless the bytes that come back are wrong or too
  late; it is bounded and leaks no descriptor other than 0 (\<open>Conn\<close>). The exit policy is
  characterised on every wait status (\<open>Wait\<close>), backoff and alarm for integral settings below
  \<open>2 ^ 31\<close>, the alarm also when the lifetime has run out (\<open>Lifetime\<close>, \<open>Watch\<close>). Reading the environment
  decides exactly the acceptable values (\<open>Env\<close>); the argument vector and the in-place edits of the
  command line refine lists (\<open>Args\<close>, \<open>Command_Line\<close>); the program ends only with the statuses it may
  (\<open>Startup\<close>). When no AUTOSSH variable is inherited, a session's settings reach the supervisor, and
  its tunnel reaches ssh as long as \<^verbatim>\<open>getopt\<close> leaves the extra arguments in their order; its start
  ends with a running supervisor, or with an error and any supervisor it forked told to terminate;
  its stop escalates, and no interleaving signals a process group (\<open>Session\<close>, \<open>Session_Race\<close>); the step
  relation has every call that runs alone among its paths (\<open>Session_Steps\<close>). For nested calls of one
  thread the detector's trackers hold the outermost call between any two atomic operations
  (\<open>Detector_Steps\<close>), its passes warn and abort when they should, and its line makes autossh restart ssh
  (\<open>Detector\<close> and this theory). Some claims record what the code does against its intent or its
  documentation: a lapsed lifetime, an alarm beyond the lifetime, a watchdog that ignores later
  silence, overlapping calls, a signal to a supervisor that has been reaped, zeros in a session's
  settings, and the port and timeout arithmetic.

  \<^bold>\<open>Loops.\<close> Loops with a bound in the code are recursive functions with termination proofs; the loops of
  the watch, of the start and of the listener may run for ever and are \<open>partial_function (option)\<close>,
  with \<open>None\<close> for not ending; that they end is proved under what makes them end (a termination signal,
  children that end and a limit on their number, a clock that goes on). A wait in the watch is taken
  to be woken some time, by the SIGCHLD of a child that ends at the latest. No fuel is used.

  \<^bold>\<open>Not modelled.\<close> The bytes of the embedded library (its length is kept), \<^verbatim>\<open>localtime\<close>, \<^verbatim>\<open>getopt\<close>, \<^verbatim>\<open>daemon\<close>, the libc calls behind the detector's hooks and Rust's
  \<^verbatim>\<open>Display\<close> of a double are parameters. The detector's relaxed atomics are taken as
  sequentially consistent; floating-point infinities and NaN of a caller's configuration are left out.
  Build files, the C tests and the test modules at the end of \<^verbatim>\<open>src/api.rs\<close> are not part of the program.
\<close>

section \<open>Claims\<close>

text \<open>A line of the detector in a chunk that ssh wrote to stderr is a fatal message.\<close>

lemma warn_line_fatal:
  assumes "NUL \<notin> set pre"
  shows "fatal (pre @ warn_line h secs @ post)"
proof -
  have "NUL \<notin> set (show_nat n)" for n using show_int_NUL [of "int n"] by (simp add: show_int_pos)
  moreover have "NUL \<notin> set (hook_name h)" by (cases h) simp_all
  ultimately have "NUL \<notin> set (pre @ warn_line h secs)" using assms by (simp add: warn_line_def)
  then have "c_text ((pre @ warn_line h secs) @ post) = (pre @ warn_line h secs) @ c_text post"
    unfolding c_text_def by (subst takeWhile_append2) auto
  then have "c_text (pre @ warn_line h secs @ post) =
      pre @ needle_stuck @ ('' in '' @ hook_name h @ ''() for '' @ show_nat (nat secs) @ '' secs'' @ [CHR 0x0A] @ c_text post)"
    by (simp add: warn_line_def needle_stuck_def)
  then show ?thesis by (simp add: fatal_def strstr_infix)
qed

text \<open>C31: The two programs fit together. Whenever a call inside ssh has been in flight for the
  threshold, was not warned about within the last threshold, and no call has reached twice the
  threshold, the detector's next pass writes a line, and a drain in autossh whose first chunk
  contains that line asks for a restart.\<close>

theorem detector_warning_restarts:
  assumes "dreach env w" "outermost h (calls w) \<noteq> 0"
    and "THRESHOLD_SECS (det w) \<le> clk w - outermost h (calls w)"
    and "last_warn_sec (trackers (det w) h) = 0 \<or> THRESHOLD_SECS (det w) \<le> clk w - last_warn_sec (trackers (det w) h)"
    and "\<And>g. outermost g (calls w) \<noteq> 0 \<Longrightarrow> clk w - outermost g (calls w) < 2 * THRESHOLD_SECS (det w)"
  shows "\<exists>d new line. monitor_pass (clk w) (det w) = (Return (), d) \<and> written d = written (det w) @ new \<and> line \<in> set new \<and>
    (\<forall>os s pre post more. 0 \<le> ssh_stderr_fd s \<and> NUL \<notin> set pre \<and> os_drain os (n_read s) = (pre @ line @ post) # more \<longrightarrow>
       fst (check_ssh_stderr os s) = 1)"
proof -
  let ?due = "\<lambda>g. outermost g (calls w) \<noteq> 0 \<and> THRESHOLD_SECS (det w) \<le> clk w - outermost g (calls w) \<and>
      (last_warn_sec (trackers (det w) g) = 0 \<or> THRESHOLD_SECS (det w) \<le> clk w - last_warn_sec (trackers (det w) g))"
  let ?new = "map (\<lambda>g. warn_line g (clk w - outermost g (calls w))) (filter ?due TRACKERS)"
  have nd: "\<not> (\<exists>g. outermost g (calls w) \<noteq> 0 \<and> 2 * THRESHOLD_SECS (det w) \<le> clk w - outermost g (calls w))"
    using assms(5) by force
  obtain d where d: "monitor_pass (clk w) (det w) = (Return (), d)" "written d = written (det w) @ ?new"
    using monitor_pass_decided [OF assms(1)] unfolding Let_def if_not_P [OF nd] by blast
  have "h \<in> set TRACKERS" by (cases h) (simp_all add: TRACKERS_def)
  then have l: "warn_line h (clk w - outermost h (calls w)) \<in> set ?new" using assms(2-4) by simp
  have "fst (check_ssh_stderr os s) = 1"
    if "0 \<le> ssh_stderr_fd s" "NUL \<notin> set pre"
      "os_drain os (n_read s) = (pre @ warn_line h (clk w - outermost h (calls w)) @ post) # more" for os s pre post more
    using that warn_line_fatal [OF that(2), of h "clk w - outermost h (calls w)" post]
    by (auto simp: check_ssh_stderr_def fatal_def Let_def warn_line_def)
  with d l show ?thesis by blast
qed

theorem detector_warning_restarts_witness:
  "\<exists>d line. monitor_pass 140 (det stuck_recv) = (Return (), d) \<and> line \<in> set (written d) \<and>
     fst (check_ssh_stderr (idle_os\<lparr>os_drain := (\<lambda>_. [''warning: '' @ line])\<rparr>) (initial_proc\<lparr>ssh_stderr_fd := 5\<rparr>)) = 1"
proof -
  have "\<exists>d new line. monitor_pass (clk stuck_recv) (det stuck_recv) = (Return (), d) \<and>
     written d = written (det stuck_recv) @ new \<and> line \<in> set new \<and>
    (\<forall>os s pre post more. 0 \<le> ssh_stderr_fd s \<and> NUL \<notin> set pre \<and> os_drain os (n_read s) = (pre @ line @ post) # more \<longrightarrow>
       fst (check_ssh_stderr os s) = 1)"
    by (rule detector_warning_restarts [OF stuck_recv_reached, of RECV_T]) (simp_all split: if_splits)
  then obtain d new line where d: "monitor_pass (clk stuck_recv) (det stuck_recv) = (Return (), d)"
    "written d = written (det stuck_recv) @ new" "line \<in> set new"
    and c: "\<And>os s pre post more. 0 \<le> ssh_stderr_fd s \<and> NUL \<notin> set pre \<and>
      os_drain os (n_read s) = (pre @ line @ post) # more \<Longrightarrow> fst (check_ssh_stderr os s) = 1"
    by blast
  have "fst (check_ssh_stderr (idle_os\<lparr>os_drain := (\<lambda>_. [''warning: '' @ line])\<rparr>) (initial_proc\<lparr>ssh_stderr_fd := 5\<rparr>)) = 1"
    by (rule c [where pre = "''warning: ''" and post = "[]" and more = "[]"]) simp
  with d show ?thesis by auto
qed

text \<open>The message of the connection test fits its buffer, so the test never ends the program with
  a buffer overflow: after any environment that was accepted, on a host whose node name has at most
  64 bytes (the limit of \<^verbatim>\<open>uname\<close>), under a program name of at most 37 bytes, and for every pid and
  every value of \<^verbatim>\<open>random\<close> (31 bits).\<close>

lemma monitor_message_fits:
  assumes "settings_ok s0" "max_lifetime s0 = 0" "cchild s0 = 0" "get_env_args h os s0 = (Return (), s)"
    and "length (os_nodename os) \<le> 64" "length (case os_progname os of None \<Rightarrow> ''autossh'' | Some p \<Rightarrow> p) \<le> 37"
    and "0 \<le> rid" "rid < 2 ^ 31"
  shows "length (conn_message os rid s) < BUF_SZ"
proof -
  have "settings_ok s"
    using get_env_args_decides [of h os] assms(1-4)
    by (fastforce simp: decides_def early_def late_def quiet_def split: if_splits)
  then have "length (echo_message s) \<le> 64" by (simp add: settings_ok_def MAX_MESSAGE_def)
  moreover have "length (show_int rid) \<le> 10"
    using assms(7,8) show_nat_length [of "nat rid" 10] by (simp add: show_int_def)
  moreover have "length (show_int (i32 n)) \<le> 11" for n
  proof -
    have "nat \<bar>i32 n\<bar> < 10 ^ 10" using in_i32_i32 [of n] by (auto simp: in_i32_def)
    then show ?thesis using show_nat_length [of "nat \<bar>i32 n\<bar>" 10] by (auto simp: show_int_def)
  qed
  from this [of "os_pid os"] show ?thesis using calculation assms(5,6) by (simp add: conn_message_def BUF_SZ_def MAX_MESSAGE_def)
qed

end
